(* ===== verification/Prelude.thy ===== *)
theory Prelude
  imports "HOL-Library.Word" "HOL-Library.Monad_Syntax"
begin

text \<open>
  Shared vocabulary of the development: the machine integers, the checked and
  saturating arithmetic of the Rust standard library, slices, little-endian
  decoding, the text formatting the crate uses, and the generic lemmas about them.

  Reading of \<^typ>\<open>'a option\<close> as a result of a modelled Rust function.  \<^const>\<open>None\<close>
  means that the call does not return: it panics (an arithmetic overflow under overflow
  checks, a division by zero, a slice index out of range) or loops for ever.
  \<open>Some x\<close> means that it returns \<open>x\<close>.  Functions that can do neither have a plain
  result type.  Values of type \<open>usize\<close> that count or index the elements of
  an in-memory list are natural numbers; every other integer keeps its width.
\<close>

unbundle bit_operations_syntax

subsection \<open>Machine integers\<close>

type_synonym u8 = "8 word"
type_synonym u16 = "16 word"
type_synonym u32 = "32 word"
type_synonym u64 = "64 word"

abbreviation bytes_zero :: "u8 list \<Rightarrow> bool" where
  "bytes_zero bs \<equiv> list_all (\<lambda>b. b = 0) bs"

named_theorems rust_arith \<open>characteristic equations of checked and saturating arithmetic\<close>
named_theorems returns \<open>facts that a modelled call returns\<close>

text \<open>
  Checked arithmetic.  The same functions give \<open>checked_add\<close> and its siblings where the
  source calls them, and the plain operators under overflow checks, where
  \<^const>\<open>None\<close> is the panic.
\<close>

definition checked_add :: "'a::len word \<Rightarrow> 'a word \<Rightarrow> 'a word option" where
  "checked_add a b = (if unat a + unat b < 2 ^ LENGTH('a) then Some (a + b) else None)"

definition checked_sub :: "'a::len word \<Rightarrow> 'a word \<Rightarrow> 'a word option" where
  "checked_sub a b = (if b \<le> a then Some (a - b) else None)"

definition checked_mul :: "'a::len word \<Rightarrow> 'a word \<Rightarrow> 'a word option" where
  "checked_mul a b = (if unat a * unat b < 2 ^ LENGTH('a) then Some (a * b) else None)"

definition checked_div :: "'a::len word \<Rightarrow> 'a word \<Rightarrow> 'a word option" where
  "checked_div a b = (if b = 0 then None else Some (a div b))"

definition saturating_add :: "'a::len word \<Rightarrow> 'a word \<Rightarrow> 'a word" where
  "saturating_add a b = (case checked_add a b of Some c \<Rightarrow> c | None \<Rightarrow> - 1)"

definition saturating_sub :: "'a::len word \<Rightarrow> 'a word \<Rightarrow> 'a word" where
  "saturating_sub a b = (if b \<le> a then a - b else 0)"

definition saturating_mul :: "'a::len word \<Rightarrow> 'a word \<Rightarrow> 'a word" where
  "saturating_mul a b = (case checked_mul a b of Some c \<Rightarrow> c | None \<Rightarrow> - 1)"

lemma unat_max_word: "unat (- 1 :: 'a::len word) = 2 ^ LENGTH('a) - 1"
  by (simp add: unsigned_minus_1_eq_mask mask_eq_exp_minus_1)

lemma unat_less_exp: "unat (a :: 'a::len word) < 2 ^ LENGTH('a)"
  by (rule unsigned_less)

lemma unat_add_no_overflow:
  "unat (a :: 'a::len word) + unat b < 2 ^ LENGTH('a) \<Longrightarrow> unat (a + b) = unat a + unat b"
  by (simp add: unat_word_ariths)

lemma unat_mult_no_overflow:
  "unat (a :: 'a::len word) * unat b < 2 ^ LENGTH('a) \<Longrightarrow> unat (a * b) = unat a * unat b"
  by (simp add: unat_word_ariths)

lemma unat_sub_no_overflow: "b \<le> (a :: 'a::len word) \<Longrightarrow> unat (a - b) = unat a - unat b"
  by (rule unat_sub)

lemma checked_add_Some_iff [rust_arith]:
  "checked_add a b = Some c \<longleftrightarrow> unat c = unat a + unat (b :: 'a::len word)"
proof
  assume "checked_add a b = Some c"
  then show "unat c = unat a + unat b"
    by (auto simp: checked_add_def unat_add_no_overflow split: if_splits)
next
  assume c: "unat c = unat a + unat b"
  then have lt: "unat a + unat b < 2 ^ LENGTH('a)"
    using unat_less_exp [of c] by simp
  then have "a + b = c"
    using c by (metis unat_add_no_overflow unsigned_word_eqI)
  with lt show "checked_add a b = Some c"
    by (simp add: checked_add_def)
qed

lemma checked_sub_Some_iff [rust_arith]:
  "checked_sub a b = Some c \<longleftrightarrow> unat a = unat b + unat (c :: 'a::len word)"
proof
  assume "checked_sub a b = Some c"
  then show "unat a = unat b + unat c"
    by (auto simp: checked_sub_def unat_sub_no_overflow word_le_nat_alt split: if_splits)
next
  assume c: "unat a = unat b + unat c"
  then have "b \<le> a" by (simp add: word_le_nat_alt)
  moreover from this c have "unat (a - b) = unat c" by (simp add: unat_sub_no_overflow)
  ultimately show "checked_sub a b = Some c"
    by (simp add: checked_sub_def word_eq_iff_unsigned [where ?'a = nat])
qed

lemma checked_mul_Some_iff [rust_arith]:
  "checked_mul a b = Some c \<longleftrightarrow> unat c = unat a * unat (b :: 'a::len word)"
proof
  assume "checked_mul a b = Some c"
  then show "unat c = unat a * unat b"
    by (auto simp: checked_mul_def unat_mult_no_overflow split: if_splits)
next
  assume c: "unat c = unat a * unat b"
  then have lt: "unat a * unat b < 2 ^ LENGTH('a)"
    using unat_less_exp [of c] by simp
  then have "a * b = c"
    using c by (metis unat_mult_no_overflow unsigned_word_eqI)
  with lt show "checked_mul a b = Some c"
    by (simp add: checked_mul_def)
qed

lemma checked_add_None_iff [rust_arith]:
  "checked_add a b = None \<longleftrightarrow> 2 ^ LENGTH('a) \<le> unat a + unat (b :: 'a::len word)"
  by (auto simp: checked_add_def)

lemma checked_mul_None_iff [rust_arith]:
  "checked_mul a b = None \<longleftrightarrow> 2 ^ LENGTH('a) \<le> unat a * unat (b :: 'a::len word)"
  by (auto simp: checked_mul_def)

lemma checked_sub_None_iff [rust_arith]: "checked_sub a b = None \<longleftrightarrow> a < (b :: 'a::len word)"
  by (auto simp: checked_sub_def)

lemma unat_saturating_add [rust_arith]:
  "unat (saturating_add a b) = min (unat a + unat b) (2 ^ LENGTH('a) - 1)"
  for a b :: "'a::len word"
proof (cases "unat a + unat b < 2 ^ LENGTH('a)")
  case True
  then have "min (unat a + unat b) (2 ^ LENGTH('a) - 1) = unat a + unat b"
    by linarith
  with True show ?thesis
    by (simp add: saturating_add_def checked_add_def unat_add_no_overflow)
next
  case False
  then have "min (unat a + unat b) (2 ^ LENGTH('a) - 1) = 2 ^ LENGTH('a) - 1"
    by linarith
  with False show ?thesis
    by (simp add: saturating_add_def checked_add_def unat_max_word)
qed

lemma unat_saturating_mul [rust_arith]:
  "unat (saturating_mul a b) = min (unat a * unat b) (2 ^ LENGTH('a) - 1)"
  for a b :: "'a::len word"
proof (cases "unat a * unat b < 2 ^ LENGTH('a)")
  case True
  then have "min (unat a * unat b) (2 ^ LENGTH('a) - 1) = unat a * unat b"
    by linarith
  with True show ?thesis
    by (simp add: saturating_mul_def checked_mul_def unat_mult_no_overflow)
next
  case False
  then have "min (unat a * unat b) (2 ^ LENGTH('a) - 1) = 2 ^ LENGTH('a) - 1"
    by linarith
  with False show ?thesis
    by (simp add: saturating_mul_def checked_mul_def unat_max_word)
qed

lemma unat_saturating_sub [rust_arith]: "unat (saturating_sub a b) = unat a - unat b"
  for a b :: "'a::len word"
  by (auto simp: saturating_sub_def unat_sub_no_overflow word_le_nat_alt)

lemma unat_inject: "unat a = unat b \<longleftrightarrow> a = b"
  by (simp add: word_eq_iff_unsigned [where ?'a = nat])

lemma unat_of_nat_small: "n < 2 ^ LENGTH('a) \<Longrightarrow> unat (of_nat n :: 'a::len word) = n"
  by (simp add: unat_of_nat)

lemma unat_ge_one: "w \<noteq> 0 \<Longrightarrow> Suc 0 \<le> unat w"
  by (simp add: Suc_le_eq unat_gt_0)

text \<open>Widening casts (\<open>as u32\<close>, \<open>as u64\<close>, \<open>u64::from\<close>) keep the value.\<close>

lemma unat_ucast_up:
  "LENGTH('a) \<le> LENGTH('b) \<Longrightarrow> unat (ucast (w :: 'a::len word) :: 'b::len word) = unat w"
proof -
  assume "LENGTH('a) \<le> LENGTH('b)"
  then have "(2 :: nat) ^ LENGTH('a) \<le> 2 ^ LENGTH('b)" by simp
  with unat_less_exp [of w] have "unat w < 2 ^ LENGTH('b)" by linarith
  then show ?thesis by (simp add: unsigned_ucast_eq take_bit_nat_eq_self_iff)
qed

lemma unat_widen_8_16 [simp]: "unat (ucast (b :: u8) :: u16) = unat b"
  by (rule unat_ucast_up) simp

lemma unat_widen_8_32 [simp]: "unat (ucast (b :: u8) :: u32) = unat b"
  by (rule unat_ucast_up) simp

lemma unat_widen_16_32 [simp]: "unat (ucast (b :: u16) :: u32) = unat b"
  by (rule unat_ucast_up) simp

lemma unat_widen_8_64 [simp]: "unat (ucast (b :: u8) :: u64) = unat b"
  by (rule unat_ucast_up) simp

lemma unat_widen_32_64 [simp]: "unat (ucast (b :: u32) :: u64) = unat b"
  by (rule unat_ucast_up) simp

lemma unat_u8_less: "unat (b :: u8) < 256"
  using unat_less_exp [of b] by simp

lemma unat_u16_less: "unat (b :: u16) < 65536"
  using unat_less_exp [of b] by simp

lemma unat_u32_less: "unat (b :: u32) < 4294967296"
  using unat_less_exp [of b] by simp

lemma unat_u64_less: "unat (b :: u64) < 18446744073709551616"
  using unat_less_exp [of b] by simp

lemmas unat_bounds = unat_u8_less unat_u16_less unat_u32_less unat_u64_less

subsection \<open>Slices and arrays\<close>

text \<open>
  \<open>&[u8]\<close> and \<open>Vec\<close> are lists.  Indexing and range indexing panic out of bounds
  (\<^const>\<open>None\<close>); \<open>get(a..b)\<close> returns an \<open>Option\<close> with the same value.  A
  fixed-size array is a list whose length the Rust type guarantees; its constant
  indices are checked by the compiler and are read with \<open>!\<close>.
\<close>

definition index :: "'a list \<Rightarrow> nat \<Rightarrow> 'a option" where
  "index xs i = (if i < length xs then Some (xs ! i) else None)"

definition slice_range :: "'a list \<Rightarrow> nat \<Rightarrow> nat \<Rightarrow> 'a list option" where
  "slice_range xs a b =
     (if a \<le> b \<and> b \<le> length xs then Some (take (b - a) (drop a xs)) else None)"

definition copy_from_slice :: "'a list \<Rightarrow> 'a list \<Rightarrow> 'a list option" where
  "copy_from_slice dst src = (if length dst = length src then Some src else None)"

definition windows :: "nat \<Rightarrow> 'a list \<Rightarrow> 'a list list" where
  "windows n xs = map (\<lambda>i. take n (drop i xs)) [0..<Suc (length xs) - n]"

lemma index_Some [simp]: "i < length xs \<Longrightarrow> index xs i = Some (xs ! i)"
  by (simp add: index_def)

lemma slice_range_Some [simp]:
  "a \<le> b \<Longrightarrow> b \<le> length xs \<Longrightarrow> slice_range xs a b = Some (take (b - a) (drop a xs))"
  by (simp add: slice_range_def)

lemma copy_from_slice_Some [simp]:
  "length dst = length src \<Longrightarrow> copy_from_slice dst src = Some src"
  by (simp add: copy_from_slice_def)

lemma length_windows [simp]: "length (windows n xs) = Suc (length xs) - n"
  by (simp add: windows_def)

lemma nth_windows [simp]:
  "i + n \<le> length xs \<Longrightarrow> windows n xs ! i = take n (drop i xs)"
  by (simp add: windows_def less_diff_conv del: upt_Suc)

lemma in_set_windows_iff:
  "w \<in> set (windows n xs) \<longleftrightarrow> (\<exists>i. i + n \<le> length xs \<and> w = take n (drop i xs))"
  by (auto simp: windows_def less_diff_conv less_Suc_eq_le image_iff)

lemma take_drop_nth_eqI:
  assumes "length ys = n" and "i + n \<le> length xs" and "\<And>j. j < n \<Longrightarrow> xs ! (i + j) = ys ! j"
  shows "take n (drop i xs) = ys"
  using assms by (intro nth_equalityI) auto

lemma bytes_zero_iff: "bytes_zero bs \<longleftrightarrow> bs = replicate (length bs) 0"
  by (induction bs) auto

subsection \<open>Little-endian and big-endian decoding\<close>

primrec le_nat :: "u8 list \<Rightarrow> nat" where
  "le_nat [] = 0"
| "le_nat (b # bs) = unat b + 256 * le_nat bs"

definition from_le_bytes :: "u8 list \<Rightarrow> 'a::len word" where
  "from_le_bytes bs = of_nat (le_nat bs)"

definition from_be_bytes :: "u8 list \<Rightarrow> 'a::len word" where
  "from_be_bytes bs = from_le_bytes (rev bs)"

primrec nat_to_le :: "nat \<Rightarrow> nat \<Rightarrow> u8 list" where
  "nat_to_le 0 n = []"
| "nat_to_le (Suc k) n = of_nat (n mod 256) # nat_to_le k (n div 256)"

definition to_le_bytes :: "nat \<Rightarrow> 'a::len word \<Rightarrow> u8 list" where
  "to_le_bytes k w = nat_to_le k (unat w)"

lemma length_nat_to_le [simp]: "length (nat_to_le k n) = k"
  by (induction k arbitrary: n) auto

lemma length_to_le_bytes [simp]: "length (to_le_bytes k w) = k"
  by (simp add: to_le_bytes_def)

lemma unat_of_nat_u8 [simp]: "unat (of_nat (n mod 256) :: u8) = n mod 256"
  by (simp add: unat_of_nat)

lemma le_nat_less: "le_nat bs < 256 ^ length bs"
proof (induction bs)
  case (Cons b bs)
  then have "le_nat bs + 1 \<le> 256 ^ length bs" by simp
  then have "256 * le_nat bs + 256 \<le> 256 * 256 ^ length bs" by simp
  then show ?case using unat_u8_less [of b] by simp
qed simp

lemma le_nat_nat_to_le: "le_nat (nat_to_le k n) = n mod 256 ^ k"
proof (induction k arbitrary: n)
  case (Suc k)
  then show ?case
    by (simp add: mod_mult2_eq mult.commute add.commute)
qed simp

lemma nat_to_le_le_nat: "nat_to_le (length bs) (le_nat bs) = bs"
proof (induction bs)
  case (Cons b bs)
  have "(unat b + 256 * le_nat bs) mod 256 = unat b"
    using unat_u8_less [of b] by simp
  moreover have "(unat b + 256 * le_nat bs) div 256 = le_nat bs"
    using unat_u8_less [of b] by simp
  ultimately show ?case using Cons by (simp add: of_nat_unat)
qed simp

lemma unat_from_le_bytes:
  "8 * length bs \<le> LENGTH('a) \<Longrightarrow> unat (from_le_bytes bs :: 'a::len word) = le_nat bs"
proof -
  assume "8 * length bs \<le> LENGTH('a)"
  then have "(256 :: nat) ^ length bs \<le> 2 ^ LENGTH('a)"
    using power_increasing [of "8 * length bs" "LENGTH('a)" "2 :: nat"]
    by (simp add: power_mult)
  with le_nat_less [of bs] have "le_nat bs < 2 ^ LENGTH('a)" by linarith
  then show ?thesis by (simp add: from_le_bytes_def unat_of_nat)
qed

lemma to_from_le_bytes:
  "length bs = k \<Longrightarrow> 8 * k \<le> LENGTH('a) \<Longrightarrow> to_le_bytes k (from_le_bytes bs :: 'a::len word) = bs"
  using nat_to_le_le_nat [of bs] by (simp add: to_le_bytes_def unat_from_le_bytes)

lemma from_to_le_bytes:
  assumes "8 * k = LENGTH('a)"
  shows "from_le_bytes (to_le_bytes k w) = (w :: 'a::len word)"
proof -
  have "(256 :: nat) ^ k = 2 ^ LENGTH('a)"
    using assms by (simp add: power_mult flip: assms)
  then show ?thesis
    by (simp add: from_le_bytes_def to_le_bytes_def le_nat_nat_to_le of_nat_unat)
qed

subsection \<open>Byte string literals\<close>

definition ascii :: "string \<Rightarrow> u8 list" where
  "ascii s = map (\<lambda>c. of_nat (of_char c)) s"

lemma length_ascii [simp]: "length (ascii s) = length s"
  by (simp add: ascii_def)

subsection \<open>Options as calls that return\<close>

lemma bind_returns [returns]:
  "m = Some x \<Longrightarrow> \<exists>y. f x = Some y \<Longrightarrow> \<exists>y. m \<bind> f = Some y"
  by simp

lemma bind_Some_iff: "(m \<bind> f) = Some y \<longleftrightarrow> (\<exists>x. m = Some x \<and> f x = Some y)"
  by (cases m) auto

lemma bind_SomeE:
  assumes "(m \<bind> f) = Some y"
  obtains x where "m = Some x" "f x = Some y"
  using assms by (cases m) auto

subsection \<open>Extrema of an iterator\<close>

fun iter_max :: "'a::linorder list \<Rightarrow> 'a option" where
  "iter_max [] = None"
| "iter_max (x # xs) = Some (foldl (\<lambda>m y. if m \<le> y then y else m) x xs)"

fun iter_min :: "'a::linorder list \<Rightarrow> 'a option" where
  "iter_min [] = None"
| "iter_min (x # xs) = Some (foldl (\<lambda>m y. if m \<le> y then m else y) x xs)"

lemma iter_max_eq: "iter_max xs = (if xs = [] then None else Some (Max (set xs)))"
proof (cases xs)
  case (Cons x ys)
  have "foldl (\<lambda>m y. if m \<le> y then y else m) x ys = Max (set (x # ys))"
  proof (induction ys arbitrary: x)
    case (Cons y ys)
    have "foldl (\<lambda>m y. if m \<le> y then y else m) x (y # ys) = Max (set (max x y # ys))"
      using Cons [of "max x y"] by (simp add: max_def)
    then show ?case by (cases ys) (simp_all add: max.assoc)
  qed simp
  with Cons show ?thesis by simp
qed simp

lemma iter_min_eq: "iter_min xs = (if xs = [] then None else Some (Min (set xs)))"
proof (cases xs)
  case (Cons x ys)
  have "foldl (\<lambda>m y. if m \<le> y then m else y) x ys = Min (set (x # ys))"
  proof (induction ys arbitrary: x)
    case (Cons y ys)
    have "foldl (\<lambda>m y. if m \<le> y then m else y) x (y # ys) = Min (set (min x y # ys))"
      using Cons [of "min x y"] by (simp add: min_def)
    then show ?case by (cases ys) (simp_all add: min.assoc)
  qed simp
  with Cons show ?thesis by simp
qed simp

end
