(* ===== verification/RustFmt.thy ===== *)
theory RustFmt
  imports Complex_Main Prelude
begin

text \<open>
  The formatting directives the crates use: decimal integers, hexadecimal integers in
  both cases with and without the \<open>0x\<close> prefix and zero padding, and two-decimal
  floating point.  A string is the list of its UTF-8 bytes.
\<close>

subsection \<open>Integers\<close>

definition digit_char :: "bool \<Rightarrow> nat \<Rightarrow> char" where
  "digit_char upper d = (if d < 10 then char_of (48 + d)
     else if upper then char_of (55 + d) else char_of (87 + d))"

fun radix_string :: "bool \<Rightarrow> nat \<Rightarrow> nat \<Rightarrow> string" where
  "radix_string upper b n = (if n < b \<or> b < 2 then [digit_char upper (n mod 16)]
     else radix_string upper b (n div b) @ [digit_char upper (n mod b)])"

declare radix_string.simps [simp del]

abbreviation dec :: "nat \<Rightarrow> string" where
  "dec n \<equiv> radix_string False 10 n"

definition zero_pad :: "nat \<Rightarrow> string \<Rightarrow> string" where
  "zero_pad w s = replicate (w - length s) CHR ''0'' @ s"

definition fmt_02x :: "u8 \<Rightarrow> string" where
  "fmt_02x b = zero_pad 2 (radix_string False 16 (unat b))"

definition fmt_02X :: "u8 \<Rightarrow> string" where
  "fmt_02X b = zero_pad 2 (radix_string True 16 (unat b))"

definition fmt_04X :: "u16 \<Rightarrow> string" where
  "fmt_04X w = zero_pad 4 (radix_string True 16 (unat w))"

definition fmt_hash_04X :: "u8 \<Rightarrow> string" where
  "fmt_hash_04X b = ''0x'' @ fmt_02X b"

definition fmt_hash_x :: "u64 \<Rightarrow> string" where
  "fmt_hash_x n = ''0x'' @ radix_string False 16 (unat n)"

subsection \<open>Floating point with two decimals\<close>

text \<open>\<open>{:.2}\<close> rounds the value to the nearest hundredth, ties to even.\<close>

definition round_half_even :: "real \<Rightarrow> int" where
  "round_half_even x =
     (let f = \<lfloor>x\<rfloor>; d = x - of_int f in
      if d < 1 / 2 then f else if 1 / 2 < d then f + 1 else if even f then f else f + 1)"

definition fmt_f64_2 :: "real \<Rightarrow> string" where
  "fmt_f64_2 x =
     (let n = nat (round_half_even (100 * \<bar>x\<bar>)) in
      (if x < 0 then ''-'' else '''') @ dec (n div 100) @ ''.'' @ zero_pad 2 (dec (n mod 100)))"

subsection \<open>Punctuation outside ASCII\<close>

definition em_dash :: string where
  "em_dash = [CHR 0xE2, CHR 0x80, CHR 0x94]"

definition en_dash :: string where
  "en_dash = [CHR 0xE2, CHR 0x80, CHR 0x93]"

primrec intercalate :: "string \<Rightarrow> string list \<Rightarrow> string" where
  "intercalate sep [] = []"
| "intercalate sep (x # xs) = (if xs = [] then x else x @ sep @ intercalate sep xs)"

subsection \<open>Reading a number back\<close>

definition char_digit :: "char \<Rightarrow> nat" where
  "char_digit c = (let n = of_char c in
     if n \<le> 57 then n - 48 else if n \<le> 70 then n - 55 else n - 87)"

definition radix_value :: "nat \<Rightarrow> string \<Rightarrow> nat" where
  "radix_value b s = foldl (\<lambda>acc c. acc * b + char_digit c) 0 s"

lemma radix_value_snoc: "radix_value b (s @ [c]) = radix_value b s * b + char_digit c"
  by (simp add: radix_value_def)

lemma char_digit_digit_char: "d < 16 \<Longrightarrow> char_digit (digit_char upper d) = d"
  by (auto simp: char_digit_def digit_char_def Let_def)

lemma radix_value_radix_string:
  assumes "2 \<le> b" and "b \<le> 16"
  shows "radix_value b (radix_string upper b n) = n"
  using assms
proof (induction upper b n rule: radix_string.induct)
  case (1 upper b n)
  show ?case
  proof (cases "n < b")
    case True
    with "1.prems" have "n mod 16 = n" by simp
    with True show ?thesis
      using "1.prems"
      by (simp add: radix_string.simps [of upper b n] radix_value_def char_digit_digit_char)
  next
    case False
    with 1 have IH: "radix_value b (radix_string upper b (n div b)) = n div b" by simp
    have "n mod b < 16" using "1.prems" by (meson less_le_trans mod_less_divisor pos2)
    with False IH "1.prems" show ?thesis
      by (simp add: radix_string.simps [of upper b n] radix_value_snoc char_digit_digit_char)
  qed
qed

lemma radix_string_inject:
  "2 \<le> b \<Longrightarrow> b \<le> 16 \<Longrightarrow> radix_string u b m = radix_string u b n \<longleftrightarrow> m = n"
  by (metis radix_value_radix_string)

lemma zero_pad_value: "radix_value b (zero_pad w s) = radix_value b s"
proof -
  have "foldl (\<lambda>acc c. acc * b + char_digit c) 0 (replicate k CHR ''0'') = 0" for k
    by (induction k) (auto simp: char_digit_def)
  then show ?thesis
    by (simp add: zero_pad_def radix_value_def)
qed

lemma length_radix_16: "n < 256 \<Longrightarrow> length (radix_string u 16 n) \<le> 2"
  by (subst radix_string.simps) (auto simp: radix_string.simps [of u 16 "n div 16"])

lemma length_fmt_02x [simp]: "length (fmt_02x b) = 2"
  using length_radix_16 [of "unat b" False] unat_u8_less [of b]
  by (simp add: fmt_02x_def zero_pad_def)

lemma radix_value_fmt_02x: "radix_value 16 (fmt_02x b) = unat b"
  by (simp add: fmt_02x_def zero_pad_value radix_value_radix_string)

lemma length_intercalate:
  "xs \<noteq> [] \<Longrightarrow> \<forall>x \<in> set xs. length x = k \<Longrightarrow>
     length (intercalate sep xs) = length xs * k + (length xs - 1) * length sep"
  by (induction xs) (auto simp: algebra_simps neq_Nil_conv)

end
