(* ===== verification/Entropy.thy ===== *)
theory Entropy
  imports RustFmt
begin

text \<open>
  Shannon entropy of a byte slice (\<open>forensic/src/entropy.rs\<close>).  A finite \<open>f64\<close> is the real
  number it denotes; the rounding that follows every arithmetic operation and conversion, and
  the platform's \<open>log2\<close>, are the two fields of \<^theory_text>\<open>record f64_env\<close>.  The code is
  written once over an arbitrary \<open>f64_env\<close>; the lemmas here are about its exact instance, those
  under rounding in \<open>Rounding\<close>.
\<close>

record f64_env =
  rnd :: "real \<Rightarrow> real"
  flog2 :: "real \<Rightarrow> real"

definition exact_f64 :: f64_env where
  "exact_f64 = \<lparr>rnd = (\<lambda>x. x), flog2 = log 2\<rparr>"

definition HIGH_ENTROPY_THRESHOLD :: real where
  "HIGH_ENTROPY_THRESHOLD = 6"

subsection \<open>The code\<close>

fun count_bytes :: "u8 list \<Rightarrow> u64 list \<Rightarrow> u64 list option" where
  "count_bytes [] counts = Some counts"
| "count_bytes (b # data) counts = do {
     c \<leftarrow> index counts (unat b);
     c' \<leftarrow> checked_add c 1;
     count_bytes data (counts[unat b := c'])
   }"

definition entropy_term :: "f64_env \<Rightarrow> real \<Rightarrow> u64 \<Rightarrow> real" where
  "entropy_term fl len c =
     (let p = rnd fl (rnd fl (real (unat c)) / len) in rnd fl (- p * flog2 fl p))"

definition shannon :: "f64_env \<Rightarrow> u8 list \<Rightarrow> real option" where
  "shannon fl data =
     (if data = [] then Some 0
      else do {
        counts \<leftarrow> count_bytes data (replicate 256 0);
        let len = rnd fl (real (length data));
        Some (foldl (\<lambda>acc x. rnd fl (acc + x)) 0
          (map (entropy_term fl len) (filter (\<lambda>c. 0 < c) counts)))
      })"

definition is_uniform :: "u8 list \<Rightarrow> bool" where
  "is_uniform data \<longleftrightarrow> list_all (\<lambda>w. w ! 0 = w ! 1) (windows 2 data)"

subsection \<open>Counting\<close>

abbreviation occ :: "u8 list \<Rightarrow> nat \<Rightarrow> nat" where
  "occ data k \<equiv> count_list data (of_nat k)"

lemma count_bytes_eq:
  assumes "length counts = 256" and "\<forall>k < 256. unat (counts ! k) + length data < 2 ^ 64"
  shows "\<exists>cs. count_bytes data counts = Some cs \<and> length cs = 256
    \<and> (\<forall>k < 256. unat (cs ! k) = unat (counts ! k) + occ data k)"
  using assms
proof (induction data arbitrary: counts)
  case (Cons b data)
  have b: "unat b < 256" by (rule unat_u8_less)
  then have c: "unat (counts ! unat b) + Suc (length data) < 2 ^ 64"
    using Cons.prems(2) by simp
  then have add: "checked_add (counts ! unat b) 1 = Some (counts ! unat b + 1)"
    and one: "unat (counts ! unat b + 1) = Suc (unat (counts ! unat b))"
    by (simp_all add: checked_add_def unat_add_no_overflow)
  let ?cs = "counts[unat b := counts ! unat b + 1]"
  have upd: "unat (?cs ! k) = unat (counts ! k) + (if k = unat b then 1 else 0)" if "k < 256" for k
    using that one Cons.prems(1) by (simp add: nth_list_update)
  have "\<exists>cs. count_bytes data ?cs = Some cs \<and> length cs = 256
      \<and> (\<forall>k < 256. unat (cs ! k) = unat (?cs ! k) + occ data k)"
    using Cons.prems by (intro Cons.IH) (auto simp: upd)
  moreover have "occ (b # data) k = (if k = unat b then 1 else 0) + occ data k" if "k < 256" for k
  proof -
    have "b = of_nat k \<longleftrightarrow> k = unat b"
      using that by (auto simp: unat_of_nat_small)
    then show ?thesis by auto
  qed
  ultimately show ?case
    using b Cons.prems(1) add by (auto simp: upd)
qed simp

lemma occ_pos_bij: "bij_betw of_nat {k. k < 256 \<and> 0 < occ data k} (set data)"
proof (rule bij_betw_imageI)
  show "inj_on (of_nat :: nat \<Rightarrow> u8) {k. k < 256 \<and> 0 < occ data k}"
    by (rule inj_on_inverseI [where g = unat]) (simp add: unat_of_nat_small)
  show "of_nat ` {k. k < 256 \<and> 0 < occ data k} = set data"
  proof (intro equalityI subsetI)
    fix b assume "b \<in> set data"
    then have "unat b < 256 \<and> 0 < occ data (unat b)"
      using unat_u8_less [of b] count_list_0_iff [of data b] by auto
    then show "b \<in> of_nat ` {k. k < 256 \<and> 0 < occ data k}"
      by (intro image_eqI [of _ _ "unat b"]) auto
  next
    fix b :: u8 assume "b \<in> of_nat ` {k. k < 256 \<and> 0 < occ data k}"
    then have "count_list data b \<noteq> 0" by auto
    then show "b \<in> set data" by (simp add: count_list_0_iff)
  qed
qed

subsection \<open>Entropy of the empirical distribution\<close>

definition freq :: "u8 list \<Rightarrow> u8 \<Rightarrow> real" where
  "freq data b = count_list data b / length data"

definition empirical_entropy :: "u8 list \<Rightarrow> real" where
  "empirical_entropy data = (\<Sum>b \<in> set data. - freq data b * log 2 (freq data b))"

lemma foldl_add_sum_list: "foldl (\<lambda>acc x. acc + x) (a :: real) xs = a + sum_list xs"
  by (induction xs arbitrary: a) (simp_all add: add.assoc)

lemma sum_list_filter_upt:
  "sum_list (map f (filter P (map g [0..<n]))) = (\<Sum>k \<in> {k. k < n \<and> P (g k)}. f (g k))"
proof -
  have "sum_list (map f (filter P (map g [0..<n]))) =
      sum_list (map (f \<circ> g) (filter (P \<circ> g) [0..<n]))"
    by (simp add: filter_map)
  also have "\<dots> = (\<Sum>k \<in> set (filter (P \<circ> g) [0..<n]). (f \<circ> g) k)"
    by (simp add: sum_list_distinct_conv_sum_set)
  also have "set (filter (P \<circ> g) [0..<n]) = {k. k < n \<and> P (g k)}" by auto
  finally show ?thesis by simp
qed

lemma shannon_returns [returns]: "length data < 2 ^ 64 \<Longrightarrow> \<exists>h. shannon fl data = Some h"
  using count_bytes_eq [of "replicate 256 0" data] by (auto simp: shannon_def Let_def)

text \<open>The positive counters are the counts of the bytes that occur.\<close>

lemma counted_frequencies:
  assumes "length data < 2 ^ 64"
  shows "\<exists>cs. count_bytes data (replicate 256 0) = Some cs \<and> length cs = 256
    \<and> (\<forall>c \<in> set cs. unat c \<le> length data)
    \<and> (\<forall>f. (\<Sum>c\<leftarrow>filter (\<lambda>c. 0 < c) cs. f (real (unat c) / length data)) =
        (\<Sum>b \<in> set data. f (freq data b) :: real))"
proof -
  obtain cs where cs: "count_bytes data (replicate 256 0) = Some cs" and len: "length cs = 256"
    and nth: "\<forall>k < 256. unat (cs ! k) = occ data k"
    using count_bytes_eq [of "replicate 256 0" data] assms by auto
  have map: "cs = map (\<lambda>k. cs ! k) [0..<256]" using len map_nth [of cs] by simp
  have "(\<Sum>c\<leftarrow>filter (\<lambda>c. 0 < c) cs. f (real (unat c) / length data)) =
      (\<Sum>b \<in> set data. f (freq data b) :: real)" for f
  proof -
    let ?t = "\<lambda>c. f (real (unat c) / length data)"
    have "(\<Sum>c\<leftarrow>filter (\<lambda>c. 0 < c) cs. ?t c) = (\<Sum>k \<in> {k. k < 256 \<and> 0 < cs ! k}. ?t (cs ! k))"
      by (subst map) (rule sum_list_filter_upt)
    also have "{k. k < 256 \<and> 0 < cs ! k} = {k. k < 256 \<and> 0 < occ data k}"
      using nth by (auto simp: word_less_nat_alt)
    also have "(\<Sum>k \<in> {k. k < 256 \<and> 0 < occ data k}. ?t (cs ! k)) =
        (\<Sum>k \<in> {k. k < 256 \<and> 0 < occ data k}. f (freq data (of_nat k)))"
      by (rule sum.cong) (auto simp: nth freq_def)
    also have "\<dots> = (\<Sum>b \<in> set data. f (freq data b))"
      by (rule sum.reindex_bij_betw [OF occ_pos_bij])
    finally show ?thesis .
  qed
  moreover have "unat c \<le> length data" if "c \<in> set cs" for c
    using that nth len count_le_length [of data] by (auto simp: in_set_conv_nth)
  ultimately show ?thesis using cs len by blast
qed

lemma shannon_exact:
  assumes "length data < 2 ^ 64"
  shows "shannon exact_f64 data = Some (empirical_entropy data)"
proof (cases "data = []")
  case True
  then show ?thesis by (simp add: shannon_def empirical_entropy_def)
next
  case False
  obtain cs where cs: "count_bytes data (replicate 256 0) = Some cs"
    and sums: "\<And>f. (\<Sum>c\<leftarrow>filter (\<lambda>c. 0 < c) cs. f (real (unat c) / length data)) =
      (\<Sum>b \<in> set data. f (freq data b) :: real)"
    using counted_frequencies [OF assms] by blast
  have "entropy_term exact_f64 (real (length data)) =
      (\<lambda>c. - (real (unat c) / length data) * log 2 (real (unat c) / length data))"
    by (rule ext) (simp add: entropy_term_def exact_f64_def Let_def)
  moreover have "rnd exact_f64 = (\<lambda>x. x)" by (simp add: exact_f64_def)
  ultimately show ?thesis
    using False cs sums [of "\<lambda>x. - x * log 2 x"]
    by (simp add: shannon_def foldl_add_sum_list Let_def empirical_entropy_def)
qed

lemma freq_pos: "b \<in> set data \<Longrightarrow> 0 < freq data b"
  using count_list_0_iff [of data b] by (cases data) (auto simp: freq_def)

lemma freq_le_1: "freq data b \<le> 1"
  using count_le_length [of data b] by (auto simp: freq_def divide_le_eq)

lemma sum_freq: "data \<noteq> [] \<Longrightarrow> (\<Sum>b \<in> set data. freq data b) = 1"
proof -
  assume ne: "data \<noteq> []"
  have "(\<Sum>b \<in> set data. count_list data b) = length data" by (simp add: sum_count_set)
  then have "(\<Sum>b \<in> set data. real (count_list data b)) = real (length data)"
    by (metis of_nat_sum)
  with ne show ?thesis by (simp add: freq_def sum_divide_distrib [symmetric])
qed

lemma entropy_term_nonneg: "b \<in> set data \<Longrightarrow> 0 \<le> - freq data b * log 2 (freq data b)"
  using freq_pos [of b data] freq_le_1 [of data b]
  by (simp add: mult_nonneg_nonpos)

lemma entropy_nonneg: "0 \<le> empirical_entropy data"
  unfolding empirical_entropy_def by (intro sum_nonneg entropy_term_nonneg)

lemma entropy_le_log_card:
  assumes "data \<noteq> []"
  shows "empirical_entropy data \<le> log 2 (card (set data))"
proof -
  let ?K = "real (card (set data))"
  have K: "0 < ?K" using assms by (simp add: card_gt_0_iff)
  have le: "- freq data b * log 2 (freq data b) \<le>
      freq data b * log 2 ?K + (1 / ?K - freq data b) / ln 2" if b: "b \<in> set data" for b
  proof -
    let ?p = "freq data b"
    have p: "0 < ?p" using b by (rule freq_pos)
    have "- log 2 ?p - log 2 ?K = ln (1 / (?p * ?K)) / ln 2"
      using p K assms by (simp add: log_def ln_div ln_mult diff_divide_distrib add_divide_distrib)
    also have "\<dots> \<le> (1 / (?p * ?K) - 1) / ln 2"
      using p K by (intro divide_right_mono ln_le_minus_one) auto
    finally have "?p * (- log 2 ?p - log 2 ?K) \<le> ?p * ((1 / (?p * ?K) - 1) / ln 2)"
      using p by (intro mult_left_mono) auto
    also have "\<dots> = (1 / ?K - ?p) / ln 2" using p K by (simp add: field_simps)
    finally show ?thesis by (simp add: algebra_simps)
  qed
  have "empirical_entropy data \<le> (\<Sum>b \<in> set data. freq data b * log 2 ?K + (1 / ?K - freq data b) / ln 2)"
    unfolding empirical_entropy_def by (intro sum_mono le)
  also have "\<dots> = log 2 ?K"
    using K assms by (simp add: sum.distrib sum_subtractf sum_distrib_right [symmetric]
        sum_divide_distrib [symmetric] sum_freq [OF assms])
  finally show ?thesis .
qed

lemma entropy_le_8:
  assumes "data \<noteq> []" shows "empirical_entropy data \<le> 8"
proof -
  have pos: "0 < card (set data)" using assms(1) by (simp add: card_gt_0_iff)
  have "card (set data) \<le> card (UNIV :: u8 set)" by (rule card_mono) auto
  then have "card (set data) \<le> 256" by (simp add: card_word)
  then have "log 2 (card (set data)) \<le> log 2 256" using pos by (intro log_mono) auto
  moreover have "log 2 (256 :: real) = 8" using log_nat_power [of 2 2 8] by simp
  ultimately show ?thesis using entropy_le_log_card [OF assms] by simp
qed

lemma entropy_zero_iff:
  assumes "data \<noteq> []"
  shows "empirical_entropy data = 0 \<longleftrightarrow> card (set data) = 1"
proof
  assume "card (set data) = 1"
  then show "empirical_entropy data = 0"
    using entropy_nonneg [of data] entropy_le_log_card [OF assms] by simp
next
  assume zero: "empirical_entropy data = 0"
  have one: "freq data b = 1" if b: "b \<in> set data" for b
  proof -
    have "- freq data b * log 2 (freq data b) = 0"
      using zero b entropy_term_nonneg unfolding empirical_entropy_def
      by (subst (asm) sum_nonneg_eq_0_iff) auto
    with freq_pos [OF b] show ?thesis by (simp add: log_def)
  qed
  then have "(\<Sum>b \<in> set data. freq data b) = card (set data)" by simp
  with sum_freq [OF assms] show "card (set data) = 1" by simp
qed

lemma is_uniform_iff: "is_uniform data \<longleftrightarrow> (\<exists>n b. data = replicate n b)"
proof
  assume u: "is_uniform data"
  have step: "data ! i = data ! Suc i" if "Suc i < length data" for i
  proof -
    have "windows 2 data ! i \<in> set (windows 2 data)" using that by (intro nth_mem) simp
    with u have "windows 2 data ! i ! 0 = windows 2 data ! i ! 1"
      unfolding is_uniform_def list_all_iff by blast
    with that show ?thesis by simp
  qed
  have "data ! i = data ! 0" if "i < length data" for i
    using that by (induction i) (auto simp: step [symmetric])
  then have "data = replicate (length data) (data ! 0)"
    by (intro nth_equalityI) auto
  then show "\<exists>n b. data = replicate n b" by blast
qed (auto simp: is_uniform_def list_all_iff windows_def)

lemma card_set_1_iff: "data \<noteq> [] \<Longrightarrow> card (set data) = 1 \<longleftrightarrow> is_uniform data"
proof
  assume "card (set data) = 1"
  then obtain b where "set data = {b}" by (auto simp: card_1_singleton_iff)
  then have "data = replicate (length data) b"
    by (metis replicate_length_same singletonD)
  then show "is_uniform data" unfolding is_uniform_iff by blast
qed (auto simp: is_uniform_iff set_replicate_conv_if)

lemma short_entropy:
  assumes "length data \<le> 64" and "shannon exact_f64 data = Some h"
  shows "h \<le> HIGH_ENTROPY_THRESHOLD"
proof (cases "data = []")
  case False
  have "card (set data) \<le> 64" using card_length [of data] assms(1) by linarith
  moreover have "0 < card (set data)" using False by (simp add: card_gt_0_iff)
  ultimately have "log 2 (card (set data)) \<le> log 2 64" by (intro log_mono) auto
  moreover have "log 2 (64 :: real) = 6" using log_nat_power [of 2 2 6] by simp
  ultimately have "empirical_entropy data \<le> 6" using entropy_le_log_card [OF False] by simp
  moreover have "h = empirical_entropy data" using assms shannon_exact [of data] by simp
  ultimately show ?thesis by (simp add: HIGH_ENTROPY_THRESHOLD_def)
qed (use assms in \<open>simp add: shannon_def HIGH_ENTROPY_THRESHOLD_def\<close>)

subsection \<open>Properties\<close>

text \<open>
  Further fact (bounds): computed with exact arithmetic, the entropy of a non-empty slice lies between 0
  and 8 bits per byte, never exceeds the base-2 logarithm of its length, and is 0 exactly for the
  slices that \<open>is_uniform\<close> accepts; the byte counters never overflow.
\<close>
theorem shannon_bounds:
  assumes "data \<noteq> []" and "length data < 2 ^ 64"
  shows "\<exists>h. shannon exact_f64 data = Some h \<and> 0 \<le> h \<and> h \<le> 8 \<and> h \<le> log 2 (length data)
    \<and> (h = 0 \<longleftrightarrow> is_uniform data)"
proof (intro exI conjI)
  have pos: "0 < card (set data)" using assms(1) by (simp add: card_gt_0_iff)
  show "empirical_entropy data \<le> 8" by (rule entropy_le_8 [OF assms(1)])
  have "log 2 (card (set data)) \<le> log 2 (length data)"
    using pos by (intro log_mono) (auto simp: card_length)
  then show "empirical_entropy data \<le> log 2 (length data)" using entropy_le_log_card [OF assms(1)] by simp
  show "empirical_entropy data = 0 \<longleftrightarrow> is_uniform data"
    using entropy_zero_iff card_set_1_iff assms(1) by blast
qed (simp_all only: shannon_exact [OF assms(2)] entropy_nonneg)

theorem shannon_bounds_witness:
  "([7, 7] :: u8 list) \<noteq> [] \<and> length ([7, 7] :: u8 list) < 2 ^ 64
   \<and> shannon exact_f64 [7, 7] = Some 0"
  using shannon_bounds [of "[7, 7]"] by (auto simp: is_uniform_iff replicate_app_Cons_same
      intro!: exI [of _ "Suc (Suc 0)"])

end
