(* ===== verification/Wipe.thy ===== *)
theory Wipe
  imports Entropy
begin

text \<open>
  Wipe-pattern classification of a byte region (\<open>forensic/src/wipe.rs\<close>).
\<close>

datatype fill_pattern =
    Zeros | Ones | Uniform u8 | Alternating u8 u8 | HighEntropy | Mixed

fun is_deliberate_wipe :: "fill_pattern \<Rightarrow> bool" where
  "is_deliberate_wipe Ones = True"
| "is_deliberate_wipe (Uniform _) = True"
| "is_deliberate_wipe (Alternating _ _) = True"
| "is_deliberate_wipe _ = False"

fun fill_pattern_label :: "fill_pattern \<Rightarrow> string" where
  "fill_pattern_label Zeros = ''all 0x00''"
| "fill_pattern_label Ones = ''all 0xFF''"
| "fill_pattern_label (Uniform b) = ''uniform '' @ fmt_hash_04X b"
| "fill_pattern_label (Alternating a b) =
     ''alternating '' @ fmt_hash_04X a @ ''/'' @ fmt_hash_04X b"
| "fill_pattern_label HighEntropy = ''high-entropy (random/encrypted)''"
| "fill_pattern_label Mixed = ''mixed''"

definition classify :: "f64_env \<Rightarrow> u8 list \<Rightarrow> fill_pattern option" where
  "classify fl data =
     (if data = [] then Some Mixed
      else do {
        first \<leftarrow> index data 0;
        if list_all (\<lambda>b. b = first) data
        then Some (if first = 0x00 then Zeros else if first = 0xFF then Ones else Uniform first)
        else do {
          alternating \<leftarrow> (if 2 \<le> length data
            then do {
              a \<leftarrow> index data 0;
              b \<leftarrow> index data 1;
              Some (if a \<noteq> b
                    \<and> list_all (\<lambda>(i, x). x = (if i mod 2 = 0 then a else b)) (enumerate 0 data)
                    then Some (Alternating a b) else None)
            }
            else Some None);
          case alternating of
            Some pattern \<Rightarrow> Some pattern
          | None \<Rightarrow> do {
              h \<leftarrow> shannon fl data;
              if HIGH_ENTROPY_THRESHOLD < h then Some HighEntropy else Some Mixed
            }
        }
      })"

subsection \<open>Lemmas\<close>

definition period_two :: "u8 list \<Rightarrow> bool" where
  "period_two data \<longleftrightarrow> (\<forall>i. i + 2 < length data \<longrightarrow> data ! (i + 2) = data ! i)"

lemma period_two_nth:
  assumes "period_two data"
  shows "i < length data \<Longrightarrow> data ! i = data ! (i mod 2)"
proof (induction i rule: less_induct)
  case (less i)
  show ?case
  proof (cases "i < 2")
    case False
    then have "i - 2 < i" by simp
    then have "data ! (i - 2) = data ! ((i - 2) mod 2)"
      using less.IH [of "i - 2"] less.prems by linarith
    moreover have "data ! i = data ! (i - 2)"
    proof -
      have "i - 2 + 2 = i" using False by simp
      then show ?thesis using assms less.prems unfolding period_two_def by metis
    qed
    moreover have "(i - 2) mod 2 = i mod 2" using False by (simp add: le_mod_geq)
    ultimately show ?thesis by simp
  qed simp
qed

lemma alternating_iff_period_two:
  assumes "2 \<le> length data"
  shows "list_all (\<lambda>(i, x). x = (if i mod 2 = 0 then data ! 0 else data ! 1)) (enumerate 0 data)
    \<longleftrightarrow> period_two data"
proof -
  have "list_all (\<lambda>(i, x). x = (if i mod 2 = 0 then data ! 0 else data ! 1)) (enumerate 0 data)
      \<longleftrightarrow> (\<forall>i < length data. data ! i = data ! (i mod 2))"
    by (auto simp: list_all_length nth_enumerate_eq mod_2_eq_odd)
  also have "\<dots> \<longleftrightarrow> period_two data"
  proof
    assume eq: "\<forall>i < length data. data ! i = data ! (i mod 2)"
    show "period_two data" unfolding period_two_def
    proof (intro allI impI)
      fix i assume "i + 2 < length data"
      then have "data ! (i + 2) = data ! ((i + 2) mod 2)" "data ! i = data ! (i mod 2)"
        using eq [rule_format, of "i + 2"] eq [rule_format, of i] by linarith+
      then show "data ! (i + 2) = data ! i" by simp
    qed
  qed (intro allI impI, rule period_two_nth)
  finally show ?thesis .
qed

lemma all_equal_period_two: "list_all (\<lambda>b. b = c) data \<Longrightarrow> period_two data"
  by (auto simp: list_all_length period_two_def)

lemma classify_eq:
  assumes "data \<noteq> []" and "length data < 2 ^ 64"
  obtains h where "shannon fl data = Some h"
    "classify fl data = Some (
       if list_all (\<lambda>b. b = data ! 0) data
       then (if data ! 0 = 0x00 then Zeros else if data ! 0 = 0xFF then Ones else Uniform (data ! 0))
       else if data ! 0 \<noteq> data ! 1 \<and> period_two data then Alternating (data ! 0) (data ! 1)
       else if HIGH_ENTROPY_THRESHOLD < h then HighEntropy else Mixed)"
proof -
  obtain h where h: "shannon fl data = Some h" using shannon_returns [OF assms(2)] by blast
  have len: "2 \<le> length data" if "\<not> list_all (\<lambda>b. b = data ! 0) data"
    using that assms(1) by (cases data rule: remdups_adj.cases) auto
  show thesis
  proof (rule that [OF h], cases "list_all (\<lambda>b. b = data ! 0) data")
    case False
    from len [OF this] show "classify fl data = Some (
       if list_all (\<lambda>b. b = data ! 0) data
       then (if data ! 0 = 0x00 then Zeros else if data ! 0 = 0xFF then Ones else Uniform (data ! 0))
       else if data ! 0 \<noteq> data ! 1 \<and> period_two data then Alternating (data ! 0) (data ! 1)
       else if HIGH_ENTROPY_THRESHOLD < h then HighEntropy else Mixed)"
      using False assms(1) h alternating_iff_period_two [OF len [OF False]]
      by (simp add: classify_def del: One_nat_def)
  qed (use assms(1) in \<open>simp add: classify_def\<close>)
qed

lemma classify_returns [returns]: "length data < 2 ^ 64 \<Longrightarrow> \<exists>p. classify fl data = Some p"
  by (cases "data = []") (simp add: classify_def, meson classify_eq)

lemma classify_deliberate:
  assumes "data \<noteq> []" and "length data < 2 ^ 64"
  shows "\<exists>p. classify fl data = Some p
    \<and> (is_deliberate_wipe p \<longleftrightarrow> period_two data \<and> \<not> bytes_zero data)"
proof -
  obtain h where c: "classify fl data = Some (
       if list_all (\<lambda>b. b = data ! 0) data
       then (if data ! 0 = 0x00 then Zeros else if data ! 0 = 0xFF then Ones else Uniform (data ! 0))
       else if data ! 0 \<noteq> data ! 1 \<and> period_two data then Alternating (data ! 0) (data ! 1)
       else if HIGH_ENTROPY_THRESHOLD < h then HighEntropy else Mixed)"
    using classify_eq [OF assms] by metis
  show ?thesis
  proof (cases "list_all (\<lambda>b. b = data ! 0) data")
    case True
    then have "bytes_zero data \<longleftrightarrow> data ! 0 = 0" using assms(1)
      by (cases data) (auto simp: list_all_iff)
    with True c all_equal_period_two show ?thesis by auto
  next
    case False
    have "\<not> bytes_zero data" using False by (cases data) (auto simp: list_all_iff)
    moreover have "data ! 0 \<noteq> data ! 1" if "period_two data"
    proof
      assume "data ! 0 = data ! 1"
      then have "data ! (i mod 2) = data ! 0" for i by (cases "even i") (auto simp: odd_iff_mod_2_eq_one)
      with period_two_nth [OF that] have "\<forall>i < length data. data ! i = data ! 0" by metis
      with False show False by (simp add: list_all_length)
    qed
    ultimately show ?thesis using False c by auto
  qed
qed

subsection \<open>Properties\<close>

text \<open>
  C35 (functional): the classifier flags a deliberate overwrite exactly when the region is not
  all zero and repeats with period two, whatever the floating-point arithmetic does; it never
  panics.
\<close>
theorem classify_flags_periodic_fills:
  assumes "data \<noteq> []" and "length data < 2 ^ 64"
  shows "\<exists>p. classify fl data = Some p
    \<and> (is_deliberate_wipe p \<longleftrightarrow>
         (\<exists>b \<in> set data. b \<noteq> 0) \<and> (\<forall>i. i + 2 < length data \<longrightarrow> data ! (i + 2) = data ! i))"
proof -
  have "\<not> bytes_zero data \<longleftrightarrow> (\<exists>b \<in> set data. b \<noteq> 0)" by (simp add: list_all_iff)
  then show ?thesis
    using classify_deliberate [OF assms, of fl] unfolding period_two_def by (simp only: conj_commute)
qed

theorem classify_flags_periodic_fills_witness:
  "length ([0x55, 0xAA, 0x55] :: u8 list) < 2 ^ 64
   \<and> (\<exists>p. classify exact_f64 [0x55, 0xAA, 0x55] = Some p \<and> is_deliberate_wipe p)"
proof -
  let ?d = "[0x55, 0xAA, 0x55] :: u8 list"
  have "?d ! (i + 2) = ?d ! i" if "i + 2 < length ?d" for i
  proof -
    have "i = 0" using that by simp
    then show ?thesis by simp
  qed
  then have per: "\<forall>i. i + 2 < length ?d \<longrightarrow> ?d ! (i + 2) = ?d ! i" by blast
  have ne: "?d \<noteq> []" and len: "length ?d < 2 ^ 64" and nz: "\<exists>b \<in> set ?d. b \<noteq> 0" by simp_all
  from classify_flags_periodic_fills [OF ne len, of exact_f64] len nz per show ?thesis by blast
qed

text \<open>
  Further fact (bounds): with exact arithmetic no region of at most 64 bytes is ever classified as
  high-entropy: its entropy is at most 6 bits per byte.
\<close>
theorem short_region_never_high_entropy:
  assumes "length data \<le> 64"
  shows "\<exists>p. classify exact_f64 data = Some p \<and> p \<noteq> HighEntropy"
proof (cases "data = []")
  case False
  have len: "length data < 2 ^ 64" using assms by simp
  obtain h where h: "shannon exact_f64 data = Some h" "classify exact_f64 data = Some (
       if list_all (\<lambda>b. b = data ! 0) data
       then (if data ! 0 = 0x00 then Zeros else if data ! 0 = 0xFF then Ones else Uniform (data ! 0))
       else if data ! 0 \<noteq> data ! 1 \<and> period_two data then Alternating (data ! 0) (data ! 1)
       else if HIGH_ENTROPY_THRESHOLD < h then HighEntropy else Mixed)"
    using classify_eq [OF False len] by metis
  have "h \<le> HIGH_ENTROPY_THRESHOLD" using short_entropy [OF assms] h(1) by simp
  with h(2) show ?thesis by auto
qed (simp add: classify_def)

theorem short_region_never_high_entropy_witness:
  "length (replicate 64 1 :: u8 list) \<le> 64
   \<and> (\<exists>p. classify exact_f64 (replicate 64 1) = Some p \<and> p \<noteq> HighEntropy)"
  using short_region_never_high_entropy [of "replicate 64 1"] by simp

end
