(* ===== verification/Gap.thy ===== *)
theory Gap
  imports Prelude
begin

text \<open>
  Unpartitioned space (\<open>forensic/src/gap.rs\<close>): the sweep over the sorted extents, and its
  specification as the complement of the extents.
\<close>

datatype gap_kind = PrePartition | Between | PostPartition

record gap =
  gap_lba_start :: u64
  gap_lba_end :: u64
  gap_byte_size :: u64
  gap_class :: gap_kind

definition push_gap ::
  "gap list \<Rightarrow> u64 \<Rightarrow> u64 \<Rightarrow> u64 \<Rightarrow> gap_kind \<Rightarrow> gap list option" where
  "push_gap gaps lo hi sector_size kind = do {
     d \<leftarrow> checked_sub hi lo;
     sectors \<leftarrow> checked_add d 1;
     bytes \<leftarrow> checked_mul sectors sector_size;
     Some (gaps @ [\<lparr>gap_lba_start = lo, gap_lba_end = hi, gap_byte_size = bytes,
                    gap_class = kind\<rparr>])
   }"

fun gap_sweep ::
  "u64 \<Rightarrow> u64 \<Rightarrow> (u64 \<times> u64) list \<Rightarrow> u64 \<Rightarrow> gap list \<Rightarrow> (u64 \<times> gap list) option" where
  "gap_sweep first_usable sector_size [] cursor gaps = Some (cursor, gaps)"
| "gap_sweep first_usable sector_size ((start, stop) # extents) cursor gaps = do {
     gaps \<leftarrow> (if cursor < start
       then do {
         let kind = (if cursor = first_usable then PrePartition else Between);
         lba_end \<leftarrow> checked_sub start 1;
         push_gap gaps cursor lba_end sector_size kind
       }
       else Some gaps);
     cursor \<leftarrow> (if cursor \<le> stop then checked_add stop 1 else Some cursor);
     gap_sweep first_usable sector_size extents cursor gaps
   }"

definition compute_gaps ::
  "(u64 \<times> u64) list \<Rightarrow> u64 \<Rightarrow> u64 \<Rightarrow> u64 \<Rightarrow> gap list option" where
  "compute_gaps extents first_usable disk_last_lba sector_size = do {
     (cursor, gaps) \<leftarrow> gap_sweep first_usable sector_size extents first_usable [];
     if cursor \<le> disk_last_lba
     then push_gap gaps cursor disk_last_lba sector_size PostPartition
     else Some gaps
   }"

subsection \<open>Specification\<close>

definition covered :: "(u64 \<times> u64) list \<Rightarrow> nat \<Rightarrow> bool" where
  "covered extents lba \<longleftrightarrow> (\<exists>(s, e) \<in> set extents. unat s \<le> lba \<and> lba \<le> unat e)"

definition before_some :: "(u64 \<times> u64) list \<Rightarrow> nat \<Rightarrow> bool" where
  "before_some extents lba \<longleftrightarrow> (\<exists>(s, e) \<in> set extents. lba < unat s)"

definition in_gap :: "nat \<Rightarrow> gap \<Rightarrow> bool" where
  "in_gap lba g \<longleftrightarrow> unat (gap_lba_start g) \<le> lba \<and> lba \<le> unat (gap_lba_end g)"

definition gap_ok :: "u64 \<Rightarrow> gap \<Rightarrow> bool" where
  "gap_ok sector_size g \<longleftrightarrow> gap_lba_start g \<le> gap_lba_end g
     \<and> unat (gap_byte_size g) =
         (unat (gap_lba_end g) - unat (gap_lba_start g) + 1) * unat sector_size"

text \<open>
  What the callers supply: extents sorted by start, each at most one sector short of being
  well-formed (a zero-length entry ends one sector before it starts), with arithmetic head room.
\<close>

definition extents_ok :: "u64 \<Rightarrow> (u64 \<times> u64) list \<Rightarrow> bool" where
  "extents_ok sector_size extents \<longleftrightarrow> sorted (map fst extents)
     \<and> (\<forall>(s, e) \<in> set extents. unat s \<le> unat e + 1 \<and> unat e + 1 < 2 ^ 64
          \<and> unat s * unat sector_size < 2 ^ 64)"

definition apart :: "gap \<Rightarrow> gap \<Rightarrow> bool" where
  "apart g h \<longleftrightarrow> gap_lba_end g < gap_lba_start h"

text \<open>Two gaps with at least one sector between them, so that neither can be extended into the other.\<close>

definition separated :: "gap \<Rightarrow> gap \<Rightarrow> bool" where
  "separated g h \<longleftrightarrow> unat (gap_lba_end g) + 1 < unat (gap_lba_start h)"

subsection \<open>Lemmas\<close>

lemma extents_ok_Cons:
  "extents_ok ss ((s, e) # xs) \<longleftrightarrow>
     (\<forall>(s', e') \<in> set xs. s \<le> s') \<and> unat s \<le> unat e + 1 \<and> unat e + 1 < 2 ^ 64
     \<and> unat s * unat ss < 2 ^ 64 \<and> extents_ok ss xs"
  unfolding extents_ok_def by auto

lemma push_gap_eq:
  assumes "unat a \<le> unat b" and "(unat b - unat a + 1) * unat ss < 2 ^ 64"
    and "unat b + 1 < 2 ^ 64 \<or> 0 < unat a"
  shows "\<exists>g. push_gap gaps a b ss k = Some (gaps @ [g]) \<and> gap_ok ss g
    \<and> gap_lba_start g = a \<and> gap_lba_end g = b \<and> gap_class g = k"
proof -
  have "unat b < 2 ^ 64" using unat_less_exp [of b] by simp
  have d: "checked_sub b a = Some (b - a)" and ud: "unat (b - a) = unat b - unat a"
    using assms(1) by (simp_all add: checked_sub_def word_le_nat_alt unat_sub_no_overflow)
  have s: "checked_add (b - a) 1 = Some (b - a + 1)" and us: "unat (b - a + 1) = unat b - unat a + 1"
    using ud assms(3) \<open>unat b < 2 ^ 64\<close>
    by (auto simp: checked_add_def unat_add_no_overflow)
  have m: "checked_mul (b - a + 1) ss = Some ((b - a + 1) * ss)"
    and um: "unat ((b - a + 1) * ss) = (unat b - unat a + 1) * unat ss"
    using us assms(2) by (auto simp: checked_mul_def unat_mult_no_overflow)
  show ?thesis
    using assms(1) d s m um by (simp add: push_gap_def gap_ok_def word_le_nat_alt)
qed

text \<open>One iteration: the gap before the extent, if any, and the advanced cursor.\<close>

lemma gap_step:
  assumes "unat s \<le> unat e + 1" and "unat e + 1 < 2 ^ 64" and "unat s * unat ss < 2 ^ 64"
  shows "\<exists>c new. gap_sweep first ss ((s, e) # extents) cursor gaps =
      gap_sweep first ss extents c (gaps @ new)
    \<and> unat c = max (unat cursor) (unat e + 1) \<and> length new \<le> 1
    \<and> (\<forall>g \<in> set new. gap_ok ss g \<and> gap_lba_start g = cursor \<and> unat (gap_lba_end g) + 1 = unat s
         \<and> gap_class g = (if gap_lba_start g = first then PrePartition else Between))
    \<and> (new = [] \<longleftrightarrow> unat s \<le> unat cursor)"
proof -
  have c: "\<exists>c. (if cursor \<le> e then checked_add e 1 else Some cursor) = Some c
      \<and> unat c = max (unat cursor) (unat e + 1)"
    using assms(2) by (auto simp: checked_add_def unat_add_no_overflow word_le_nat_alt)
  show ?thesis
  proof (cases "cursor < s")
    case False
    then show ?thesis
      using c by (auto simp: word_less_nat_alt intro!: exI [of _ "[]"])
  next
    case True
    then have lt: "unat cursor < unat s" by (simp add: word_less_nat_alt)
    have s1: "checked_sub s 1 = Some (s - 1)" and us: "unat (s - 1) = unat s - 1"
      using lt by (auto simp: checked_sub_def word_le_nat_alt unat_sub_no_overflow)
    have "(unat s - 1 - unat cursor + 1) * unat ss \<le> unat s * unat ss"
      using lt by (intro mult_right_mono) auto
    then have pre: "unat cursor \<le> unat (s - 1)" "(unat (s - 1) - unat cursor + 1) * unat ss < 2 ^ 64"
      "unat (s - 1) + 1 < 2 ^ 64 \<or> 0 < unat cursor"
      using lt us assms(3) unat_less_exp [of s] by auto
    obtain g where g: "push_gap gaps cursor (s - 1) ss
          (if cursor = first then PrePartition else Between) = Some (gaps @ [g])"
        "gap_ok ss g" "gap_lba_start g = cursor" "gap_lba_end g = s - 1"
        "gap_class g = (if cursor = first then PrePartition else Between)"
      using push_gap_eq [OF pre] by blast
    obtain c' where "(if cursor \<le> e then checked_add e 1 else Some cursor) = Some c'"
      "unat c' = max (unat cursor) (unat e + 1)" using c by blast
    then show ?thesis
      using True lt s1 us g by (intro exI [of _ c'] exI [of _ "[g]"]) (simp add: Let_def)
  qed
qed

lemma gap_sweep_spec:
  assumes "extents_ok ss extents"
  shows "\<exists>cursor' new. gap_sweep first ss extents cursor gaps = Some (cursor', gaps @ new)
    \<and> (\<forall>lba. (\<exists>g \<in> set new. in_gap lba g) \<longleftrightarrow>
         unat cursor \<le> lba \<and> before_some extents lba \<and> \<not> covered extents lba)
    \<and> (\<forall>lba. unat cursor' \<le> lba \<longleftrightarrow>
         unat cursor \<le> lba \<and> \<not> before_some extents lba \<and> \<not> covered extents lba)
    \<and> sorted_wrt apart new
    \<and> (\<forall>g \<in> set new. gap_ok ss g \<and> unat cursor \<le> unat (gap_lba_start g)
         \<and> unat (gap_lba_end g) < unat cursor'
         \<and> unat (gap_lba_end g) + 1 \<in> (\<lambda>x. unat (fst x)) ` set extents
         \<and> gap_class g = (if gap_lba_start g = first then PrePartition else Between))"
  using assms
proof (induction extents arbitrary: cursor gaps)
  case Nil
  then show ?case by (auto simp: before_some_def covered_def)
next
  case (Cons x extents)
  obtain s e where x: "x = (s, e)" by force
  with Cons.prems have later: "\<forall>(s', e') \<in> set extents. unat s \<le> unat s'"
    and se: "unat s \<le> unat e + 1" "unat e + 1 < 2 ^ 64" "unat s * unat ss < 2 ^ 64"
    and rest: "extents_ok ss extents"
    by (auto simp: extents_ok_Cons word_le_nat_alt)
  obtain c g0 where step: "gap_sweep first ss (x # extents) cursor gaps =
        gap_sweep first ss extents c (gaps @ g0)"
    and c: "unat c = max (unat cursor) (unat e + 1)" and g0: "length g0 \<le> 1"
      "\<forall>g \<in> set g0. gap_ok ss g \<and> gap_lba_start g = cursor \<and> unat (gap_lba_end g) + 1 = unat s
         \<and> gap_class g = (if gap_lba_start g = first then PrePartition else Between)"
    and g0': "g0 = [] \<longleftrightarrow> unat s \<le> unat cursor"
    using gap_step [OF se] x by blast
  obtain c' new where IH: "gap_sweep first ss extents c (gaps @ g0) = Some (c', (gaps @ g0) @ new)"
    and new: "\<And>lba. (\<exists>g \<in> set new. in_gap lba g) \<longleftrightarrow>
       unat c \<le> lba \<and> before_some extents lba \<and> \<not> covered extents lba"
    and c': "\<And>lba. unat c' \<le> lba \<longleftrightarrow>
       unat c \<le> lba \<and> \<not> before_some extents lba \<and> \<not> covered extents lba"
    and ap: "sorted_wrt apart new"
    and ok: "\<forall>g \<in> set new. gap_ok ss g \<and> unat c \<le> unat (gap_lba_start g)
       \<and> unat (gap_lba_end g) < unat c'
       \<and> unat (gap_lba_end g) + 1 \<in> (\<lambda>x. unat (fst x)) ` set extents
       \<and> gap_class g = (if gap_lba_start g = first then PrePartition else Between)"
    using Cons.IH [OF rest, of c "gaps @ g0"] by blast
  have bs: "before_some (x # extents) lba \<longleftrightarrow> lba < unat s \<or> before_some extents lba" for lba
    using x by (auto simp: before_some_def)
  have cov: "covered (x # extents) lba \<longleftrightarrow> unat s \<le> lba \<and> lba \<le> unat e \<or> covered extents lba" for lba
    using x by (auto simp: covered_def)
  have early: "\<not> covered extents lba" if "lba < unat s" for lba
    using later that by (fastforce simp: covered_def)
  have in_g0: "(\<exists>g \<in> set g0. in_gap lba g) \<longleftrightarrow> unat cursor \<le> lba \<and> lba < unat s" for lba
  proof (cases g0)
    case (Cons g gs)
    with g0 have "g0 = [g]" by simp
    with g0(2) show ?thesis by (auto simp: in_gap_def)
  qed (use g0' in simp)
  have "unat c \<le> unat c'" using c' [of "unat c'"] by simp
  show ?case
  proof (intro exI conjI allI)
    show "gap_sweep first ss (x # extents) cursor gaps = Some (c', gaps @ (g0 @ new))"
      using step IH by simp
    show "(\<exists>g \<in> set (g0 @ new). in_gap lba g) \<longleftrightarrow>
        unat cursor \<le> lba \<and> before_some (x # extents) lba \<and> \<not> covered (x # extents) lba" for lba
      using in_g0 [of lba] new [of lba] early [of lba] c se(1) unfolding bs cov by auto
    show "unat c' \<le> lba \<longleftrightarrow>
        unat cursor \<le> lba \<and> \<not> before_some (x # extents) lba \<and> \<not> covered (x # extents) lba" for lba
      using c' [of lba] c se(1) unfolding bs cov by auto
    show "sorted_wrt apart (g0 @ new)"
      using ap g0 ok c se(1) by (cases g0) (fastforce simp: apart_def word_less_nat_alt)+
    show "\<forall>g \<in> set (g0 @ new). gap_ok ss g \<and> unat cursor \<le> unat (gap_lba_start g)
        \<and> unat (gap_lba_end g) < unat c'
        \<and> unat (gap_lba_end g) + 1 \<in> (\<lambda>y. unat (fst y)) ` set (x # extents)
        \<and> gap_class g = (if gap_lba_start g = first then PrePartition else Between)"
      using g0(2) ok c se(1) \<open>unat c \<le> unat c'\<close> x by fastforce
  qed
qed

text \<open>The whole computation, with the shape of its result.\<close>

lemma compute_gaps_spec:
  assumes ext: "extents_ok ss extents"
    and disk: "(unat disk_last + 1) * unat ss < 2 ^ 64" and first: "0 < unat first"
  shows "\<exists>gaps. compute_gaps extents first disk_last ss = Some gaps
    \<and> (\<forall>lba. (\<exists>g \<in> set gaps. in_gap lba g) \<longleftrightarrow>
         unat first \<le> lba \<and> \<not> covered extents lba \<and> (lba \<le> unat disk_last \<or> before_some extents lba))
    \<and> sorted_wrt apart gaps
    \<and> (\<forall>g \<in> set gaps. gap_ok ss g \<and> unat first \<le> unat (gap_lba_start g)
         \<and> (unat (gap_lba_end g) + 1 \<in> (\<lambda>x. unat (fst x)) ` set extents
            \<or> (\<forall>h \<in> set gaps. gap_lba_end h \<le> gap_lba_end g))
         \<and> (gap_class g = PrePartition \<longrightarrow> gap_lba_start g = first)
         \<and> (gap_class g = PostPartition \<longrightarrow> gap_lba_end g = disk_last))"
proof -
  obtain c new where sw: "gap_sweep first ss extents first [] = Some (c, new)"
    and new: "\<And>lba. (\<exists>g \<in> set new. in_gap lba g) \<longleftrightarrow>
       unat first \<le> lba \<and> before_some extents lba \<and> \<not> covered extents lba"
    and c: "\<And>lba. unat c \<le> lba \<longleftrightarrow>
       unat first \<le> lba \<and> \<not> before_some extents lba \<and> \<not> covered extents lba"
    and ap: "sorted_wrt apart new"
    and ok: "\<forall>g \<in> set new. gap_ok ss g \<and> unat first \<le> unat (gap_lba_start g)
       \<and> unat (gap_lba_end g) < unat c
       \<and> unat (gap_lba_end g) + 1 \<in> (\<lambda>x. unat (fst x)) ` set extents
       \<and> gap_class g = (if gap_lba_start g = first then PrePartition else Between)"
    using gap_sweep_spec [OF ext, of first first "[]"] by auto
  have fc: "unat first \<le> unat c" using c [of "unat c"] by simp
  show ?thesis
  proof (cases "c \<le> disk_last")
    case False
    then have "\<not> unat c \<le> unat disk_last" by (simp add: word_le_nat_alt)
    then have "before_some extents lba \<or> covered extents lba"
      if "lba \<le> unat disk_last" "unat first \<le> lba" for lba
      using c [of lba] that by auto
    with False sw new ap ok show ?thesis
      by (auto simp: compute_gaps_def)
  next
    case True
    then have le: "unat c \<le> unat disk_last" by (simp add: word_le_nat_alt)
    have "(unat disk_last - unat c + 1) * unat ss \<le> (unat disk_last + 1) * unat ss"
      by (intro mult_right_mono) auto
    then have "(unat disk_last - unat c + 1) * unat ss < 2 ^ 64" using disk by linarith
    then obtain g where g: "push_gap new c disk_last ss PostPartition = Some (new @ [g])"
      "gap_ok ss g" "gap_lba_start g = c" "gap_lba_end g = disk_last" "gap_class g = PostPartition"
      using push_gap_eq [OF le, of ss new PostPartition] first fc by auto
    show ?thesis
    proof (intro exI conjI allI)
      show "compute_gaps extents first disk_last ss = Some (new @ [g])"
        using sw True g(1) by (simp add: compute_gaps_def)
      show "(\<exists>h \<in> set (new @ [g]). in_gap lba h) \<longleftrightarrow>
         unat first \<le> lba \<and> \<not> covered extents lba
         \<and> (lba \<le> unat disk_last \<or> before_some extents lba)" for lba
        using new [of lba] c [of lba] g(3,4) by (auto simp: in_gap_def)
      show "sorted_wrt apart (new @ [g])"
        using ap ok g(3) by (auto simp: sorted_wrt_append apart_def word_less_nat_alt)
      show "\<forall>h \<in> set (new @ [g]). gap_ok ss h \<and> unat first \<le> unat (gap_lba_start h)
         \<and> (unat (gap_lba_end h) + 1 \<in> (\<lambda>x. unat (fst x)) ` set extents
            \<or> (\<forall>k \<in> set (new @ [g]). gap_lba_end k \<le> gap_lba_end h))
         \<and> (gap_class h = PrePartition \<longrightarrow> gap_lba_start h = first)
         \<and> (gap_class h = PostPartition \<longrightarrow> gap_lba_end h = disk_last)"
        using ok g fc le by (auto simp: word_le_nat_alt)
    qed
  qed
qed

text \<open>
  Maximality.  A swept gap is followed by the first sector of an extent, which no gap contains when
  the extent is not empty; the trailing gap is followed by nothing.
\<close>

lemma gaps_separated:
  assumes gaps: "\<And>lba. (\<exists>g \<in> set gaps. in_gap lba g) \<Longrightarrow> \<not> covered extents lba"
    and stop: "\<forall>g \<in> set gaps. gap_ok ss g \<and> (unat (gap_lba_end g) + 1 \<in> (\<lambda>x. unat (fst x)) ` set extents
            \<or> (\<forall>h \<in> set gaps. gap_lba_end h \<le> gap_lba_end g))"
    and ap: "sorted_wrt apart gaps" and wf: "\<forall>(s, e) \<in> set extents. s \<le> e"
  shows "sorted_wrt separated gaps"
proof (rule sorted_wrt_mono_rel [OF _ ap])
  fix g h assume g: "g \<in> set gaps" and h: "h \<in> set gaps" and "apart g h"
  then have lt: "unat (gap_lba_end g) < unat (gap_lba_start h)"
    by (simp add: apart_def word_less_nat_alt)
  have hh: "unat (gap_lba_start h) \<le> unat (gap_lba_end h)"
    using stop h by (auto simp: gap_ok_def word_le_nat_alt)
  with lt have "\<not> gap_lba_end h \<le> gap_lba_end g" by (simp add: word_le_nat_alt)
  with stop g h obtain s e where x: "(s, e) \<in> set extents" "unat s = unat (gap_lba_end g) + 1"
    by fastforce
  with wf have "covered extents (unat s)" by (force simp: covered_def word_le_nat_alt)
  with gaps [of "unat s"] h have "\<not> in_gap (unat s) h" by blast
  with lt hh x(2) show "separated g h" by (auto simp: in_gap_def separated_def)
qed

lemma compute_gaps_exact:
  assumes "extents_ok sector_size extents"
    and "(unat disk_last_lba + 1) * unat sector_size < 2 ^ 64" and "0 < unat first_usable"
  shows "\<exists>gaps. compute_gaps extents first_usable disk_last_lba sector_size = Some gaps
    \<and> (\<forall>lba. (\<exists>g \<in> set gaps. in_gap lba g) \<longleftrightarrow>
         unat first_usable \<le> lba \<and> \<not> covered extents lba
         \<and> (lba \<le> unat disk_last_lba \<or> before_some extents lba))
    \<and> sorted_wrt apart gaps
    \<and> (\<forall>g \<in> set gaps. gap_ok sector_size g
         \<and> (gap_class g = PrePartition \<longrightarrow> gap_lba_start g = first_usable)
         \<and> (gap_class g = PostPartition \<longrightarrow> gap_lba_end g = disk_last_lba))
    \<and> ((\<forall>(s, e) \<in> set extents. s \<le> e) \<longrightarrow> sorted_wrt separated gaps)"
proof -
  obtain gaps where gaps: "compute_gaps extents first_usable disk_last_lba sector_size = Some gaps"
    and iff: "\<forall>lba. (\<exists>g \<in> set gaps. in_gap lba g) \<longleftrightarrow>
         unat first_usable \<le> lba \<and> \<not> covered extents lba
         \<and> (lba \<le> unat disk_last_lba \<or> before_some extents lba)"
    and ap: "sorted_wrt apart gaps"
    and each: "\<forall>g \<in> set gaps. gap_ok sector_size g \<and> unat first_usable \<le> unat (gap_lba_start g)
         \<and> (unat (gap_lba_end g) + 1 \<in> (\<lambda>x. unat (fst x)) ` set extents
            \<or> (\<forall>h \<in> set gaps. gap_lba_end h \<le> gap_lba_end g))
         \<and> (gap_class g = PrePartition \<longrightarrow> gap_lba_start g = first_usable)
         \<and> (gap_class g = PostPartition \<longrightarrow> gap_lba_end g = disk_last_lba)"
    using compute_gaps_spec [OF assms] by blast
  have sep: "sorted_wrt separated gaps" if "\<forall>(s, e) \<in> set extents. s \<le> e"
  proof (rule gaps_separated [OF _ _ ap that])
    show "\<not> covered extents lba" if "\<exists>g \<in> set gaps. in_gap lba g" for lba using iff that by blast
    show "\<forall>g \<in> set gaps. gap_ok sector_size g
        \<and> (unat (gap_lba_end g) + 1 \<in> (\<lambda>x. unat (fst x)) ` set extents
            \<or> (\<forall>h \<in> set gaps. gap_lba_end h \<le> gap_lba_end g))"
      using each by simp
  qed
  have "\<forall>g \<in> set gaps. gap_ok sector_size g
         \<and> (gap_class g = PrePartition \<longrightarrow> gap_lba_start g = first_usable)
         \<and> (gap_class g = PostPartition \<longrightarrow> gap_lba_end g = disk_last_lba)"
    using each by simp
  with gaps iff ap sep show ?thesis by (intro exI [of _ gaps]) simp
qed

subsection \<open>Properties\<close>

text \<open>
  C39 (refinement): the sweep computes the complement of the partition extents.  For sorted
  extents with arithmetic head room it never panics; a sector from the first usable one on lies
  in a reported gap exactly when no extent covers it and it is on the disk or in front of some
  extent; the gaps are disjoint, ascending, non-empty, and carry their exact byte size; the
  trailing gap ends at the disk's last sector.  When no extent is empty the gaps are maximal: a
  covered sector lies between any two of them.
\<close>
theorem compute_gaps_complement:
  assumes "extents_ok sector_size extents"
    and "(unat disk_last_lba + 1) * unat sector_size < 2 ^ 64" and "0 < unat first_usable"
  shows "\<exists>gaps. compute_gaps extents first_usable disk_last_lba sector_size = Some gaps
    \<and> (\<forall>lba. (\<exists>g \<in> set gaps. in_gap lba g) \<longleftrightarrow>
         unat first_usable \<le> lba \<and> \<not> covered extents lba
         \<and> (lba \<le> unat disk_last_lba \<or> before_some extents lba))
    \<and> sorted_wrt apart gaps
    \<and> (\<forall>g \<in> set gaps. gap_ok sector_size g
         \<and> (gap_class g = PrePartition \<longrightarrow> gap_lba_start g = first_usable)
         \<and> (gap_class g = PostPartition \<longrightarrow> gap_lba_end g = disk_last_lba))
    \<and> ((\<forall>(s, e) \<in> set extents. s \<le> e) \<longrightarrow> sorted_wrt separated gaps)"
  using assms by (rule compute_gaps_exact)

theorem compute_gaps_complement_witness:
  "extents_ok 512 [(4, 7), (10, 19)]
   \<and> (unat (29 :: u64) + 1) * unat (512 :: u64) < 2 ^ 64 \<and> 0 < unat (1 :: u64)
   \<and> (\<exists>gaps. compute_gaps [(4, 7), (10, 19)] 1 29 512 = Some gaps
        \<and> (\<exists>g \<in> set gaps. in_gap 9 g) \<and> \<not> (\<exists>g \<in> set gaps. in_gap 10 g)
        \<and> sorted_wrt separated gaps)"
proof -
  have ok: "extents_ok 512 [(4, 7), (10, 19)]" by (simp add: extents_ok_def)
  have disk: "(unat (29 :: u64) + 1) * unat (512 :: u64) < 2 ^ 64" and one: "0 < unat (1 :: u64)"
    by simp_all
  from compute_gaps_complement [OF ok disk one]
  obtain gaps where gaps: "compute_gaps [(4, 7), (10, 19)] 1 29 512 = Some gaps"
    and iff: "\<And>lba. (\<exists>g \<in> set gaps. in_gap lba g) \<longleftrightarrow>
      unat (1 :: u64) \<le> lba \<and> \<not> covered [(4, 7), (10, 19)] lba
      \<and> (lba \<le> unat (29 :: u64) \<or> before_some [(4, 7), (10, 19)] lba)"
    and "(\<forall>(s, e) \<in> set [(4, 7 :: u64), (10, 19)]. s \<le> e) \<longrightarrow> sorted_wrt separated gaps" by blast
  then have "sorted_wrt separated gaps" by simp
  have "(\<exists>g \<in> set gaps. in_gap 9 g)" "\<not> (\<exists>g \<in> set gaps. in_gap 10 g)"
    unfolding iff by (simp_all add: covered_def)
  with ok disk one gaps \<open>sorted_wrt separated gaps\<close> show ?thesis by blast
qed

text \<open>
  Further fact (safety): an empty extent splits a gap.  With one zero-length entry at sector 100 the
  free sectors 1 to 199 are reported as two gaps with nothing in between.
\<close>
theorem gap_split_by_empty_extent:
  "compute_gaps [(100, 99)] 1 199 512 =
     Some [\<lparr>gap_lba_start = 1, gap_lba_end = 99, gap_byte_size = 50688, gap_class = PrePartition\<rparr>,
           \<lparr>gap_lba_start = 100, gap_lba_end = 199, gap_byte_size = 51200, gap_class = PostPartition\<rparr>]"
  by (simp add: compute_gaps_def push_gap_def checked_sub_def checked_add_def checked_mul_def)

text \<open>
  Further fact (error): outside that head room the arithmetic panics: an extent that ends at
  \<open>u64::MAX\<close> makes the advance of the cursor overflow.
\<close>
theorem compute_gaps_overflow: "compute_gaps [(1, - 1)] 1 disk_last_lba sector_size = None"
proof -
  have "checked_add (- 1) (1 :: u64) = None" unfolding checked_add_None_iff unat_max_word by simp
  then show ?thesis by (simp add: compute_gaps_def)
qed

text \<open>
  Further fact (safety): a gap may lie beyond the end of the disk.  With 50 sectors and one partition
  that starts at sector 100, the reported gap spans sectors 1 to 99.
\<close>
theorem gap_beyond_disk:
  "compute_gaps [(100, 109)] 1 49 512 =
     Some [\<lparr>gap_lba_start = 1, gap_lba_end = 99, gap_byte_size = 50688,
            gap_class = PrePartition\<rparr>]"
  by (simp add: compute_gaps_def push_gap_def checked_sub_def checked_add_def checked_mul_def)

end
