(* ===== verification/BootCode.thy ===== *)
theory BootCode
  imports Prelude
begin

text \<open>
  Boot code identification (\<open>core/src/boot_code.rs\<close>).  The loader signatures live in the
  \<open>forensicnomicon\<close> knowledge base: its \<open>identify_loader\<close> is a parameter.
\<close>

datatype boot_code_id =
    WindowsVista | Windows7Plus | GrubLegacy | Grub2 | Syslinux
  | BcAllZeros | BcAllOnes | BcUnknown

definition identify :: "(u8 list \<Rightarrow> string option) \<Rightarrow> u8 list \<Rightarrow> boot_code_id" where
  "identify identify_loader code =
     (if list_all (\<lambda>b. b = 0x00) code then BcAllZeros
      else if list_all (\<lambda>b. b = 0xFF) code then BcAllOnes
      else case identify_loader code of
        Some name \<Rightarrow>
          if name = ''Windows 7+'' then Windows7Plus
          else if name = ''Windows Vista'' then WindowsVista
          else if name = ''Syslinux'' then Syslinux
          else if name = ''GRUB Legacy'' then GrubLegacy
          else if name = ''GRUB 2'' then Grub2
          else BcUnknown
      | None \<Rightarrow> BcUnknown)"

subsection \<open>Lemmas\<close>

lemma not_all_zeros_and_ones:
  "code \<noteq> [] \<Longrightarrow> \<not> (list_all (\<lambda>b. b = 0) code \<and> list_all (\<lambda>b. b = (0xFF :: u8)) code)"
  by (cases code) auto

lemma identify_AllZeros_iff: "identify il code = BcAllZeros \<longleftrightarrow> (\<forall>b \<in> set code. b = 0)"
  by (auto simp: identify_def list_all_iff split: option.splits)

lemma identify_AllOnes_iff:
  "code \<noteq> [] \<Longrightarrow> identify il code = BcAllOnes \<longleftrightarrow> (\<forall>b \<in> set code. b = 0xFF)"
  by (cases code) (auto simp: identify_def list_all_iff split: option.splits)

subsection \<open>Properties\<close>

text \<open>
  Further fact (functional): a fill is recognised before the knowledge base is asked: whatever the
  knowledge base answers, code of length 446 is \<open>AllZeros\<close> exactly when every byte is zero and
  \<open>AllOnes\<close> exactly when every byte is \<open>0xFF\<close>, and any loader identity is the one that the
  knowledge base names for code that is neither.
\<close>
theorem identify_fills_first:
  assumes "length code = 446"
  shows "(identify il code = BcAllZeros \<longleftrightarrow> code = replicate 446 0)
    \<and> (identify il code = BcAllOnes \<longleftrightarrow> code = replicate 446 0xFF)
    \<and> (\<forall>id name. (id, name) \<in> {(Windows7Plus, ''Windows 7+''), (WindowsVista, ''Windows Vista''),
          (Syslinux, ''Syslinux''), (GrubLegacy, ''GRUB Legacy''), (Grub2, ''GRUB 2'')} \<longrightarrow>
        (identify il code = id \<longleftrightarrow> il code = Some name \<and> code \<noteq> replicate 446 0
           \<and> code \<noteq> replicate 446 0xFF))"
proof -
  have uni: "code = replicate 446 b \<longleftrightarrow> list_all (\<lambda>x. x = b) code" for b
    using assms by (auto simp: list_all_iff replicate_eqI)
  have "code \<noteq> []" using assms by auto
  then show ?thesis
    unfolding uni using not_all_zeros_and_ones [of code]
    by (auto simp: identify_def split: option.splits if_splits)
qed

theorem identify_fills_first_witness:
  "length (replicate 446 0xFF :: u8 list) = 446
   \<and> identify (\<lambda>_. None) (replicate 446 0xFF) = BcAllOnes"
  using identify_fills_first [of "replicate 446 0xFF" "\<lambda>_. None"] by simp

end
