(* ===== verification/Provenance.thy ===== *)
theory Provenance
  imports BootCode
begin

text \<open>
  Attribution of the partitioning tool's era (\<open>forensic/src/provenance.rs\<close>).
\<close>

datatype alignment = Mib1 | LegacyTrack | Unaligned

datatype partitioning_era = Modern | LegacyCylinder | EraUnknown

definition classify_alignment :: "u64 \<Rightarrow> alignment" where
  "classify_alignment lba_start =
     (if lba_start \<noteq> 0 \<and> lba_start mod 2048 = 0 then Mib1
      else if lba_start = 63 then LegacyTrack
      else Unaligned)"

definition era_from_boot_code :: "boot_code_id \<Rightarrow> partitioning_era" where
  "era_from_boot_code boot =
     (case boot of
        WindowsVista \<Rightarrow> Modern
      | Windows7Plus \<Rightarrow> Modern
      | Grub2 \<Rightarrow> Modern
      | GrubLegacy \<Rightarrow> LegacyCylinder
      | _ \<Rightarrow> EraUnknown)"

definition infer_era :: "u64 option \<Rightarrow> boot_code_id \<Rightarrow> partitioning_era" where
  "infer_era first_partition_lba boot =
     (case map_option classify_alignment first_partition_lba of
        Some Mib1 \<Rightarrow> Modern
      | Some LegacyTrack \<Rightarrow> LegacyCylinder
      | _ \<Rightarrow> era_from_boot_code boot)"

lemma unat_mod_2048: "(w :: u64) mod 2048 = 0 \<longleftrightarrow> 2048 dvd unat w"
proof -
  have "unat (w mod 2048) = unat w mod 2048" by (simp add: unat_mod)
  then show ?thesis by (metis dvd_eq_mod_eq_0 unat_0 unat_inject)
qed

text \<open>
  Further fact (functional): geometry decides before the boot code does.  A start on a positive multiple
  of 2048 sectors is modern and a start at sector 63 is legacy whatever the boot code; with any
  other start, or none, the era is that of the recognised loader.
\<close>
theorem infer_era_geometry_first:
  "infer_era first boot =
     (if \<exists>k > 0. map_option unat first = Some (2048 * k) then Modern
      else if map_option unat first = Some 63 then LegacyCylinder
      else if boot \<in> {WindowsVista, Windows7Plus, Grub2} then Modern
      else if boot = GrubLegacy then LegacyCylinder
      else EraUnknown)"
proof -
  have eb: "era_from_boot_code boot = (if boot \<in> {WindowsVista, Windows7Plus, Grub2} then Modern
      else if boot = GrubLegacy then LegacyCylinder else EraUnknown)"
    by (simp add: era_from_boot_code_def split: boot_code_id.splits)
  show ?thesis
  proof (cases first)
    case None
    then show ?thesis by (simp add: infer_era_def eb)
  next
    case (Some l)
    have "(\<exists>k > 0. unat l = 2048 * k) \<longleftrightarrow> l \<noteq> 0 \<and> l mod 2048 = 0"
      unfolding unat_mod_2048 dvd_def using unat_eq_zero [of l] by (metis mult_0_right neq0_conv mult_is_0 zero_neq_numeral)
    moreover have "unat l = 63 \<longleftrightarrow> l = 63" using unat_inject [of l 63] by simp
    ultimately show ?thesis
      using Some by (simp add: infer_era_def classify_alignment_def eb)
  qed
qed

end
