(* ===== verification/Partition.thy ===== *)
theory Partition
  imports Prelude
begin

text \<open>
  Partition table entries (\<open>core/src/partition.rs\<close>): packed CHS addresses and their
  translation to LBA, the CHS/LBA consistency check, the sixteen-byte entry and the
  classification of its type byte.
\<close>

subsection \<open>CHS addresses\<close>

record chs =
  cylinder :: u16
  head :: u8
  sector :: u8

definition chs_from_bytes :: "u8 list \<Rightarrow> chs" where
  "chs_from_bytes b =
     \<lparr>cylinder = push_bit 2 (ucast (b ! 1) AND 0xC0) OR ucast (b ! 2),
      head = b ! 0,
      sector = b ! 1 AND 0x3F\<rparr>"

definition chs_to_lba :: "chs \<Rightarrow> u8 \<Rightarrow> u8 \<Rightarrow> u32 option option" where
  "chs_to_lba c heads_per_cylinder sectors_per_track =
     (if sector c = 0 then Some None
      else let hpc = ucast heads_per_cylinder; spt = ucast sectors_per_track in
        if hpc = 0 \<or> spt = 0 then Some None
        else do {
          ch \<leftarrow> checked_mul (ucast (cylinder c)) hpc;
          chs \<leftarrow> checked_mul ch spt;
          hs \<leftarrow> checked_mul (ucast (head c)) spt;
          s \<leftarrow> checked_sub (ucast (sector c)) 1;
          t \<leftarrow> checked_add chs hs;
          lba \<leftarrow> checked_add t s;
          Some (Some lba)
        })"

definition is_unused :: "chs \<Rightarrow> bool" where
  "is_unused c \<longleftrightarrow> cylinder c = 0 \<and> head c = 0 \<and> sector c = 0"

definition STD_HEADS_PER_CYL :: u8 where
  "STD_HEADS_PER_CYL = 255"

definition STD_SECTORS_PER_TRACK :: u8 where
  "STD_SECTORS_PER_TRACK = 63"

definition CHS_MAX_CYLINDER :: u16 where
  "CHS_MAX_CYLINDER = 1023"

definition is_overflow_marker :: "chs \<Rightarrow> bool" where
  "is_overflow_marker c \<longleftrightarrow>
     cylinder c = CHS_MAX_CYLINDER \<and> sector c = STD_SECTORS_PER_TRACK
     \<and> (head c = 254 \<or> head c = 255)"

datatype chs_verdict = Consistent | Unused | Inconsistent

definition max_chs_addressable_lba :: "u8 \<Rightarrow> u8 \<Rightarrow> u64 option" where
  "max_chs_addressable_lba hpc spt = do {
     a \<leftarrow> checked_mul 1024 (ucast hpc);
     b \<leftarrow> checked_mul a (ucast spt);
     checked_sub b 1
   }"

definition chs_consistency :: "chs \<Rightarrow> u32 \<Rightarrow> u8 \<Rightarrow> u8 \<Rightarrow> chs_verdict option" where
  "chs_consistency c lba hpc spt =
     (if is_unused c then Some Unused
      else if is_overflow_marker c then Some Consistent
      else do {
        m \<leftarrow> max_chs_addressable_lba hpc spt;
        if m < ucast lba then Some Inconsistent
        else do {
          t \<leftarrow> chs_to_lba c hpc spt;
          Some (case t of
             Some translated \<Rightarrow> if translated = lba then Consistent else Inconsistent
           | None \<Rightarrow> Inconsistent)
        }
      })"

subsection \<open>Partition types\<close>

datatype type_code = TypeCode (type_byte: u8)

datatype partition_family =
    PfEmpty | PfFat12 | PfFat16 | PfFat32 | PfNtfs | PfExtendedMbr | PfLinuxSwap | PfLinux | PfLinuxLvm
  | PfLinuxRaid | PfWindowsRecovery | PfWindowsDynamic | PfFreeBsd | PfOpenBsd | PfNetBsd | PfHfs
  | PfGptProtective | PfEfiSystem | PfVmware | PfUnknown u8

text \<open>
  The type names come from the \<open>forensicnomicon\<close> knowledge base, which is the parameter
  \<open>type_name\<close>.
\<close>

definition type_code_name :: "(u8 \<Rightarrow> string option) \<Rightarrow> type_code \<Rightarrow> string" where
  "type_code_name type_name c = (case type_name (type_byte c) of Some s \<Rightarrow> s | None \<Rightarrow> ''Unknown'')"

definition family :: "type_code \<Rightarrow> partition_family" where
  "family c = (let b = type_byte c in
     if b = 0x00 then PfEmpty
     else if b = 0x01 \<or> b = 0x11 then PfFat12
     else if b = 0x04 \<or> b = 0x06 \<or> b = 0x0E \<or> b = 0x14 \<or> b = 0x16 \<or> b = 0x1E then PfFat16
     else if b = 0x0B \<or> b = 0x0C \<or> b = 0x1B \<or> b = 0x1C then PfFat32
     else if b = 0x07 \<or> b = 0x17 \<or> b = 0x87 then PfNtfs
     else if b = 0x05 \<or> b = 0x0F \<or> b = 0x85 then PfExtendedMbr
     else if b = 0x82 then PfLinuxSwap
     else if b = 0x83 then PfLinux
     else if b = 0x8E then PfLinuxLvm
     else if b = 0xFD then PfLinuxRaid
     else if b = 0x27 then PfWindowsRecovery
     else if b = 0x42 then PfWindowsDynamic
     else if b = 0xA5 then PfFreeBsd
     else if b = 0xA6 then PfOpenBsd
     else if b = 0xA9 then PfNetBsd
     else if b = 0xAF \<or> b = 0xAB then PfHfs
     else if b = 0xEE then PfGptProtective
     else if b = 0xEF then PfEfiSystem
     else if b = 0xFB \<or> b = 0xFC then PfVmware
     else PfUnknown b)"

definition type_is_empty :: "type_code \<Rightarrow> bool" where
  "type_is_empty c \<longleftrightarrow> type_byte c = 0x00"

definition type_is_extended :: "type_code \<Rightarrow> bool" where
  "type_is_extended c \<longleftrightarrow> type_byte c = 0x05 \<or> type_byte c = 0x0F \<or> type_byte c = 0x85"

subsection \<open>Partition entries\<close>

record partition_entry =
  status :: u8
  chs_first :: chs
  type_code :: type_code
  chs_last :: chs
  lba_start :: u32
  lba_count :: u32

definition entry_from_bytes :: "u8 list \<Rightarrow> partition_entry" where
  "entry_from_bytes b =
     \<lparr>status = b ! 0,
      chs_first = chs_from_bytes [b ! 1, b ! 2, b ! 3],
      type_code = TypeCode (b ! 4),
      chs_last = chs_from_bytes [b ! 5, b ! 6, b ! 7],
      lba_start = from_le_bytes [b ! 8, b ! 9, b ! 10, b ! 11],
      lba_count = from_le_bytes [b ! 12, b ! 13, b ! 14, b ! 15]\<rparr>"

definition is_empty :: "partition_entry \<Rightarrow> bool" where
  "is_empty e \<longleftrightarrow> type_is_empty (type_code e) \<and> lba_start e = 0 \<and> lba_count e = 0"

definition is_bootable :: "partition_entry \<Rightarrow> bool" where
  "is_bootable e \<longleftrightarrow> status e = 0x80"

definition lba_end :: "partition_entry \<Rightarrow> u32" where
  "lba_end e = saturating_sub (saturating_add (lba_start e) (lba_count e)) 1"

definition is_extended :: "partition_entry \<Rightarrow> bool" where
  "is_extended e = type_is_extended (type_code e)"

subsection \<open>Reference notions\<close>

text \<open>
  The inverse of the decoders and the textbook CHS geometry, against which the
  operations are verified.  They are specifications and model no code.
\<close>

definition chs_wf :: "chs \<Rightarrow> bool" where
  "chs_wf c \<longleftrightarrow> unat (cylinder c) < 1024 \<and> unat (sector c) < 64"

definition chs_to_bytes :: "chs \<Rightarrow> u8 list" where
  "chs_to_bytes c =
     [head c,
      of_nat ((unat (cylinder c) div 256 mod 4) * 64 + unat (sector c) mod 64),
      of_nat (unat (cylinder c) mod 256)]"

definition entry_wf :: "partition_entry \<Rightarrow> bool" where
  "entry_wf e \<longleftrightarrow> chs_wf (chs_first e) \<and> chs_wf (chs_last e)"

definition entry_to_bytes :: "partition_entry \<Rightarrow> u8 list" where
  "entry_to_bytes e =
     [status e] @ chs_to_bytes (chs_first e) @ [type_byte (type_code e)]
     @ chs_to_bytes (chs_last e) @ to_le_bytes 4 (lba_start e) @ to_le_bytes 4 (lba_count e)"

definition chs_lba :: "chs \<Rightarrow> nat \<Rightarrow> nat \<Rightarrow> nat" where
  "chs_lba c hpc spt = (unat (cylinder c) * hpc + unat (head c)) * spt + (unat (sector c) - 1)"

definition canonical_chs :: "nat \<Rightarrow> nat \<Rightarrow> nat \<Rightarrow> chs" where
  "canonical_chs lba hpc spt =
     (if lba < 1024 * hpc * spt
      then \<lparr>cylinder = of_nat (lba div (hpc * spt)), head = of_nat (lba div spt mod hpc),
            sector = of_nat (lba mod spt + 1)\<rparr>
      else \<lparr>cylinder = 1023, head = 254, sector = 63\<rparr>)"

subsection \<open>Bytes and CHS\<close>

lemma unat_low_six: "unat (b AND 0x3F :: u8) = unat b mod 64"
proof -
  have "b AND 0x3F = take_bit 6 b"
    by (simp add: take_bit_eq_mask mask_eq_exp_minus_1)
  then show ?thesis
    by (simp only: unsigned_take_bit_eq) (simp add: take_bit_eq_mod)
qed

lemma high_two_bits: "push_bit 2 (ucast b AND 0xC0) = (push_bit 8 (ucast (drop_bit 6 b)) :: u16)"
  for b :: u8
proof -
  have C0: "0xC0 = (push_bit 6 (mask 2) :: u16)"
    by (simp add: mask_eq_exp_minus_1)
  show ?thesis
    unfolding C0 by (intro bit_word_eqI) (auto simp: bit_simps dest: bit_imp_le_length)
qed

lemma unat_packed_cylinder:
  "unat (push_bit 2 (ucast b AND 0xC0) OR ucast c :: u16) = unat b div 64 * 256 + unat c"
  for b c :: u8
proof -
  let ?x = "drop_bit 6 b"
  have x: "unat ?x = unat b div 64"
    by (simp add: drop_bit_eq_div unat_div)
  have "(push_bit 8 (ucast ?x) :: u16) AND ucast c = 0"
    by (intro bit_word_eqI) (auto simp: bit_simps dest: bit_imp_le_length)
  then have "(push_bit 8 (ucast ?x) :: u16) OR ucast c = push_bit 8 (ucast ?x) + ucast c"
    by (rule disjunctive_add_eq_or [symmetric])
  moreover have "unat (push_bit 8 (ucast ?x) + ucast c :: u16) = unat ?x * 256 + unat c"
    using unat_u8_less [of b] unat_u8_less [of c] x
    by (simp add: push_bit_eq_mult unat_word_ariths)
  ultimately show ?thesis
    by (simp only: high_two_bits x)
qed

lemma second_of_three: "[a, b, c] ! 1 = b"
  by simp

lemma third_of_three: "[a, b, c] ! 2 = c"
  by simp

text \<open>Quotient and remainder of a packed byte; the proofs below split by them.\<close>

lemma packed_div: "c < 256 \<Longrightarrow> (q * 256 + c) div 256 = (q :: nat)"
  by simp

lemma packed_mod: "c < 256 \<Longrightarrow> (q * 256 + c) mod 256 = (c :: nat)"
  by simp

lemma chs_from_bytes_fields:
  "unat (cylinder (chs_from_bytes [b0, b1, b2])) = unat b1 div 64 * 256 + unat b2"
  "head (chs_from_bytes [b0, b1, b2]) = b0"
  "unat (sector (chs_from_bytes [b0, b1, b2])) = unat b1 mod 64"
  by (simp_all only: chs_from_bytes_def chs.select_convs nth_Cons_0 unat_packed_cylinder
        unat_low_six second_of_three third_of_three)

lemma chs_from_bytes_wf [simp]: "chs_wf (chs_from_bytes [b0, b1, b2])"
proof -
  have "unat b1 div 64 \<le> 3" using unat_u8_less [of b1] by linarith
  then have "unat b1 div 64 * 256 + unat b2 < 1024" using unat_u8_less [of b2] by linarith
  then show ?thesis by (simp add: chs_wf_def chs_from_bytes_fields)
qed

lemma chs_to_bytes_from_bytes [simp]: "chs_to_bytes (chs_from_bytes [b0, b1, b2]) = [b0, b1, b2]"
proof -
  have "unat b1 div 64 < 4" using unat_u8_less [of b1] by linarith
  then have 1: "(unat b1 div 64 * 256 + unat b2) div 256 mod 4 * 64 + unat b1 mod 64 mod 64 = unat b1"
    by (simp add: packed_div unat_u8_less)
  have 2: "(unat b1 div 64 * 256 + unat b2) mod 256 = unat b2"
    by (simp add: packed_mod unat_u8_less)
  show ?thesis
    unfolding chs_to_bytes_def chs_from_bytes_fields 1 2 by (simp add: of_nat_unat)
qed

lemma chs_eqI:
  fixes c d :: chs
  assumes "unat (cylinder c) = unat (cylinder d)" and "head c = head d"
    and "unat (sector c) = unat (sector d)"
  shows "c = d"
  using assms by (cases c; cases d) (simp add: unat_inject)

lemma chs_from_bytes_to_bytes: "chs_from_bytes (chs_to_bytes c) = c \<longleftrightarrow> chs_wf c"
proof
  assume "chs_from_bytes (chs_to_bytes c) = c"
  then show "chs_wf c"
    by (metis chs_from_bytes_wf chs_to_bytes_def)
next
  assume wf: "chs_wf c"
  let ?n = "unat (cylinder c) div 256 mod 4 * 64 + unat (sector c) mod 64"
  have q: "unat (cylinder c) div 256 mod 4 = unat (cylinder c) div 256"
    using wf unfolding chs_wf_def by (intro mod_less) linarith
  have r: "unat (sector c) mod 64 = unat (sector c)"
    using wf unfolding chs_wf_def by simp
  have "unat (cylinder c) div 256 \<le> 3" "unat (sector c) \<le> 63"
    using wf unfolding chs_wf_def by linarith+
  then have n: "?n < 256"
    unfolding q r by linarith
  have "?n div 64 = unat (cylinder c) div 256"
    unfolding q r using wf unfolding chs_wf_def by simp
  then have "?n div 64 * 256 + unat (cylinder c) mod 256 = unat (cylinder c)"
    by simp
  moreover have "?n mod 64 = unat (sector c)"
    unfolding q r using wf unfolding chs_wf_def by simp
  ultimately show "chs_from_bytes (chs_to_bytes c) = c"
    using unat_of_nat_small [of ?n, where 'a = 8] n
    by (intro chs_eqI) (simp_all only: chs_to_bytes_def chs_from_bytes_fields len_num1
        unat_of_nat_u8 len_bit0 len_bit1, simp_all)
qed

lemma chs_wf_roundtrip [simp]: "chs_wf c \<Longrightarrow> chs_from_bytes (chs_to_bytes c) = c"
  by (simp add: chs_from_bytes_to_bytes)

lemma length_chs_to_bytes [simp]: "length (chs_to_bytes c) = 3"
  by (simp add: chs_to_bytes_def)

subsection \<open>Entries\<close>

lemma list_of_length_16:
  "length b = 16 \<Longrightarrow>
     b = [b!0, b!1, b!2, b!3, b!4, b!5, b!6, b!7, b!8, b!9, b!10, b!11, b!12, b!13, b!14, b!15]"
  by (rule nth_equalityI) (auto simp: less_Suc_eq numeral_eq_Suc)

lemma length_entry_to_bytes [simp]: "length (entry_to_bytes e) = 16"
  by (simp add: entry_to_bytes_def)

lemma entry_from_bytes_wf [simp]: "entry_wf (entry_from_bytes b)"
  by (simp add: entry_wf_def entry_from_bytes_def)

lemma entry_to_bytes_from_bytes:
  assumes "length b = 16"
  shows "entry_to_bytes (entry_from_bytes b) = b"
proof -
  have "to_le_bytes 4 (from_le_bytes [x, y, z, w] :: u32) = [x, y, z, w]" for x y z w
    by (rule to_from_le_bytes) simp_all
  then have "entry_to_bytes (entry_from_bytes b) =
    [b!0, b!1, b!2, b!3, b!4, b!5, b!6, b!7, b!8, b!9, b!10, b!11, b!12, b!13, b!14, b!15]"
    by (simp add: entry_to_bytes_def entry_from_bytes_def)
  with list_of_length_16 [OF assms] show ?thesis by simp
qed

lemma length_eq_4: "length xs = 4 \<Longrightarrow> [xs ! 0, xs ! 1, xs ! 2, xs ! 3] = xs"
  by (rule nth_equalityI) (auto simp: less_Suc_eq numeral_eq_Suc)

lemma entry_from_bytes_to_bytes:
  assumes "entry_wf e"
  shows "entry_from_bytes (entry_to_bytes e) = e"
proof -
  obtain a b c where f: "chs_to_bytes (chs_first e) = [a, b, c]"
    by (simp add: chs_to_bytes_def)
  obtain a' b' c' where l: "chs_to_bytes (chs_last e) = [a', b', c']"
    by (simp add: chs_to_bytes_def)
  obtain s0 s1 s2 s3 where s: "to_le_bytes 4 (lba_start e) = [s0, s1, s2, s3]"
    using length_eq_4 [of "to_le_bytes 4 (lba_start e)"] by (metis length_to_le_bytes)
  obtain n0 n1 n2 n3 where n: "to_le_bytes 4 (lba_count e) = [n0, n1, n2, n3]"
    using length_eq_4 [of "to_le_bytes 4 (lba_count e)"] by (metis length_to_le_bytes)
  have "chs_from_bytes [a, b, c] = chs_first e" "chs_from_bytes [a', b', c'] = chs_last e"
    using assms by (simp_all add: entry_wf_def flip: f l)
  moreover have "from_le_bytes [s0, s1, s2, s3] = lba_start e"
    by (simp add: from_to_le_bytes flip: s)
  moreover have "from_le_bytes [n0, n1, n2, n3] = lba_count e"
    by (simp add: from_to_le_bytes flip: n)
  ultimately show ?thesis
    by (simp add: entry_from_bytes_def entry_to_bytes_def f l s n)
qed

subsection \<open>Translation and consistency\<close>

lemma chs_lba_bound: "chs_lba c (unat (h :: u8)) (unat (s :: u8)) < 2 ^ 32"
proof -
  have h: "unat h \<le> 255" and s: "unat s \<le> 255" and hd: "unat (head c) \<le> 255"
    and sc: "unat (sector c) \<le> 255" and cy: "unat (cylinder c) \<le> 65535"
    using unat_u8_less [of h] unat_u8_less [of s] unat_u8_less [of "head c"]
      unat_u8_less [of "sector c"] unat_u16_less [of "cylinder c"] by simp_all
  have "unat (cylinder c) * unat h \<le> 65535 * 255" by (rule mult_le_mono [OF cy h])
  then have "unat (cylinder c) * unat h + unat (head c) \<le> 16711680" using hd by linarith
  then have "(unat (cylinder c) * unat h + unat (head c)) * unat s \<le> 16711680 * 255"
    by (rule mult_le_mono [OF _ s])
  then show ?thesis using sc by (simp add: chs_lba_def)
qed

lemma chs_to_lba_eq:
  "chs_to_lba c hpc spt =
     Some (if sector c = 0 \<or> hpc = 0 \<or> spt = 0 then None
           else Some (of_nat (chs_lba c (unat hpc) (unat spt))))"
proof (cases "sector c = 0 \<or> hpc = 0 \<or> spt = 0")
  case True
  then show ?thesis by (auto simp: chs_to_lba_def Let_def)
next
  case False
  let ?A = "unat (cylinder c) * unat hpc" and ?B = "unat (head c) * unat spt"
  have nz: "ucast hpc \<noteq> (0 :: u32)" "ucast spt \<noteq> (0 :: u32)"
    using False by (auto simp: unat_inject [symmetric])
  have s1: "1 \<le> unat (sector c)"
    using False by (simp add: unat_ge_one)
  have total: "?A * unat spt + ?B + (unat (sector c) - 1) = chs_lba c (unat hpc) (unat spt)"
    by (simp add: chs_lba_def algebra_simps)
  note bound = chs_lba_bound [of c hpc spt, folded total]
  have "?A \<le> ?A * unat spt"
    using False by (simp add: unat_ge_one)
  with bound have bA: "?A < 2 ^ 32" by linarith
  define a b d e where "a = (ucast (cylinder c) * ucast hpc :: u32)"
    and "b = (a * ucast spt)" and "d = (ucast (head c) * ucast spt :: u32)"
    and "e = (ucast (sector c) - 1 :: u32)"
  have ua: "unat a = ?A" using bA by (simp add: a_def unat_mult_no_overflow)
  have ub: "unat b = ?A * unat spt"
    using bound ua by (simp add: b_def unat_mult_no_overflow)
  have ud: "unat d = ?B" using bound by (simp add: d_def unat_mult_no_overflow)
  have ue: "unat e = unat (sector c) - 1"
    using s1 by (simp add: e_def unat_sub_no_overflow word_le_nat_alt)
  have ubd: "unat (b + d) = ?A * unat spt + ?B"
    using bound by (simp add: unat_add_no_overflow ub ud)
  have res: "unat (b + d + e) = chs_lba c (unat hpc) (unat spt)"
    using bound total by (simp add: unat_add_no_overflow ubd ue)
  have "checked_mul (ucast (cylinder c)) (ucast hpc) = Some a"
       "checked_mul a (ucast spt) = Some b"
       "checked_mul (ucast (head c)) (ucast spt) = Some d"
       "checked_sub (ucast (sector c)) 1 = Some e"
       "checked_add b d = Some (b + d)"
       "checked_add (b + d) e = Some (b + d + e)"
    using s1 by (simp_all only: rust_arith ua ub ud ue ubd res total
        unat_widen_8_32 unat_widen_16_32) (simp_all add: total)
  moreover have "b + d + e = of_nat (chs_lba c (unat hpc) (unat spt))"
    by (simp flip: res add: of_nat_unat)
  ultimately show ?thesis
    using False nz by (simp add: chs_to_lba_def Let_def)
qed

lemma max_chs_addressable_lba_eq:
  "max_chs_addressable_lba hpc spt =
     (if hpc = 0 \<or> spt = 0 then None else Some (of_nat (1024 * unat hpc * unat spt - 1)))"
proof -
  let ?P = "1024 * unat hpc * unat spt"
  have "unat hpc * unat spt \<le> 255 * 255"
    using unat_u8_less [of hpc] unat_u8_less [of spt] by (intro mult_le_mono) simp_all
  then have P: "?P < 2 ^ 64" and A: "1024 * unat hpc < 2 ^ 64"
    using unat_u8_less [of hpc] by simp_all
  define a b where "a = (1024 * ucast hpc :: u64)" and "b = a * ucast spt"
  have ua: "unat a = 1024 * unat hpc"
    using A by (simp add: a_def unat_mult_no_overflow)
  have ub: "unat b = ?P"
    using P ua by (simp add: b_def unat_mult_no_overflow)
  have "checked_mul 1024 (ucast hpc) = Some a" "checked_mul a (ucast spt) = Some b"
    by (simp_all add: rust_arith ua ub)
  then have *: "max_chs_addressable_lba hpc spt = checked_sub b 1"
    by (simp add: max_chs_addressable_lba_def)
  show ?thesis
  proof (cases "hpc = 0 \<or> spt = 0")
    case True
    then have "b = 0" using ub by (auto simp: unat_0_iff [symmetric])
    then show ?thesis using True by (auto simp: * checked_sub_def)
  next
    case False
    then have "1 \<le> ?P" by (simp add: unat_ge_one)
    have "unat (of_nat (?P - 1) :: u64) = ?P - 1"
      using P by (intro unat_of_nat_small) simp
    with \<open>1 \<le> ?P\<close> have "checked_sub b 1 = Some (of_nat (?P - 1))"
      by (simp only: rust_arith ub unat_1)
    then show ?thesis using False by (simp add: *)
  qed
qed

lemma chs_consistency_eq:
  assumes "hpc \<noteq> 0" and "spt \<noteq> 0"
  shows "chs_consistency c lba hpc spt =
    Some (if is_unused c then Unused
          else if is_overflow_marker c then Consistent
          else if sector c \<noteq> 0 \<and> unat lba < 1024 * unat hpc * unat spt
             \<and> chs_lba c (unat hpc) (unat spt) = unat lba then Consistent
          else Inconsistent)"
proof -
  let ?P = "1024 * unat hpc * unat spt"
  have P1: "1 \<le> ?P" using assms by (simp add: unat_ge_one)
  have "unat hpc * unat spt \<le> 255 * 255"
    using unat_u8_less [of hpc] unat_u8_less [of spt] by (intro mult_le_mono) simp_all
  then have "unat (of_nat (?P - 1) :: u64) = ?P - 1"
    by (intro unat_of_nat_small) simp
  then have gt: "(of_nat (?P - 1) :: u64) < ucast lba \<longleftrightarrow> \<not> unat lba < ?P"
    using P1 by (simp only: word_less_nat_alt unat_widen_32_64) linarith
  have eq: "of_nat (chs_lba c (unat hpc) (unat spt)) = lba \<longleftrightarrow>
      chs_lba c (unat hpc) (unat spt) = unat lba"
    using chs_lba_bound [of c hpc spt] by (auto simp: unat_of_nat of_nat_unat)
  show ?thesis
    using assms
    by (simp only: chs_consistency_def max_chs_addressable_lba_eq chs_to_lba_eq gt eq
        if_False bind.bind_lunit simp_thms) (auto simp: eq)
qed

lemma canonical_chs_translates:
  assumes "0 < h" "h \<le> 255" "0 < s" "s \<le> 63" and lba: "lba < 1024 * h * s"
  shows "chs_lba (canonical_chs lba h s) h s = lba"
    and "sector (canonical_chs lba h s) \<noteq> 0"
proof -
  have "lba div (h * s) < 1024"
    using lba by (simp add: less_mult_imp_div_less mult.assoc)
  then have c: "unat (cylinder (canonical_chs lba h s)) = lba div (h * s)"
    using lba by (simp add: canonical_chs_def unat_of_nat)
  have "lba div s mod h < 256"
    using mod_less_divisor [OF \<open>0 < h\<close>, of "lba div s"] \<open>h \<le> 255\<close> by linarith
  then have hd: "unat (head (canonical_chs lba h s)) = lba div s mod h"
    using lba by (simp add: canonical_chs_def unat_of_nat)
  have "lba mod s + 1 < 256"
    using mod_less_divisor [OF \<open>0 < s\<close>, of lba] \<open>s \<le> 63\<close> by linarith
  then have sc: "unat (sector (canonical_chs lba h s)) = lba mod s + 1"
    using lba by (simp add: canonical_chs_def unat_of_nat del: of_nat_Suc of_nat_add)
  then show "sector (canonical_chs lba h s) \<noteq> 0" by (metis add_is_0 one_neq_zero unat_0)
  have "lba div (h * s) * h + lba div s mod h = lba div s"
    by (simp add: div_mult2_eq mult.commute [of h s])
  then show "chs_lba (canonical_chs lba h s) h s = lba"
    by (simp add: chs_lba_def c hd sc)
qed

subsection \<open>Properties\<close>

text \<open>
  Further fact (roundtrip): decoding a packed three-byte CHS field loses nothing: re-encoding gives
  the three bytes back, the decoded cylinder and sector fit their ten and six bits, and a CHS
  value is the decoding of its encoding exactly when it fits them.
\<close>
theorem chs_codec:
  "chs_to_bytes (chs_from_bytes [b0, b1, b2]) = [b0, b1, b2]
   \<and> chs_wf (chs_from_bytes [b0, b1, b2])
   \<and> (chs_from_bytes (chs_to_bytes c) = c \<longleftrightarrow> chs_wf c)"
  by (simp add: chs_from_bytes_to_bytes)

text \<open>
  Further fact (bounds): the CHS to LBA translation never overflows its 32-bit arithmetic, for any
  CHS value and any geometry, and its result is the textbook formula; it is absent exactly
  when the sector or the geometry is zero.
\<close>
theorem chs_to_lba_total:
  "(case chs_to_lba c hpc spt of
      None \<Rightarrow> False
    | Some None \<Rightarrow> sector c = 0 \<or> hpc = 0 \<or> spt = 0
    | Some (Some lba) \<Rightarrow>
        sector c \<noteq> 0 \<and> hpc \<noteq> 0 \<and> spt \<noteq> 0
        \<and> unat lba = (unat (cylinder c) * unat hpc + unat (head c)) * unat spt
            + (unat (sector c) - 1))"
  using chs_lba_bound [of c hpc spt]
  by (simp add: chs_to_lba_eq unat_of_nat del: of_nat_add of_nat_mult)
    (simp add: chs_lba_def)

text \<open>
  C33 (functional): with the standard geometry of 255 heads and 63 sectors the consistency
  check returns for every CHS value and LBA, and decides \<open>Inconsistent\<close> exactly for an
  address that is neither the unused nor the overflow convention and does not translate to
  the LBA inside the addressable range.
\<close>
theorem chs_consistency_standard:
  "chs_consistency c lba STD_HEADS_PER_CYL STD_SECTORS_PER_TRACK =
    Some (if is_unused c then Unused
          else if is_overflow_marker c then Consistent
          else if sector c \<noteq> 0 \<and> unat lba < 16450560
             \<and> (unat (cylinder c) * 255 + unat (head c)) * 63 + (unat (sector c) - 1) = unat lba
          then Consistent else Inconsistent)"
  using chs_consistency_eq [of 255 63 c lba]
  by (simp add: STD_HEADS_PER_CYL_def STD_SECTORS_PER_TRACK_def chs_lba_def)

text \<open>
  C34 (safety): no false positive: the CHS address that a partitioning tool writes for an
  LBA, its translation when addressable and the overflow marker otherwise, is never reported
  inconsistent, under every geometry with at most 63 sectors per track.
\<close>
theorem canonical_chs_not_inconsistent:
  assumes "hpc \<noteq> 0" and "spt \<noteq> 0" and "spt \<le> 63"
  shows "chs_consistency (canonical_chs (unat lba) (unat hpc) (unat spt)) lba hpc spt
    = Some Consistent"
proof (cases "unat lba < 1024 * unat hpc * unat spt")
  case True
  have "0 < unat hpc" "0 < unat spt" "unat spt \<le> 63"
    using assms by (simp_all add: unat_gt_0 word_le_nat_alt)
  moreover have "unat hpc \<le> 255" using unat_u8_less [of hpc] by simp
  ultimately have "chs_lba (canonical_chs (unat lba) (unat hpc) (unat spt)) (unat hpc) (unat spt)
      = unat lba" "sector (canonical_chs (unat lba) (unat hpc) (unat spt)) \<noteq> 0"
    using True by (simp_all add: canonical_chs_translates)
  with True assms show ?thesis
    by (simp add: chs_consistency_eq is_unused_def)
next
  case False
  with assms show ?thesis
    by (simp add: chs_consistency_eq canonical_chs_def is_unused_def is_overflow_marker_def
        CHS_MAX_CYLINDER_def STD_SECTORS_PER_TRACK_def)
qed

theorem canonical_chs_not_inconsistent_witness:
  "(255 :: u8) \<noteq> 0 \<and> (63 :: u8) \<noteq> 0 \<and> (63 :: u8) \<le> 63
   \<and> chs_consistency (canonical_chs (unat (2048 :: u32)) (unat (255 :: u8)) (unat (63 :: u8)))
       2048 255 63 = Some Consistent"
  using canonical_chs_not_inconsistent [of 255 63 2048] by simp

text \<open>
  Further fact (error): a zero geometry makes the consistency check panic: the addressable range
  \<open>1024 * hpc * spt - 1\<close> underflows for every address other than the two conventions,
  although the translation itself treats a zero geometry as "no address".
\<close>
theorem chs_consistency_zero_geometry:
  "chs_consistency c lba 0 spt = None \<longleftrightarrow> \<not> is_unused c \<and> \<not> is_overflow_marker c"
  by (simp add: chs_consistency_def max_chs_addressable_lba_eq)

text \<open>
  Further fact (bounds): the inclusive last LBA of an entry is \<open>lba_start + lba_count - 1\<close> as long as
  the sum stays below \<open>2 ^ 32\<close>, and the constant \<open>2 ^ 32 - 2\<close> from there on, so the
  last LBA of an entry that ends on the last addressable sector is reported one too low.
\<close>
theorem lba_end_value:
  "unat (lba_end e) =
     (if unat (lba_start e) + unat (lba_count e) < 2 ^ 32
      then unat (lba_start e) + unat (lba_count e) - 1 else 2 ^ 32 - 2)"
  by (simp add: lba_end_def rust_arith)

text \<open>
  Further fact (functional): the predicates on the type byte agree with its classification: extended,
  empty and protective types are those of the families of the same name, and a type without a
  family keeps its byte.
\<close>
theorem family_predicates:
  "(type_is_extended c \<longleftrightarrow> family c = PfExtendedMbr)
   \<and> (type_is_empty c \<longleftrightarrow> family c = PfEmpty)
   \<and> (type_byte c = 0xEE \<longleftrightarrow> family c = PfGptProtective)
   \<and> (\<forall>b. family c = PfUnknown b \<longrightarrow> type_byte c = b)"
  by (auto simp: family_def type_is_extended_def type_is_empty_def Let_def)

end
