(* ===== verification/FsSignature.thy ===== *)
theory FsSignature
  imports Partition
begin

text \<open>
  Filesystem fingerprints (\<open>core/src/signature.rs\<close>).  The shared magic table is the
  \<open>forensicnomicon\<close> function \<open>detect_name\<close>, a parameter; the local fallbacks and the policy
  for conflicts between the declared type and the detected filesystem are modelled.
\<close>

datatype detected_fs =
    DfExt | DfNtfs | DfFat | DfApfs | DfLinuxSwap | DfLinuxLvm | DfLuks | DfXfs | DfBtrfs
  | DfExFat | DfAllZeros | DfUnknown

definition FAT_OEM_IDS :: "u8 list list" where
  "FAT_OEM_IDS = [ascii ''MSDOS5.0'', ascii ''MSWIN4.0'', ascii ''MSWIN4.1'', ascii ''mkdosfs '',
     ascii ''FreeDOS '']"

definition map_fs_name :: "string \<Rightarrow> detected_fs option" where
  "map_fs_name name =
     (if name = ''ext2/3/4'' then Some DfExt
      else if name = ''NTFS'' then Some DfNtfs
      else if name = ''exFAT'' then Some DfExFat
      else if name = ''XFS'' then Some DfXfs
      else if name = ''LUKS'' then Some DfLuks
      else if name = ''APFS'' then Some DfApfs
      else if name = ''Btrfs'' then Some DfBtrfs
      else if name = ''LVM2'' then Some DfLinuxLvm
      else if name = ''Linux swap'' then Some DfLinuxSwap
      else if name = ''FAT32'' \<or> name = ''FAT16'' \<or> name = ''FAT12'' then Some DfFat
      else None)"

definition detect :: "(u8 list \<Rightarrow> string option) \<Rightarrow> u8 list \<Rightarrow> detected_fs option" where
  "detect detect_name s =
     (if s = [] then Some DfUnknown
      else if list_all (\<lambda>b. b = 0) s then Some DfAllZeros
      else case detect_name s \<bind> map_fs_name of
        Some fs \<Rightarrow> Some fs
      | None \<Rightarrow> do {
          oem \<leftarrow> (if 11 \<le> length s
                  then do { w \<leftarrow> slice_range s 3 11; Some (list_ex (\<lambda>id. id = w) FAT_OEM_IDS) }
                  else Some False);
          if oem then Some DfFat
          else do {
            page \<leftarrow> (if 4096 \<le> length s
                     then do { w \<leftarrow> slice_range s 4086 4096; Some (w = ascii ''PAGESPACE1'') }
                     else Some False);
            if page then Some DfLinuxSwap else Some DfUnknown
          }
        })"

definition type_conflicts :: "partition_family \<Rightarrow> detected_fs \<Rightarrow> bool" where
  "type_conflicts declared detected =
     (if detected = DfUnknown \<or> detected = DfAllZeros then False
      else case declared of
        PfNtfs \<Rightarrow> detected \<in> {DfExt, DfFat, DfLuks, DfLinuxSwap, DfLinuxLvm, DfXfs, DfBtrfs, DfApfs}
      | PfFat16 \<Rightarrow> detected \<in> {DfNtfs, DfExt, DfLuks, DfLinuxSwap, DfLinuxLvm, DfXfs, DfBtrfs, DfApfs}
      | PfFat32 \<Rightarrow> detected \<in> {DfNtfs, DfExt, DfLuks, DfLinuxSwap, DfLinuxLvm, DfXfs, DfBtrfs, DfApfs}
      | PfFat12 \<Rightarrow> detected \<in> {DfNtfs, DfExt, DfLuks, DfLinuxSwap, DfLinuxLvm, DfXfs, DfBtrfs, DfApfs}
      | PfLinux \<Rightarrow> detected \<in> {DfNtfs, DfFat, DfLuks, DfApfs}
      | PfLinuxSwap \<Rightarrow> detected \<in> {DfNtfs, DfFat, DfExt, DfBtrfs, DfApfs}
      | PfLinuxLvm \<Rightarrow> detected \<in> {DfNtfs, DfFat, DfExt, DfBtrfs, DfApfs}
      | _ \<Rightarrow> False)"

subsection \<open>Lemmas\<close>

definition fat_oem_id :: "u8 list \<Rightarrow> bool" where
  "fat_oem_id s \<longleftrightarrow> 11 \<le> length s \<and> take 8 (drop 3 s) \<in> set FAT_OEM_IDS"

definition pagespace :: "u8 list \<Rightarrow> bool" where
  "pagespace s \<longleftrightarrow> 4096 \<le> length s \<and> take 10 (drop 4086 s) = ascii ''PAGESPACE1''"

lemma detect_eq:
  "detect dn s =
     Some (if s = [] then DfUnknown
           else if \<forall>b \<in> set s. b = 0 then DfAllZeros
           else case dn s \<bind> map_fs_name of
             Some fs \<Rightarrow> fs
           | None \<Rightarrow> if fat_oem_id s then DfFat else if pagespace s then DfLinuxSwap else DfUnknown)"
  by (auto simp: detect_def fat_oem_id_def pagespace_def list_all_iff list_ex_iff split: option.splits)

text \<open>The filesystems that a declared family legitimately holds.\<close>

fun native_fs :: "partition_family \<Rightarrow> detected_fs set" where
  "native_fs PfNtfs = {DfNtfs, DfExFat}"
| "native_fs PfFat12 = {DfFat}"
| "native_fs PfFat16 = {DfFat}"
| "native_fs PfFat32 = {DfFat}"
| "native_fs PfLinux = {DfExt, DfXfs, DfBtrfs}"
| "native_fs PfLinuxSwap = {DfLinuxSwap}"
| "native_fs PfLinuxLvm = {DfLinuxLvm}"
| "native_fs _ = {}"

subsection \<open>Properties\<close>

text \<open>
  Further fact (functional): fingerprinting never panics on a window of any length and decides in the
  documented order: empty, all zero, the knowledge base where it names a filesystem the crate
  has a variant for, a FAT OEM identifier at offset 3, the old swap signature at offset 4086.
\<close>
theorem detect_order:
  "detect dn s =
     Some (if s = [] then DfUnknown
           else if list_all (\<lambda>b. b = 0) s then DfAllZeros
           else case dn s \<bind> map_fs_name of
             Some fs \<Rightarrow> fs
           | None \<Rightarrow> if fat_oem_id s then DfFat else if pagespace s then DfLinuxSwap else DfUnknown)"
  by (simp add: detect_eq list_all_iff)

text \<open>
  Further fact (safety): the mismatch policy is conservative: nothing detected, an all-zero start, exFAT
  and a filesystem native to the declared family never conflict, and only the NTFS, FAT, Linux,
  swap and LVM families can conflict at all.
\<close>
theorem type_conflicts_conservative:
  "\<not> (type_conflicts declared detected
      \<and> (detected \<in> {DfUnknown, DfAllZeros, DfExFat} \<union> native_fs declared
         \<or> declared \<notin> {PfNtfs, PfFat12, PfFat16, PfFat32, PfLinux, PfLinuxSwap, PfLinuxLvm}))"
  by (cases declared) (auto simp: type_conflicts_def split: if_splits)

end
