(* ===== verification/RustIO.thy ===== *)
theory RustIO
  imports Prelude
begin

text \<open>
  The byte source.  The crates read a disk image through a caller-supplied \<open>Read + Seek\<close>
  value.  It is a parameter of the model: its state is a type variable and its two
  primitive operations are the fields of \<^theory_text>\<open>record reader_ops\<close>.  The
  standard library's \<open>read_exact\<close> is derived from them.

  Two interfaces say what a caller's reader may do.  \<open>fair_reader\<close>: any faults, short
  reads and finitely many consecutive interruptions.  \<open>image_reader\<close>: short reads of one
  fixed image and finitely many consecutive interruptions, but no faults.  Both are interpreted on the readers the repository uses: the
  in-memory cursor of the fuzz target and the fault-injecting disk of
  \<open>forensic/tests/io_robustness_tests.rs\<close>.
\<close>

subsection \<open>Readers\<close>

text \<open>
  The kinds of \<open>std::io::Error\<close> the crates distinguish: \<open>Interrupted\<close> is retried,
  \<open>UnexpectedEof\<close> is what \<open>read_exact\<close> reports at the end, any other is a device error.
\<close>

datatype io_error = Interrupted | UnexpectedEof | OtherIo

record 'r reader_ops =
  seek_start :: "'r \<Rightarrow> u64 \<Rightarrow> (io_error + u64) \<times> 'r"
  read_some :: "'r \<Rightarrow> nat \<Rightarrow> (io_error + u8 list) \<times> 'r"

text \<open>
  \<open>read_some ops r n\<close> is \<open>read\<close> into a buffer of \<open>n\<close> bytes; \<open>Inr bs\<close> stands for
  \<open>Ok(bs.len())\<close> with \<open>bs\<close> at the front of the buffer.  \<open>read_exact\<close> retries interrupted
  reads, so it need not return; slicing the buffer past its end panics.
\<close>

partial_function (option) read_exact_loop ::
  "'r reader_ops \<Rightarrow> 'r \<Rightarrow> nat \<Rightarrow> u8 list \<Rightarrow> ((io_error + u8 list) \<times> 'r) option" where
  "read_exact_loop ops r n acc =
     (if n = 0 then Some (Inr acc, r)
      else case read_some ops r n of
        (Inl e, r') \<Rightarrow>
          if e = Interrupted then read_exact_loop ops r' n acc else Some (Inl e, r')
      | (Inr bs, r') \<Rightarrow>
          if bs = [] then Some (Inl UnexpectedEof, r')
          else if length bs \<le> n then read_exact_loop ops r' (n - length bs) (acc @ bs)
          else None)"

definition read_exact ::
  "'r reader_ops \<Rightarrow> 'r \<Rightarrow> nat \<Rightarrow> ((io_error + u8 list) \<times> 'r) option" where
  "read_exact ops r n = read_exact_loop ops r n []"

text \<open>Whatever the reader does, a successful \<open>read_exact\<close> fills the whole buffer.\<close>

lemma read_exact_loop_length:
  assumes "read_exact_loop ops r n acc = Some z"
  shows "\<forall>bs. fst z = Inr bs \<longrightarrow> length bs = length acc + n"
proof (rule read_exact_loop.raw_induct
    [where P = "\<lambda>ops r n acc z. \<forall>bs. fst z = Inr bs \<longrightarrow> length bs = length acc + n", OF _ assms])
  fix f ops r n acc z
  assume IH: "\<And>ops r n acc z. f ops r n acc = Some z \<Longrightarrow>
      \<forall>bs. fst z = Inr bs \<longrightarrow> length bs = length acc + n"
    and eq: "(if n = 0 then Some (Inr acc, r)
      else case read_some ops r n of
        (Inl e, r') \<Rightarrow> if e = Interrupted then f ops r' n acc else Some (Inl e, r')
      | (Inr bs, r') \<Rightarrow>
          if bs = [] then Some (Inl UnexpectedEof, r')
          else if length bs \<le> n then f ops r' (n - length bs) (acc @ bs) else None) = Some z"
  obtain y r' where rd: "read_some ops r n = (y, r')" by (metis surj_pair)
  show "\<forall>bs. fst z = Inr bs \<longrightarrow> length bs = length acc + n"
  proof (cases "n = 0")
    case False
    show ?thesis
    proof (cases y)
      case (Inl e)
      with eq rd False have "f ops r' n acc = Some z \<or> z = (Inl e, r')"
        by (auto split: if_splits)
      with IH [of ops r' n acc z] show ?thesis by auto
    next
      case (Inr bs)
      with eq rd False have "z = (Inl UnexpectedEof, r')
          \<or> length bs \<le> n \<and> f ops r' (n - length bs) (acc @ bs) = Some z"
        by (auto split: if_splits)
      then show ?thesis
      proof
        assume rest: "length bs \<le> n \<and> f ops r' (n - length bs) (acc @ bs) = Some z"
        then have "\<forall>cs. fst z = Inr cs \<longrightarrow> length cs = length (acc @ bs) + (n - length bs)"
          by (intro IH) (rule conjunct2)
        with rest show ?thesis by simp
      qed simp
    qed
  qed (use eq in auto)
qed

lemma read_exact_length: "read_exact ops r n = Some (Inr bs, r') \<Longrightarrow> length bs = n"
  using read_exact_loop_length [of ops r n "[]"] by (fastforce simp: read_exact_def)

subsection \<open>Readers that may fault\<close>

locale fair_reader =
  fixes ops :: "'r reader_ops" and good :: "'r \<Rightarrow> bool" and retries :: "'r \<Rightarrow> nat"
  assumes seek_good: "good r \<Longrightarrow> seek_start ops r off = (x, r') \<Longrightarrow> good r'"
    and read_good: "good r \<Longrightarrow> read_some ops r n = (y, r') \<Longrightarrow> good r'"
    and read_len: "good r \<Longrightarrow> read_some ops r n = (Inr bs, r') \<Longrightarrow> length bs \<le> n"
    and interrupted_retries:
      "good r \<Longrightarrow> read_some ops r n = (Inl Interrupted, r') \<Longrightarrow> retries r' < retries r"
begin

lemma seek_cases:
  assumes "good r"
  obtains x r' where "seek_start ops r off = (x, r')" "good r'"
  using assms seek_good by (metis surj_pair)

lemma read_exact_loop_returns:
  "good r \<Longrightarrow> \<exists>res r'. read_exact_loop ops r n acc = Some (res, r') \<and> good r'
     \<and> (\<forall>bs. res = Inr bs \<longrightarrow> length bs = length acc + n)"
proof (induction n arbitrary: r acc rule: less_induct)
  case (less n)
  note outer = less.IH
  from less.prems show ?case
  proof (induction "retries r" arbitrary: r rule: less_induct)
    case less
    obtain y r' where rd: "read_some ops r n = (y, r')" by (metis surj_pair)
    have good': "good r'" using less.prems rd by (rule read_good)
    show ?case
    proof (cases "n = 0")
      case True
      with less.prems show ?thesis by (simp add: read_exact_loop.simps)
    next
      case False
      show ?thesis
      proof (cases y)
        case (Inl e)
        show ?thesis
        proof (cases "e = Interrupted")
          case True
          then have "retries r' < retries r"
            using less.prems rd Inl interrupted_retries by blast
          with less.hyps good' False rd Inl True show ?thesis
            by (subst read_exact_loop.simps) simp
        next
          case e: False
          with False rd Inl good' show ?thesis
            by (subst read_exact_loop.simps) simp
        qed
      next
        case (Inr bs)
        have len: "length bs \<le> n" using less.prems rd Inr by (blast intro: read_len)
        show ?thesis
        proof (cases "bs = []")
          case True
          with False rd Inr good' show ?thesis
            by (subst read_exact_loop.simps) simp
        next
          case bs: False
          then have "n - length bs < n" using False by simp
          from outer [OF this good', of "acc @ bs"] False rd Inr len bs show ?thesis
            by (subst read_exact_loop.simps) auto
        qed
      qed
    qed
  qed
qed

lemma read_exact_returns:
  assumes "good r"
  obtains res r' where "read_exact ops r n = Some (res, r')" "good r'"
    "\<forall>bs. res = Inr bs \<longrightarrow> length bs = n"
  using read_exact_loop_returns [OF assms, of n "[]"] unfolding read_exact_def by auto

end

subsection \<open>Readers of a fixed image\<close>

locale image_reader =
  fixes ops :: "'r reader_ops" and pos :: "'r \<Rightarrow> u8 list \<Rightarrow> nat \<Rightarrow> bool" and retries :: "'r \<Rightarrow> nat"
  assumes seek_at: "pos r img p \<Longrightarrow> \<exists>r'. seek_start ops r off = (Inr off, r') \<and> pos r' img (unat off)"
    and read_at: "pos r img p \<Longrightarrow>
      (\<exists>r'. read_some ops r n = (Inl Interrupted, r') \<and> pos r' img p \<and> retries r' < retries r)
      \<or> (\<exists>k r'. read_some ops r n = (Inr (take k (drop p img)), r') \<and> k \<le> n
        \<and> p + k \<le> max p (length img) \<and> (0 < n \<longrightarrow> p < length img \<longrightarrow> 0 < k) \<and> pos r' img (p + k))"
begin

text \<open>
  The outcomes of one read that a retry loop distinguishes, and the induction that such a loop
  needs: on the bytes still wanted, and for equally many on the interruptions still to come.
\<close>

lemma read_cases:
  assumes "pos r img p" and "0 < n"
  obtains (again) r' where "read_some ops r n = (Inl Interrupted, r')" "pos r' img p"
      "retries r' < retries r"
    | (eof) r' where "read_some ops r n = (Inr [], r')" "length img \<le> p" "pos r' img p"
    | (bytes) k r' where "read_some ops r n = (Inr (take k (drop p img)), r')" "0 < k" "k \<le> n"
      "p + k \<le> length img" "pos r' img (p + k)"
  using read_at [OF assms(1), of n]
proof (elim disjE exE conjE)
  fix k r'
  assume rd: "read_some ops r n = (Inr (take k (drop p img)), r')" "k \<le> n"
    "p + k \<le> max p (length img)" "0 < n \<longrightarrow> p < length img \<longrightarrow> 0 < k" "pos r' img (p + k)"
  show thesis
  proof (cases "p < length img")
    case True
    with rd assms(2) bytes show thesis by auto
  next
    case False
    with rd eof show thesis by auto
  qed
qed (rule again)

lemma retry_induct [case_names step]:
  assumes "\<And>(n :: nat) r acc. (\<And>m r' acc'. m < n \<or> m = n \<and> retries r' < retries r \<Longrightarrow> P m r' acc') \<Longrightarrow> P n r acc"
  shows "P n r acc"
proof (induction n arbitrary: r acc rule: less_induct)
  case outer: (less n r acc)
  show ?case
    by (induction "retries r" arbitrary: r acc rule: less_induct) (use assms outer in blast)
qed

lemma take_split: "k \<le> n \<Longrightarrow> take k (drop p xs) @ take (n - k) (drop (p + k) xs) = take n (drop p xs)"
  using take_add [of k "n - k" "drop p xs"] by (simp add: add.commute)

lemma read_exact_loop_at:
  "pos r img p \<Longrightarrow>
     \<exists>r' q. read_exact_loop ops r n acc =
       Some (if p + n \<le> length img \<or> n = 0 then Inr (acc @ take n (drop p img))
             else Inl UnexpectedEof, r') \<and> pos r' img q"
proof (induction n r acc arbitrary: p rule: retry_induct)
  case (step n r acc)
  show ?case
  proof (cases "n = 0")
    case True
    with step.prems show ?thesis by (auto simp: read_exact_loop.simps)
  next
    case False
    then have "0 < n" by simp
    with step.prems show ?thesis
    proof (cases rule: read_cases)
      case (again r')
      with step.IH [of n r' p acc] False show ?thesis by (subst read_exact_loop.simps) simp
    next
      case (eof r')
      with False show ?thesis by (subst read_exact_loop.simps) auto
    next
      case (bytes k r')
      then have len: "length (take k (drop p img)) = k" and ne: "take k (drop p img) \<noteq> []" by auto
      have "n - k < n" using bytes(2) False by simp
      with step.IH [of "n - k" r' "p + k" "acc @ take k (drop p img)"] bytes(5) obtain r'' q where
        "read_exact_loop ops r' (n - k) (acc @ take k (drop p img)) =
          Some (if p + k + (n - k) \<le> length img \<or> n - k = 0
            then Inr (acc @ take k (drop p img) @ take (n - k) (drop (p + k) img))
            else Inl UnexpectedEof, r'')" "pos r'' img q"
        by (simp only: append_assoc) blast
      with bytes False len ne take_split [OF bytes(3), of p img] show ?thesis
        by (subst read_exact_loop.simps) auto
    qed
  qed
qed

lemma read_exact_at:
  assumes "pos r img p"
  obtains r' q where "read_exact ops r n =
      Some (if p + n \<le> length img \<or> n = 0 then Inr (take n (drop p img)) else Inl UnexpectedEof, r')"
    "pos r' img q"
  using read_exact_loop_at [OF assms, of n "[]"] unfolding read_exact_def by auto

end

text \<open>Such a reader is fair, and it keeps reading the image it started with.\<close>

context image_reader
begin

lemma fair_on_image: "fair_reader ops (\<lambda>r. \<exists>p. pos r img p) retries"
proof
  fix r off x r'
  assume "\<exists>p. pos r img p" and "seek_start ops r off = (x, r')"
  then show "\<exists>p. pos r' img p" using seek_at by (metis prod.inject)
next
  fix r n y r'
  assume "\<exists>p. pos r img p" and "read_some ops r n = (y, r')"
  then show "\<exists>p. pos r' img p" using read_at by (metis prod.inject)
next
  fix r n bs r'
  assume "\<exists>p. pos r img p" and "read_some ops r n = (Inr bs, r')"
  then obtain p where p: "pos r img p" and run: "read_some ops r n = (Inr bs, r')" by blast
  from read_at [OF p, of n] show "length bs \<le> n" unfolding run by auto
next
  fix r n r'
  assume "\<exists>p. pos r img p" and "read_some ops r n = (Inl Interrupted, r')"
  then obtain p where p: "pos r img p" and run: "read_some ops r n = (Inl Interrupted, r')" by blast
  from read_at [OF p, of n] show "retries r' < retries r" unfolding run by simp
qed

end

sublocale image_reader \<subseteq> fair: fair_reader ops "\<lambda>r. \<exists>img p. pos r img p" retries
proof
  note f = fair_reader.seek_good [OF fair_on_image] fair_reader.read_good [OF fair_on_image]
    fair_reader.read_len [OF fair_on_image] fair_reader.interrupted_retries [OF fair_on_image]
  show "\<exists>img p. pos r' img p"
    if "\<exists>img p. pos r img p" "seek_start ops r off = (x, r')" for r off x r' using that f(1) by blast
  show "\<exists>img p. pos r' img p"
    if "\<exists>img p. pos r img p" "read_some ops r n = (y, r')" for r n y r' using that f(2) by blast
  show "length bs \<le> n"
    if "\<exists>img p. pos r img p" "read_some ops r n = (Inr bs, r')" for r n bs r' using that f(3) by blast
  show "retries r' < retries r"
    if "\<exists>img p. pos r img p" "read_some ops r n = (Inl Interrupted, r')" for r n r'
    using that f(4) by blast
qed

subsection \<open>The in-memory cursor\<close>

text \<open>
  \<open>std::io::Cursor\<close> over a byte vector, the reader of the fuzz target and of the tests.
  A seek from the start never fails, also beyond the end; a read copies what is left.
\<close>

record cursor =
  cur_data :: "u8 list"
  cur_pos :: u64

definition cursor_seek :: "cursor \<Rightarrow> u64 \<Rightarrow> (io_error + u64) \<times> cursor" where
  "cursor_seek c off = (Inr off, c\<lparr>cur_pos := off\<rparr>)"

definition cursor_read :: "cursor \<Rightarrow> nat \<Rightarrow> (io_error + u8 list) \<times> cursor" where
  "cursor_read c n =
     (let bs = take n (drop (unat (cur_pos c)) (cur_data c))
      in (Inr bs, c\<lparr>cur_pos := cur_pos c + of_nat (length bs)\<rparr>))"

definition cursor_ops :: "cursor reader_ops" where
  "cursor_ops = \<lparr>seek_start = cursor_seek, read_some = cursor_read\<rparr>"

definition cursor_new :: "u8 list \<Rightarrow> cursor" where
  "cursor_new data = \<lparr>cur_data = data, cur_pos = 0\<rparr>"

text \<open>No vector is longer than \<open>isize::MAX\<close> bytes.\<close>

definition cursor_at :: "cursor \<Rightarrow> u8 list \<Rightarrow> nat \<Rightarrow> bool" where
  "cursor_at c img p \<longleftrightarrow> cur_data c = img \<and> unat (cur_pos c) = p \<and> length img < 2 ^ 63"

lemma cursor_new_at: "length data < 2 ^ 63 \<Longrightarrow> cursor_at (cursor_new data) data 0"
  by (simp add: cursor_at_def cursor_new_def)

interpretation cur: image_reader cursor_ops cursor_at "\<lambda>_. 0"
proof
  fix r img p off
  assume "cursor_at r img p"
  then show "\<exists>r'. seek_start cursor_ops r off = (Inr off, r') \<and> cursor_at r' img (unat off)"
    by (auto simp: cursor_ops_def cursor_seek_def cursor_at_def)
next
  fix r :: cursor and img p n
  assume "cursor_at r img p"
  then have img: "cur_data r = img" and p: "unat (cur_pos r) = p" and len: "length img < 2 ^ 63"
    by (simp_all add: cursor_at_def)
  define k where "k = min n (length img - p)"
  have bs: "take n (drop p img) = take k (drop p img)"
    by (simp add: k_def min_def)
  have lk: "length (take k (drop p img)) = k" by (simp add: k_def)
  have "p < 2 ^ 64" using unat_less_exp [of "cur_pos r"] p by simp
  have pk: "p + k \<le> max p (length img)" by (auto simp: k_def)
  have "unat (cur_pos r + of_nat k) = p + k"
  proof -
    have "k < 2 ^ 64" "p + k < 2 ^ 64"
      using pk len \<open>p < 2 ^ 64\<close> by (auto simp: k_def)
    then show ?thesis
      using p by (simp add: unat_add_no_overflow unat_of_nat_small)
  qed
  then show "(\<exists>r'. read_some cursor_ops r n = (Inl Interrupted, r') \<and> cursor_at r' img p \<and> (0 :: nat) < 0)
      \<or> (\<exists>k r'. read_some cursor_ops r n = (Inr (take k (drop p img)), r') \<and> k \<le> n
        \<and> p + k \<le> max p (length img) \<and> (0 < n \<longrightarrow> p < length img \<longrightarrow> 0 < k)
        \<and> cursor_at r' img (p + k))"
    using img p len pk lk bs
    by (intro disjI2 exI [of _ k]) (auto simp: cursor_ops_def cursor_read_def Let_def cursor_at_def k_def)
qed

subsection \<open>The fault-injecting disk of the robustness tests\<close>

record faulty_disk =
  fd_inner :: cursor
  interrupt_reads :: nat
  fail_read_from :: "u64 option"
  fail_seek_to_at_least :: "u64 option"

definition faulty_new :: "u8 list \<Rightarrow> faulty_disk" where
  "faulty_new bytes = \<lparr>fd_inner = cursor_new bytes, interrupt_reads = 0, fail_read_from = None,
     fail_seek_to_at_least = None\<rparr>"

definition faulty_read :: "faulty_disk \<Rightarrow> nat \<Rightarrow> (io_error + u8 list) \<times> faulty_disk" where
  "faulty_read d n =
     (if 0 < interrupt_reads d
      then (Inl Interrupted, d\<lparr>interrupt_reads := interrupt_reads d - 1\<rparr>)
      else if (case fail_read_from d of Some from \<Rightarrow> from \<le> cur_pos (fd_inner d) | None \<Rightarrow> False)
      then (Inl OtherIo, d)
      else case cursor_read (fd_inner d) n of (res, c) \<Rightarrow> (res, d\<lparr>fd_inner := c\<rparr>))"

definition faulty_seek :: "faulty_disk \<Rightarrow> u64 \<Rightarrow> (io_error + u64) \<times> faulty_disk" where
  "faulty_seek d off =
     (if (case fail_seek_to_at_least d of Some bound \<Rightarrow> bound \<le> off | None \<Rightarrow> False)
      then (Inl OtherIo, d)
      else case cursor_seek (fd_inner d) off of (res, c) \<Rightarrow> (res, d\<lparr>fd_inner := c\<rparr>))"

definition faulty_ops :: "faulty_disk reader_ops" where
  "faulty_ops = \<lparr>seek_start = faulty_seek, read_some = faulty_read\<rparr>"

interpretation faulty: fair_reader faulty_ops "\<lambda>_. True" interrupt_reads
  by unfold_locales
    (auto simp: faulty_ops_def faulty_read_def faulty_seek_def cursor_read_def Let_def
      split: if_splits option.splits)

text \<open>Without read and seek faults it is a reader of its bytes that interrupts a while.\<close>

definition faulty_at :: "faulty_disk \<Rightarrow> u8 list \<Rightarrow> nat \<Rightarrow> bool" where
  "faulty_at d img p \<longleftrightarrow>
     cursor_at (fd_inner d) img p \<and> fail_read_from d = None \<and> fail_seek_to_at_least d = None"

lemma faulty_new_at:
  "length data < 2 ^ 63 \<Longrightarrow> faulty_at (faulty_new data\<lparr>interrupt_reads := k\<rparr>) data 0"
  by (simp add: faulty_at_def faulty_new_def cursor_new_at)

interpretation interrupting: image_reader faulty_ops faulty_at interrupt_reads
proof
  fix d img p off
  assume "faulty_at d img p"
  then show "\<exists>d'. seek_start faulty_ops d off = (Inr off, d') \<and> faulty_at d' img (unat off)"
    by (simp add: faulty_ops_def faulty_seek_def faulty_at_def cursor_seek_def cursor_at_def)
next
  fix d img p n
  assume d: "faulty_at d img p"
  then have "cursor_at (fd_inner d) img p" by (simp add: faulty_at_def)
  from cur.read_at [OF this, of n] obtain k c where
    rd: "cursor_read (fd_inner d) n = (Inr (take k (drop p img)), c)" and k: "k \<le> n"
    "p + k \<le> max p (length img)" "0 < n \<longrightarrow> p < length img \<longrightarrow> 0 < k" "cursor_at c img (p + k)"
    by (auto simp: cursor_ops_def)
  show "(\<exists>d'. read_some faulty_ops d n = (Inl Interrupted, d') \<and> faulty_at d' img p
        \<and> interrupt_reads d' < interrupt_reads d)
    \<or> (\<exists>k d'. read_some faulty_ops d n = (Inr (take k (drop p img)), d') \<and> k \<le> n
        \<and> p + k \<le> max p (length img) \<and> (0 < n \<longrightarrow> p < length img \<longrightarrow> 0 < k)
        \<and> faulty_at d' img (p + k))"
  proof (cases "0 < interrupt_reads d")
    case True
    with d show ?thesis by (intro disjI1) (simp add: faulty_ops_def faulty_read_def faulty_at_def)
  next
    case False
    with d rd k show ?thesis
      by (intro disjI2 exI [of _ k]) (simp add: faulty_ops_def faulty_read_def faulty_at_def)
  qed
qed

end
