(* ===== verification/Mbr.thy ===== *)
theory Mbr
  imports Partition RustIO RustFmt
begin

text \<open>
  The master boot record (\<open>core/src/mbr.rs\<close>, the error type of \<open>core/src/lib.rs\<close> and the
  fuzz target \<open>fuzz/fuzz_targets/fuzz_parse.rs\<close>): parsing of the 512-byte sector, its
  errors, and its inverse.
\<close>

subsection \<open>Errors\<close>

datatype error = TooShort nat | BadSignature u16 | Io io_error

text \<open>The messages \<open>thiserror\<close> derives; how an I/O error prints is a parameter.\<close>

definition error_display :: "(io_error \<Rightarrow> string) \<Rightarrow> error \<Rightarrow> string" where
  "error_display io_display err =
     (case err of
        TooShort n \<Rightarrow> ''sector too short: expected 512 bytes, got '' @ dec n
      | BadSignature v \<Rightarrow> ''invalid MBR boot signature: expected 0x55AA, got 0x'' @ fmt_04X v
      | Io e \<Rightarrow> ''I/O error: '' @ io_display e)"

subsection \<open>The sector\<close>

definition SECTOR_SIZE :: nat where "SECTOR_SIZE = 512"
definition BOOT_CODE_LEN :: nat where "BOOT_CODE_LEN = 446"
definition DISK_SERIAL_OFFSET :: nat where "DISK_SERIAL_OFFSET = 440"
definition RESERVED_OFFSET :: nat where "RESERVED_OFFSET = 444"
definition PT_OFFSET :: nat where "PT_OFFSET = 446"
definition SIGNATURE_OFFSET :: nat where "SIGNATURE_OFFSET = 510"
definition BOOT_SIG :: "u8 list" where "BOOT_SIG = [0x55, 0xAA]"

lemmas mbr_layout = SECTOR_SIZE_def BOOT_CODE_LEN_def DISK_SERIAL_OFFSET_def
  RESERVED_OFFSET_def PT_OFFSET_def SIGNATURE_OFFSET_def BOOT_SIG_def

record mbr_sector =
  boot_code :: "u8 list"
  disk_serial :: u32
  reserved :: "u8 list"
  entries :: "partition_entry list"
  signature :: "u8 list"

definition parse_entry_at :: "u8 list \<Rightarrow> nat \<Rightarrow> partition_entry option" where
  "parse_entry_at s i =
     (let off = PT_OFFSET + i * 16; buf = replicate 16 0 in do {
        buf \<leftarrow> (case slice_range s off (off + 16) of
                 Some src \<Rightarrow> copy_from_slice buf src
               | None \<Rightarrow> Some buf);
        Some (entry_from_bytes buf)
      })"

definition parse_mbr_sector :: "u8 list \<Rightarrow> (error + mbr_sector) option" where
  "parse_mbr_sector s =
     (if length s < SECTOR_SIZE then Some (Inl (TooShort (length s)))
      else do {
        s0 \<leftarrow> index s SIGNATURE_OFFSET;
        s1 \<leftarrow> index s (SIGNATURE_OFFSET + 1);
        let sig = [s0, s1];
        if sig \<noteq> BOOT_SIG then Some (Inl (BadSignature (from_be_bytes sig)))
        else do {
          code \<leftarrow> slice_range s 0 BOOT_CODE_LEN;
          boot_code \<leftarrow> copy_from_slice (replicate BOOT_CODE_LEN 0) code;
          d0 \<leftarrow> index s DISK_SERIAL_OFFSET;
          d1 \<leftarrow> index s (DISK_SERIAL_OFFSET + 1);
          d2 \<leftarrow> index s (DISK_SERIAL_OFFSET + 2);
          d3 \<leftarrow> index s (DISK_SERIAL_OFFSET + 3);
          r0 \<leftarrow> index s RESERVED_OFFSET;
          r1 \<leftarrow> index s (RESERVED_OFFSET + 1);
          e0 \<leftarrow> parse_entry_at s 0;
          e1 \<leftarrow> parse_entry_at s 1;
          e2 \<leftarrow> parse_entry_at s 2;
          e3 \<leftarrow> parse_entry_at s 3;
          Some (Inr \<lparr>boot_code = boot_code, disk_serial = from_le_bytes [d0, d1, d2, d3],
                     reserved = [r0, r1], entries = [e0, e1, e2, e3], signature = sig\<rparr>)
        }
      })"

subsection \<open>The fuzz target\<close>

text \<open>
  \<open>fuzz_parse\<close> panics when its assertions fail; here \<^const>\<open>None\<close> is that panic.  The
  accessors it exercises are those that can fail in the model; \<open>identify\<close> and \<open>name\<close>
  have plain result types.
\<close>

fun exercise_entries :: "partition_entry list \<Rightarrow> unit option" where
  "exercise_entries [] = Some ()"
| "exercise_entries (e # es) = do {
     _ \<leftarrow> chs_to_lba (chs_first e) 255 63;
     _ \<leftarrow> chs_to_lba (chs_last e) 255 63;
     exercise_entries es
   }"

definition fuzz_parse :: "u8 list \<Rightarrow> unit option" where
  "fuzz_parse data = do {
     result \<leftarrow> parse_mbr_sector data;
     if length data < 512
     then (case result of Inl (TooShort _) \<Rightarrow> Some () | _ \<Rightarrow> None)
     else (case result of
        Inr m \<Rightarrow> exercise_entries (entries m)
      | Inl (BadSignature _) \<Rightarrow> Some ()
      | Inl (TooShort _) \<Rightarrow> None
      | Inl (Io _) \<Rightarrow> None)
   }"

subsection \<open>Reference notions\<close>

text \<open>The layout written as an encoder, and what a parsed sector satisfies.\<close>

definition mbr_to_bytes :: "mbr_sector \<Rightarrow> u8 list" where
  "mbr_to_bytes m = boot_code m @ concat (map entry_to_bytes (entries m)) @ signature m"

definition mbr_wf :: "mbr_sector \<Rightarrow> bool" where
  "mbr_wf m \<longleftrightarrow> length (boot_code m) = 446
     \<and> disk_serial m = from_le_bytes (take 4 (drop 440 (boot_code m)))
     \<and> reserved m = drop 444 (boot_code m)
     \<and> length (entries m) = 4 \<and> list_all entry_wf (entries m) \<and> signature m = [0x55, 0xAA]"

subsection \<open>Parsing as one equation\<close>

definition mbr_of_bytes :: "u8 list \<Rightarrow> mbr_sector" where
  "mbr_of_bytes s =
     \<lparr>boot_code = take 446 s, disk_serial = from_le_bytes (take 4 (drop 440 s)),
      reserved = take 2 (drop 444 s),
      entries = map (\<lambda>i. entry_from_bytes (take 16 (drop (446 + i * 16) s))) [0, 1, 2, 3],
      signature = take 2 (drop 510 s)\<rparr>"

lemma parse_entry_at_eq:
  "i < 4 \<Longrightarrow> 512 \<le> length s \<Longrightarrow>
     parse_entry_at s i = Some (entry_from_bytes (take 16 (drop (446 + i * 16) s)))"
  by (simp add: parse_entry_at_def mbr_layout Let_def)

lemma take_2_drop: "Suc n < length xs \<Longrightarrow> take 2 (drop n xs) = [xs ! n, xs ! Suc n]"
  by (rule take_drop_nth_eqI) (auto simp: less_Suc_eq numeral_eq_Suc)

lemma take_4_drop:
  "n + 3 < length xs \<Longrightarrow> take 4 (drop n xs) = [xs ! n, xs ! (n + 1), xs ! (n + 2), xs ! (n + 3)]"
  by (rule take_drop_nth_eqI) (auto simp: less_Suc_eq numeral_eq_Suc)

lemma parse_mbr_sector_eq:
  "parse_mbr_sector s =
     Some (if length s < 512 then Inl (TooShort (length s))
           else if s ! 510 \<noteq> 0x55 \<or> s ! 511 \<noteq> 0xAA
           then Inl (BadSignature (from_be_bytes [s ! 510, s ! 511]))
           else Inr (mbr_of_bytes s))"
  by (auto simp: parse_mbr_sector_def mbr_of_bytes_def mbr_layout parse_entry_at_eq
      take_2_drop take_4_drop Let_def)

lemma mbr_of_bytes_wf:
  assumes "512 \<le> length s" "s ! 510 = 0x55" "s ! 511 = 0xAA"
  shows "mbr_wf (mbr_of_bytes s)"
  using assms
  by (simp add: mbr_wf_def mbr_of_bytes_def take_2_drop drop_take min_def)

lemma entries_concat:
  "64 \<le> length t \<Longrightarrow>
     concat (map (\<lambda>i. entry_to_bytes (entry_from_bytes (take 16 (drop (i * 16) t)))) [0, 1, 2, 3])
       = take 64 t"
proof -
  assume len: "64 \<le> length t"
  have "take 16 t @ take 16 (drop 16 t) @ take 16 (drop 32 t) @ take 16 (drop 48 t) = take 64 t"
    using take_add [of 16 48 t] take_add [of 16 32 "drop 16 t"] take_add [of 16 16 "drop 32 t"]
    by simp
  with len show ?thesis
    by (simp add: entry_to_bytes_from_bytes)
qed

lemma mbr_to_bytes_of_bytes:
  assumes "512 \<le> length s" shows "mbr_to_bytes (mbr_of_bytes s) = take 512 s"
proof -
  have "concat (map entry_to_bytes (entries (mbr_of_bytes s))) = take 64 (drop 446 s)"
    using entries_concat [of "drop 446 s"] assms by (simp add: mbr_of_bytes_def add.commute)
  moreover have "take 446 s @ take 64 (drop 446 s) @ take 2 (drop 510 s) = take 512 s"
    using take_add [of 446 66 s] take_add [of 64 2 "drop 446 s"] by simp
  ultimately show ?thesis
    by (simp add: mbr_to_bytes_def mbr_of_bytes_def)
qed

lemma length_concat_entries: "length (concat (map entry_to_bytes es)) = 16 * length es"
  by (induction es) auto

lemma length_4E:
  assumes "length xs = 4" obtains a b c d where "xs = [a, b, c, d]"
  using length_eq_4 [OF assms] by metis

lemma mbr_of_bytes_to_bytes:
  assumes wf: "mbr_wf m"
  shows "mbr_of_bytes (mbr_to_bytes m) = m"
proof -
  obtain a b c d where es: "entries m = [a, b, c, d]"
    using wf length_4E unfolding mbr_wf_def by metis
  have len: "length (boot_code m) = 446" using wf by (simp add: mbr_wf_def)
  have rest: "drop 446 (mbr_to_bytes m) =
      entry_to_bytes a @ entry_to_bytes b @ entry_to_bytes c @ entry_to_bytes d @ signature m"
    by (simp add: mbr_to_bytes_def len es)
  have "take 16 (drop (446 + i * 16) (mbr_to_bytes m)) =
      take 16 (drop (i * 16) (drop 446 (mbr_to_bytes m)))" for i
    by (simp add: add.commute)
  then have "entries (mbr_of_bytes (mbr_to_bytes m)) = entries m"
    using wf by (simp add: mbr_of_bytes_def rest es entry_from_bytes_to_bytes mbr_wf_def)
  moreover have "signature (mbr_of_bytes (mbr_to_bytes m)) = signature m"
  proof -
    have "drop 510 (mbr_to_bytes m) = drop 64 (drop 446 (mbr_to_bytes m))" by simp
    then have "drop 510 (mbr_to_bytes m) = signature m" by (simp add: rest)
    then show ?thesis using wf by (simp add: mbr_of_bytes_def mbr_wf_def)
  qed
  moreover have "take 4 (drop 440 (mbr_to_bytes m)) = take 4 (drop 440 (boot_code m))"
    "take 2 (drop 444 (mbr_to_bytes m)) = drop 444 (boot_code m)"
    "take 446 (mbr_to_bytes m) = boot_code m"
    by (simp_all add: mbr_to_bytes_def len)
  ultimately show ?thesis
    using wf by (simp add: mbr_of_bytes_def mbr_wf_def)
qed

lemma length_mbr_to_bytes: "mbr_wf m \<Longrightarrow> length (mbr_to_bytes m) = 512"
  by (simp add: mbr_to_bytes_def mbr_wf_def length_concat_entries)

lemma mbr_to_bytes_signature:
  assumes "mbr_wf m" shows "mbr_to_bytes m ! 510 = 0x55" "mbr_to_bytes m ! 511 = 0xAA"
proof -
  have "length (boot_code m @ concat (map entry_to_bytes (entries m))) = 510"
    using assms by (simp add: mbr_wf_def length_concat_entries)
  then show "mbr_to_bytes m ! 510 = 0x55" "mbr_to_bytes m ! 511 = 0xAA"
    using assms by (simp_all add: mbr_to_bytes_def mbr_wf_def nth_append)
qed

lemma exercise_entries_returns [returns]: "exercise_entries es = Some ()"
  by (induction es) (simp_all add: chs_to_lba_eq)

subsection \<open>Samples\<close>

definition sample_slot :: "u32 \<Rightarrow> u32 \<Rightarrow> partition_entry" where
  "sample_slot start n = \<lparr>status = 0, chs_first = \<lparr>cylinder = 0, head = 0, sector = 0\<rparr>,
     type_code = TypeCode 0x83, chs_last = \<lparr>cylinder = 0, head = 0, sector = 0\<rparr>,
     lba_start = start, lba_count = n\<rparr>"

definition unused_slot :: partition_entry where
  "unused_slot = \<lparr>status = 0, chs_first = \<lparr>cylinder = 0, head = 0, sector = 0\<rparr>,
     type_code = TypeCode 0, chs_last = \<lparr>cylinder = 0, head = 0, sector = 0\<rparr>,
     lba_start = 0, lba_count = 0\<rparr>"

text \<open>A disk with two Linux partitions that share the sectors 15 to 19.\<close>

definition sample_disk :: mbr_sector where
  "sample_disk = \<lparr>boot_code = replicate 446 0, disk_serial = 0, reserved = [0, 0],
     entries = [sample_slot 10 10, sample_slot 15 10, unused_slot, unused_slot],
     signature = [0x55, 0xAA]\<rparr>"

lemma sample_disk_wf: "mbr_wf sample_disk"
proof -
  have "drop 444 (replicate 446 0) = [0, 0 :: u8]" "take 4 (drop 440 (replicate 446 0)) = [0, 0, 0, 0 :: u8]"
    by (simp_all add: numeral_eq_Suc)
  then show ?thesis
    by (simp add: mbr_wf_def sample_disk_def sample_slot_def unused_slot_def entry_wf_def chs_wf_def
        from_le_bytes_def)
qed

subsection \<open>Properties\<close>

text \<open>
  C19 (error): parsing a sector never panics.  It reports \<open>TooShort\<close> with the length
  exactly for inputs below 512 bytes, \<open>BadSignature\<close> with the two bytes read big-endian
  exactly when bytes 510 and 511 are not \<open>0x55 0xAA\<close>, and otherwise the fields at their
  documented offsets; bytes beyond the sector do not matter.
\<close>
theorem parse_mbr_sector_cases:
  "parse_mbr_sector s =
     Some (if length s < 512 then Inl (TooShort (length s))
           else if s ! 510 = 0x55 \<and> s ! 511 = 0xAA
           then Inr \<lparr>boot_code = take 446 s,
                     disk_serial = from_le_bytes (take 4 (drop 440 s)),
                     reserved = take 2 (drop 444 s),
                     entries = map (\<lambda>i. entry_from_bytes (take 16 (drop (446 + i * 16) s)))
                       [0, 1, 2, 3],
                     signature = [0x55, 0xAA]\<rparr>
           else Inl (BadSignature (from_be_bytes [s ! 510, s ! 511])))"
  by (auto simp: parse_mbr_sector_eq mbr_of_bytes_def take_2_drop)

text \<open>
  C20 (roundtrip): a parsed sector is well-formed and re-encodes to the very 512 bytes it was
  parsed from, so no information is lost; conversely every well-formed sector parses back
  from its encoding.
\<close>
theorem mbr_codec:
  "(\<forall>s m. parse_mbr_sector s = Some (Inr m) \<longrightarrow> mbr_wf m \<and> mbr_to_bytes m = take 512 s)
   \<and> (\<forall>m. mbr_wf m \<longrightarrow> parse_mbr_sector (mbr_to_bytes m) = Some (Inr m))"
  by (auto simp: parse_mbr_sector_eq mbr_of_bytes_wf mbr_to_bytes_of_bytes length_mbr_to_bytes
      mbr_to_bytes_signature mbr_of_bytes_to_bytes split: if_splits)

definition sample_mbr :: "u8 list" where
  "sample_mbr = replicate 510 0 @ [0x55, 0xAA]"

theorem mbr_codec_witness:
  "parse_mbr_sector sample_mbr = Some (Inr (mbr_of_bytes sample_mbr))
   \<and> mbr_to_bytes (mbr_of_bytes sample_mbr) = take 512 sample_mbr
   \<and> parse_mbr_sector (mbr_to_bytes (mbr_of_bytes sample_mbr))
       = Some (Inr (mbr_of_bytes sample_mbr))"
proof -
  have "parse_mbr_sector sample_mbr = Some (Inr (mbr_of_bytes sample_mbr))"
    by (simp add: parse_mbr_sector_eq sample_mbr_def nth_append)
  with mbr_codec show ?thesis by blast
qed

text \<open>
  Further fact (safety): the invariants of the \<open>fuzz_parse\<close> target hold for every input: the
  parser never panics, an input below 512 bytes is \<open>TooShort\<close>, a longer one never is, no
  I/O error appears, and the accessors on a parsed sector never panic.
\<close>
theorem fuzz_parse_never_panics: "fuzz_parse data = Some ()"
  by (simp add: fuzz_parse_def parse_mbr_sector_eq exercise_entries_returns)

end
