(* ===== verification/Ebr.thy ===== *)
theory Ebr
  imports Mbr
begin

text \<open>
  Extended boot record chains (\<open>core/src/ebr.rs\<close>): the walk from the extended partition's
  first sector along the next pointers, with its cycle detection, its depth limit and its
  reactions to unreadable and corrupt sectors.

  The loop is a recursive function on the number of links collected.  It is related to
  \<open>ebr_run\<close>, an inductive description of a chain in an image that mentions no reader.
\<close>

subsection \<open>Layout and data\<close>

definition SECTOR_LEN :: nat where "SECTOR_LEN = 512"
definition LOGICAL_ENTRY :: nat where "LOGICAL_ENTRY = 446"
definition NEXT_ENTRY :: nat where "NEXT_ENTRY = 462"
definition SLACK :: nat where "SLACK = 478"
definition EBR_BOOT_SIG :: nat where "EBR_BOOT_SIG = 510"
definition MAX_DEPTH :: nat where "MAX_DEPTH = 64"

lemmas ebr_layout = SECTOR_LEN_def LOGICAL_ENTRY_def NEXT_ENTRY_def SLACK_def EBR_BOOT_SIG_def
  MAX_DEPTH_def

record ebr_entry =
  ebr_offset :: u64
  ebr_lba :: u64
  logical :: partition_entry
  logical_lba_start :: u64
  slack :: "u8 list"
  has_slack :: bool

record ebr_chain =
  links :: "ebr_entry list"
  had_cycle :: bool
  depth_exceeded :: bool

definition ebr_chain_empty :: ebr_chain where
  "ebr_chain_empty = \<lparr>links = [], had_cycle = False, depth_exceeded = False\<rparr>"

subsection \<open>The walk\<close>

definition decode_ebr_sector ::
  "u64 \<Rightarrow> u64 \<Rightarrow> u8 list \<Rightarrow> (ebr_entry \<times> partition_entry) option" where
  "decode_ebr_sector ebr_byte_offset next_ebr_lba sec = do {
     src \<leftarrow> slice_range sec LOGICAL_ENTRY NEXT_ENTRY;
     logical_raw \<leftarrow> copy_from_slice (replicate 16 0) src;
     src \<leftarrow> slice_range sec NEXT_ENTRY SLACK;
     next_raw \<leftarrow> copy_from_slice (replicate 16 0) src;
     src \<leftarrow> slice_range sec SLACK EBR_BOOT_SIG;
     slack_bytes \<leftarrow> copy_from_slice (replicate 32 0) src;
     let logical = entry_from_bytes logical_raw;
     let next_entry = entry_from_bytes next_raw;
     let start = saturating_add next_ebr_lba (ucast (lba_start logical));
     let any_slack = list_ex (\<lambda>b. b \<noteq> 0) slack_bytes;
     Some (\<lparr>ebr_offset = ebr_byte_offset, ebr_lba = next_ebr_lba, logical = logical,
            logical_lba_start = start, slack = slack_bytes, has_slack = any_slack\<rparr>,
           next_entry)
   }"

text \<open>
  One iteration of the loop either stops with a chain, fails with a seek error, or collects a
  link and names the next EBR to visit.
\<close>

datatype ebr_outcome = Stop ebr_chain | Fail error | Link ebr_entry u64

definition ebr_iteration ::
  "'r reader_ops \<Rightarrow> u64 \<Rightarrow> u64 \<Rightarrow> 'r \<Rightarrow> ebr_entry list \<Rightarrow> u64 set \<Rightarrow> u64
     \<Rightarrow> (ebr_outcome \<times> 'r) option" where
  "ebr_iteration ops ext_start_lba sector_size r es visited next_ebr_lba =
     (if MAX_DEPTH \<le> length es
      then Some (Stop \<lparr>links = es, had_cycle = False, depth_exceeded = True\<rparr>, r)
      else if next_ebr_lba \<in> visited
      then Some (Stop \<lparr>links = es, had_cycle = True, depth_exceeded = False\<rparr>, r)
      else case checked_mul next_ebr_lba sector_size of
        None \<Rightarrow> Some (Stop \<lparr>links = es, had_cycle = False, depth_exceeded = False\<rparr>, r)
      | Some ebr_byte_offset \<Rightarrow>
          (case seek_start ops r ebr_byte_offset of
             (Inl e, r) \<Rightarrow> Some (Fail (Io e), r)
           | (Inr _, r) \<Rightarrow> do {
               (res, r) \<leftarrow> read_exact ops r SECTOR_LEN;
               case res of
                 Inl _ \<Rightarrow> Some (Stop \<lparr>links = es, had_cycle = False, depth_exceeded = False\<rparr>, r)
               | Inr sec \<Rightarrow>
                   if sec ! EBR_BOOT_SIG \<noteq> 0x55 \<or> sec ! (EBR_BOOT_SIG + 1) \<noteq> 0xAA
                   then Some (Stop \<lparr>links = es, had_cycle = False, depth_exceeded = False\<rparr>, r)
                   else do {
                     (e, next_entry) \<leftarrow> decode_ebr_sector ebr_byte_offset next_ebr_lba sec;
                     let finished = Stop \<lparr>links = es @ [e], had_cycle = False,
                                          depth_exceeded = False\<rparr>;
                     if lba_start next_entry = 0 then Some (finished, r)
                     else case checked_add ext_start_lba (ucast (lba_start next_entry)) of
                       None \<Rightarrow> Some (finished, r)
                     | Some next_lba \<Rightarrow> Some (Link e next_lba, r)
                   }
             }))"

lemma ebr_iteration_Link_depth:
  "ebr_iteration ops ext ss r es v n = Some (Link e m, r') \<Longrightarrow> length es < MAX_DEPTH"
  by (auto simp: ebr_iteration_def split: if_splits)

function walk_loop ::
  "'r reader_ops \<Rightarrow> u64 \<Rightarrow> u64 \<Rightarrow> 'r \<Rightarrow> ebr_entry list \<Rightarrow> u64 set \<Rightarrow> u64
     \<Rightarrow> ((error + ebr_chain) \<times> 'r) option" where
  "walk_loop ops ext_start_lba sector_size r es visited next_ebr_lba =
     (case ebr_iteration ops ext_start_lba sector_size r es visited next_ebr_lba of
        None \<Rightarrow> None
      | Some (Stop c, r') \<Rightarrow> Some (Inr c, r')
      | Some (Fail err, r') \<Rightarrow> Some (Inl err, r')
      | Some (Link e next_lba, r') \<Rightarrow>
          walk_loop ops ext_start_lba sector_size r' (es @ [e])
            (insert next_ebr_lba visited) next_lba)"
  by pat_completeness auto
termination
  by (relation "measure (\<lambda>(ops, ext, ss, r, es, v, n). MAX_DEPTH - length es)")
    (auto dest: ebr_iteration_Link_depth)

declare walk_loop.simps [simp del]

definition walk_ebr_chain ::
  "'r reader_ops \<Rightarrow> 'r \<Rightarrow> u64 \<Rightarrow> u64 \<Rightarrow> ((error + ebr_chain) \<times> 'r) option" where
  "walk_ebr_chain ops r ext_start_lba sector_size =
     walk_loop ops ext_start_lba sector_size r [] {} ext_start_lba"

subsection \<open>Reference notions\<close>

definition ebr_entry_ok :: "u64 \<Rightarrow> u64 \<Rightarrow> ebr_entry \<Rightarrow> bool" where
  "ebr_entry_ok ext ss e \<longleftrightarrow>
     unat (ebr_offset e) = unat (ebr_lba e) * unat ss
     \<and> ext \<le> ebr_lba e \<and> unat (ebr_lba e) < unat ext + 2 ^ 32
     \<and> length (slack e) = 32 \<and> (has_slack e \<longleftrightarrow> \<not> bytes_zero (slack e))
     \<and> logical_lba_start e = saturating_add (ebr_lba e) (ucast (lba_start (logical e)))
     \<and> entry_wf (logical e)"

definition ebr_chain_ok :: "u64 \<Rightarrow> u64 \<Rightarrow> ebr_chain \<Rightarrow> bool" where
  "ebr_chain_ok ext ss c \<longleftrightarrow>
     length (links c) \<le> 64 \<and> distinct (map ebr_lba (links c))
     \<and> list_all (ebr_entry_ok ext ss) (links c)
     \<and> (links c \<noteq> [] \<longrightarrow> ebr_lba (hd (links c)) = ext)
     \<and> \<not> (had_cycle c \<and> depth_exceeded c)
     \<and> (depth_exceeded c \<longrightarrow> length (links c) = 64)
     \<and> (had_cycle c \<longrightarrow> links c \<noteq> [])"

text \<open>What an image holds at an EBR address: the decoded link and the address it points to.\<close>

definition image_ebr :: "u8 list \<Rightarrow> u64 \<Rightarrow> u64 \<Rightarrow> (ebr_entry \<times> partition_entry) option" where
  "image_ebr img ss lba =
     (let off = unat lba * unat ss in
      if off + 512 \<le> length img \<and> off < 2 ^ 64 \<and> img ! (off + 510) = 0x55 \<and> img ! (off + 511) = 0xAA
      then decode_ebr_sector (lba * ss) lba (take 512 (drop off img)) else None)"

definition next_link :: "u64 \<Rightarrow> partition_entry \<Rightarrow> u64 option" where
  "next_link ext p =
     (if lba_start p = 0 then None else checked_add ext (ucast (lba_start p)))"

inductive ebr_run :: "u8 list \<Rightarrow> u64 \<Rightarrow> u64 \<Rightarrow> ebr_entry list \<Rightarrow> u64 \<Rightarrow> ebr_chain \<Rightarrow> bool"
  for img ext ss where
  too_deep: "64 \<le> length es \<Longrightarrow>
    ebr_run img ext ss es n \<lparr>links = es, had_cycle = False, depth_exceeded = True\<rparr>"
| cycle: "length es < 64 \<Longrightarrow> n \<in> ebr_lba ` set es \<Longrightarrow>
    ebr_run img ext ss es n \<lparr>links = es, had_cycle = True, depth_exceeded = False\<rparr>"
| unreadable: "length es < 64 \<Longrightarrow> n \<notin> ebr_lba ` set es \<Longrightarrow> image_ebr img ss n = None \<Longrightarrow>
    ebr_run img ext ss es n \<lparr>links = es, had_cycle = False, depth_exceeded = False\<rparr>"
| last_link: "length es < 64 \<Longrightarrow> n \<notin> ebr_lba ` set es \<Longrightarrow> image_ebr img ss n = Some (e, p) \<Longrightarrow>
    next_link ext p = None \<Longrightarrow>
    ebr_run img ext ss es n \<lparr>links = es @ [e], had_cycle = False, depth_exceeded = False\<rparr>"
| link: "length es < 64 \<Longrightarrow> n \<notin> ebr_lba ` set es \<Longrightarrow> image_ebr img ss n = Some (e, p) \<Longrightarrow>
    next_link ext p = Some n' \<Longrightarrow> ebr_run img ext ss (es @ [e]) n' c \<Longrightarrow>
    ebr_run img ext ss es n c"

inductive_cases ebr_runE: "ebr_run img ext ss es n c"

subsection \<open>One link\<close>

lemma decode_ebr_sector_eq:
  assumes "length sec = 512"
  shows "decode_ebr_sector off lba sec =
    (let logical = entry_from_bytes (take 16 (drop 446 sec)); sl = take 32 (drop 478 sec) in
     Some (\<lparr>ebr_offset = off, ebr_lba = lba, logical = logical,
            logical_lba_start = saturating_add lba (ucast (lba_start logical)),
            slack = sl, has_slack = \<not> bytes_zero sl\<rparr>,
           entry_from_bytes (take 16 (drop 462 sec))))"
  using assms
  by (simp add: decode_ebr_sector_def ebr_layout Let_def list_ex_iff list_all_iff)

lemma decode_ebr_sector_lba:
  "decode_ebr_sector off lba sec = Some (e, p) \<Longrightarrow> ebr_lba e = lba \<and> ebr_offset e = off"
  by (auto simp: decode_ebr_sector_def bind_Some_iff Let_def)

lemma decode_ebr_sector_ok:
  assumes "length sec = 512" and "decode_ebr_sector off lba sec = Some (e, p)"
    and "unat off = unat lba * unat ss" and "ext \<le> lba" and "unat lba < unat ext + 2 ^ 32"
  shows "ebr_entry_ok ext ss e"
  using assms by (auto simp: decode_ebr_sector_eq ebr_entry_ok_def Let_def)

lemma next_link_bounds:
  assumes "next_link ext p = Some n"
  shows "ext \<le> n" and "unat n < unat ext + 2 ^ 32"
  using assms unat_u32_less [of "lba_start p"]
  by (auto simp: next_link_def rust_arith word_le_nat_alt split: if_splits)

text \<open>The four ways an iteration can end, with what it saw.\<close>

lemma ebr_iteration_cases [consumes 1, case_names halt fail link]:
  assumes "ebr_iteration ops ext ss r es v n = Some (it, r')"
  obtains
    (halt) dp cy where "it = Stop \<lparr>links = es, had_cycle = cy, depth_exceeded = dp\<rparr>"
      "dp = (64 \<le> length es)" "cy = (\<not> dp \<and> n \<in> v)"
  | (fail) err where "it = Fail err" "length es < 64" "n \<notin> v"
  | (link) off sec e p where "length es < 64" "n \<notin> v" "checked_mul n ss = Some off"
      "length sec = 512" "decode_ebr_sector off n sec = Some (e, p)"
      "it = (case next_link ext p of
          None \<Rightarrow> Stop \<lparr>links = es @ [e], had_cycle = False, depth_exceeded = False\<rparr>
        | Some m \<Rightarrow> Link e m)"
proof (cases "64 \<le> length es \<or> n \<in> v \<or> checked_mul n ss = None")
  case True
  with assms halt show ?thesis
    by (auto simp: ebr_iteration_def MAX_DEPTH_def split: if_splits)
next
  case False
  then obtain off where off: "checked_mul n ss = Some off" by auto
  obtain y r1 where sk: "seek_start ops r off = (y, r1)" by (metis surj_pair)
  note step = assms [unfolded ebr_iteration_def MAX_DEPTH_def]
  show ?thesis
  proof (cases y)
    case (Inl e)
    with step False off sk fail show ?thesis by auto
  next
    case (Inr x)
    with step False off sk obtain res r2 where rd: "read_exact ops r1 512 = Some (res, r2)"
      by (auto simp: bind_Some_iff SECTOR_LEN_def)
    show ?thesis
    proof (cases "\<exists>sec. res = Inr sec \<and> sec ! 510 = 0x55 \<and> sec ! 511 = 0xAA")
      case stop: False
      with step False off sk Inr rd halt show ?thesis
        by (auto simp: SECTOR_LEN_def EBR_BOOT_SIG_def split: sum.splits if_splits)
    next
      case True
      then obtain sec where sec: "res = Inr sec" "sec ! 510 = 0x55" "sec ! 511 = 0xAA" by blast
      with rd have len: "length sec = 512" by (simp add: read_exact_length)
      obtain e p where dec: "decode_ebr_sector off n sec = Some (e, p)"
        using decode_ebr_sector_eq [OF len] by (metis surj_pair)
      show ?thesis
        using step False off sk Inr rd sec dec
        by (intro link [OF _ _ off len dec])
          (auto simp: SECTOR_LEN_def EBR_BOOT_SIG_def next_link_def Let_def
            split: if_splits option.splits)
    qed
  qed
qed

subsection \<open>Invariants of the walk, for any reader\<close>

definition walk_inv :: "u64 \<Rightarrow> u64 \<Rightarrow> ebr_entry list \<Rightarrow> u64 set \<Rightarrow> u64 \<Rightarrow> bool" where
  "walk_inv ext ss es visited n \<longleftrightarrow>
     length es \<le> 64 \<and> visited = ebr_lba ` set es \<and> distinct (map ebr_lba es)
     \<and> list_all (ebr_entry_ok ext ss) es \<and> (es \<noteq> [] \<longrightarrow> ebr_lba (hd es) = ext)
     \<and> (es = [] \<longrightarrow> n = ext) \<and> ext \<le> n \<and> unat n < unat ext + 2 ^ 32"

lemma walk_inv_init: "walk_inv ext ss [] {} ext"
  by (simp add: walk_inv_def)

lemma walk_inv_stop:
  assumes "walk_inv ext ss es visited n"
  shows "ebr_chain_ok ext ss \<lparr>links = es, had_cycle = False, depth_exceeded = False\<rparr>"
    and "64 \<le> length es \<Longrightarrow>
      ebr_chain_ok ext ss \<lparr>links = es, had_cycle = False, depth_exceeded = True\<rparr>"
    and "n \<in> visited \<Longrightarrow>
      ebr_chain_ok ext ss \<lparr>links = es, had_cycle = True, depth_exceeded = False\<rparr>"
  using assms by (auto simp: walk_inv_def ebr_chain_ok_def)

lemma walk_inv_push:
  assumes inv: "walk_inv ext ss es visited n" and "length es < 64" and "n \<notin> visited"
    and off: "checked_mul n ss = Some off" and len: "length sec = 512"
    and dec: "decode_ebr_sector off n sec = Some (e, p)"
  shows "walk_inv ext ss (es @ [e]) (insert n visited) m \<longleftrightarrow>
      ext \<le> m \<and> unat m < unat ext + 2 ^ 32"
    and "ebr_chain_ok ext ss \<lparr>links = es @ [e], had_cycle = False, depth_exceeded = False\<rparr>"
proof -
  have "unat off = unat n * unat ss" using off by (simp add: rust_arith)
  then have "ebr_entry_ok ext ss e"
    using inv dec len by (auto intro: decode_ebr_sector_ok simp: walk_inv_def)
  then show "walk_inv ext ss (es @ [e]) (insert n visited) m \<longleftrightarrow>
      ext \<le> m \<and> unat m < unat ext + 2 ^ 32"
    and "ebr_chain_ok ext ss \<lparr>links = es @ [e], had_cycle = False, depth_exceeded = False\<rparr>"
    using assms decode_ebr_sector_lba [OF dec]
    by (auto simp: walk_inv_def ebr_chain_ok_def hd_append)
qed

lemma ebr_iteration_ok:
  assumes "ebr_iteration ops ext ss r es v n = Some (it, r')" and inv: "walk_inv ext ss es v n"
  shows "case it of Stop c \<Rightarrow> ebr_chain_ok ext ss c | Fail _ \<Rightarrow> True
     | Link e m \<Rightarrow> walk_inv ext ss (es @ [e]) (insert n v) m"
  using assms(1)
proof (cases rule: ebr_iteration_cases)
  case (halt dp cy)
  with walk_inv_stop [OF inv] show ?thesis by (cases dp; cases cy) auto
next
  case (link off sec e p)
  note push = walk_inv_push [OF inv link(1-5)]
  with link(6) next_link_bounds show ?thesis by (auto split: option.splits)
qed simp

lemma walk_loop_ok:
  "walk_inv ext ss es v n \<Longrightarrow>
   walk_loop ops ext ss r es v n = Some (Inr c, r') \<Longrightarrow> ebr_chain_ok ext ss c"
proof (induction ops ext ss r es v n rule: walk_loop.induct)
  case (1 ops ext ss r es v n)
  then show ?case
    by (subst (asm) (2) walk_loop.simps)
      (auto split: option.splits prod.splits ebr_outcome.splits dest!: ebr_iteration_ok)
qed

lemma walk_ebr_chain_ok:
  "walk_ebr_chain ops r ext ss = Some (Inr c, r') \<Longrightarrow> ebr_chain_ok ext ss c"
  unfolding walk_ebr_chain_def by (rule walk_loop_ok [OF walk_inv_init])

subsection \<open>Termination for fair readers\<close>

context fair_reader
begin

lemma ebr_iteration_returns:
  assumes "good r"
  shows "\<exists>it r'. ebr_iteration ops ext ss r es v n = Some (it, r') \<and> good r'"
proof (cases "64 \<le> length es \<or> n \<in> v \<or> checked_mul n ss = None")
  case True
  with assms show ?thesis by (auto simp: ebr_iteration_def MAX_DEPTH_def)
next
  case False
  then obtain off where off: "checked_mul n ss = Some off" by auto
  obtain y r1 where sk: "seek_start ops r off = (y, r1)" "good r1"
    using assms by (rule seek_cases)
  obtain res r2 where rd: "read_exact ops r1 512 = Some (res, r2)" "good r2"
    and len: "\<forall>sec. res = Inr sec \<longrightarrow> length sec = 512"
    using read_exact_returns [OF sk(2), of 512] by blast
  from sk rd len off False show ?thesis
    by (cases y; cases res)
      (auto simp: ebr_iteration_def MAX_DEPTH_def SECTOR_LEN_def decode_ebr_sector_eq Let_def
        split: option.splits)
qed

lemma walk_loop_returns:
  "good r \<Longrightarrow> \<exists>res r'. walk_loop ops ext ss r es v n = Some (res, r') \<and> good r'"
proof (induction "64 - length es" arbitrary: r es v n rule: less_induct)
  case less
  obtain it r' where it: "ebr_iteration ops ext ss r es v n = Some (it, r')" "good r'"
    using ebr_iteration_returns [OF less.prems] by blast
  show ?case
  proof (cases it)
    case (Link e m)
    with it(1) have "length es < 64"
      by (auto dest: ebr_iteration_Link_depth simp: MAX_DEPTH_def)
    then have "64 - length (es @ [e]) < 64 - length es" by simp
    from less.hyps [OF this it(2)] it Link show ?thesis
      by (subst walk_loop.simps) simp
  qed (use it in \<open>subst walk_loop.simps, simp\<close>)+
qed

lemma walk_ebr_chain_returns:
  assumes "good r"
  obtains res r' where "walk_ebr_chain ops r ext ss = Some (res, r')" "good r'"
  using walk_loop_returns [OF assms] unfolding walk_ebr_chain_def by blast

end

subsection \<open>Refinement on an image\<close>

lemma image_ebr_lba: "image_ebr img ss n = Some (e, p) \<Longrightarrow> ebr_lba e = n"
  by (auto simp: image_ebr_def Let_def split: if_splits dest: decode_ebr_sector_lba)

context image_reader
begin

lemma ebr_iteration_at:
  assumes r: "pos r img q" and "length es < 64" and "n \<notin> v"
  shows "\<exists>r' q'. ebr_iteration ops ext ss r es v n = Some
     (case image_ebr img ss n of
        None \<Rightarrow> Stop \<lparr>links = es, had_cycle = False, depth_exceeded = False\<rparr>
      | Some (e, p) \<Rightarrow> (case next_link ext p of
            None \<Rightarrow> Stop \<lparr>links = es @ [e], had_cycle = False, depth_exceeded = False\<rparr>
          | Some m \<Rightarrow> Link e m), r') \<and> pos r' img q'"
proof (cases "checked_mul n ss")
  case None
  then have "image_ebr img ss n = None"
    by (simp add: image_ebr_def rust_arith Let_def)
  with None assms show ?thesis by (auto simp: ebr_iteration_def MAX_DEPTH_def)
next
  case (Some off)
  let ?o = "unat n * unat ss"
  have o: "unat off = ?o" "off = n * ss" "?o < 2 ^ 64"
    using Some unat_less_exp [of off] by (auto simp: checked_mul_def unat_mult_no_overflow split: if_splits)
  obtain r1 where sk: "seek_start ops r off = (Inr off, r1)" "pos r1 img ?o"
    using seek_at [OF r] o(1) by metis
  obtain r2 q2 where rd: "read_exact ops r1 512 = Some (if ?o + 512 \<le> length img
      then Inr (take 512 (drop ?o img)) else Inl UnexpectedEof, r2)" "pos r2 img q2"
    using read_exact_at [OF sk(2), of 512] by auto
  show ?thesis
  proof (cases "?o + 512 \<le> length img")
    case False
    then have "image_ebr img ss n = None" by (simp add: image_ebr_def Let_def)
    with False Some sk rd assms show ?thesis
      by (auto simp: ebr_iteration_def MAX_DEPTH_def SECTOR_LEN_def)
  next
    case True
    then have len: "length (take 512 (drop ?o img)) = 512" by simp
    have im: "image_ebr img ss n =
        (if img ! (?o + 510) = 0x55 \<and> img ! (?o + 511) = 0xAA
         then decode_ebr_sector off n (take 512 (drop ?o img)) else None)"
      using True o by (simp add: image_ebr_def Let_def)
    obtain e p where dec: "decode_ebr_sector off n (take 512 (drop ?o img)) = Some (e, p)"
      using decode_ebr_sector_eq [OF len] by (metis surj_pair)
    from True Some sk rd assms im dec show ?thesis
      by (auto simp: ebr_iteration_def MAX_DEPTH_def SECTOR_LEN_def EBR_BOOT_SIG_def Let_def
          next_link_def split: option.splits)
  qed
qed

lemma walk_loop_at:
  "pos r img q \<Longrightarrow> \<exists>c r' q'. walk_loop ops ext ss r es (ebr_lba ` set es) n = Some (Inr c, r')
     \<and> ebr_run img ext ss es n c \<and> pos r' img q'"
proof (induction "64 - length es" arbitrary: r q es n rule: less_induct)
  case less
  consider "64 \<le> length es" | "length es < 64" "n \<in> ebr_lba ` set es"
    | "length es < 64" "n \<notin> ebr_lba ` set es" by linarith
  then show ?case
  proof cases
    case 1
    with less.prems show ?thesis
      by (subst walk_loop.simps)
        (auto simp: ebr_iteration_def MAX_DEPTH_def intro: ebr_run.too_deep)
  next
    case 2
    with less.prems show ?thesis
      by (subst walk_loop.simps)
        (auto simp: ebr_iteration_def MAX_DEPTH_def intro: ebr_run.cycle)
  next
    case 3
    note it = ebr_iteration_at [OF less.prems 3, of ext ss]
    show ?thesis
    proof (cases "image_ebr img ss n")
      case None
      with it 3 show ?thesis
        by (subst walk_loop.simps) (auto intro: ebr_run.unreadable)
    next
      case (Some ep)
      obtain e p where ep: "ep = (e, p)" by force
      show ?thesis
      proof (cases "next_link ext p")
        case None
        with it 3 Some ep show ?thesis
          by (subst walk_loop.simps) (auto intro: ebr_run.last_link)
      next
        case (Some m)
        obtain r' q' where it': "ebr_iteration ops ext ss r es (ebr_lba ` set es) n
            = Some (Link e m, r')" "pos r' img q'"
          using it \<open>image_ebr img ss n = Some ep\<close> ep Some by auto
        have "64 - length (es @ [e]) < 64 - length es" using 3 by simp
        from less.hyps [OF this it'(2), of m] obtain c r'' q'' where
          "walk_loop ops ext ss r' (es @ [e]) (insert n (ebr_lba ` set es)) m = Some (Inr c, r'')"
          "ebr_run img ext ss (es @ [e]) m c" "pos r'' img q''"
          using image_ebr_lba \<open>image_ebr img ss n = Some ep\<close> ep by auto
        with it' 3 \<open>image_ebr img ss n = Some ep\<close> ep Some show ?thesis
          by (subst walk_loop.simps) (auto intro: ebr_run.link)
      qed
    qed
  qed
qed

end

lemma ebr_run_deterministic:
  "ebr_run img ext ss es n c \<Longrightarrow> ebr_run img ext ss es n d \<Longrightarrow> c = d"
proof (induction arbitrary: d rule: ebr_run.induct)
  case (too_deep es n)
  from too_deep.prems too_deep.hyps show ?case by (cases rule: ebr_run.cases) simp_all
next
  case (cycle es n)
  from cycle.prems cycle.hyps show ?case by (cases rule: ebr_run.cases) simp_all
next
  case (unreadable es n)
  from unreadable.prems unreadable.hyps show ?case by (cases rule: ebr_run.cases) simp_all
next
  case (last_link es n e p)
  from last_link.prems last_link.hyps show ?case by (cases rule: ebr_run.cases) simp_all
next
  case (link es n e p n' c)
  note outer = link.hyps(1-4)
  from link.prems show ?case
  proof (cases rule: ebr_run.cases)
    case (link e2 p2 m)
    with outer have "ebr_run img ext ss (es @ [e]) n' d" by simp
    then show ?thesis by (rule link.IH)
  qed (use outer in simp_all)
qed

subsection \<open>What a chain is\<close>

text \<open>\<open>ebr_path\<close> follows the pointers of an image from one address to another.\<close>

fun ebr_path :: "u8 list \<Rightarrow> u64 \<Rightarrow> u64 \<Rightarrow> u64 \<Rightarrow> ebr_entry list \<Rightarrow> u64 \<Rightarrow> bool" where
  "ebr_path img ext ss a [] n \<longleftrightarrow> a = n"
| "ebr_path img ext ss a (e # es) n \<longleftrightarrow>
     (\<exists>p m. image_ebr img ss a = Some (e, p) \<and> next_link ext p = Some m \<and> ebr_path img ext ss m es n)"

lemma ebr_path_snoc:
  "ebr_path img ext ss a (es @ [e]) n \<longleftrightarrow>
     (\<exists>b p. ebr_path img ext ss a es b \<and> image_ebr img ss b = Some (e, p) \<and> next_link ext p = Some n)"
  by (induction es arbitrary: a) auto

text \<open>Why the walk of an image ended where it did.\<close>

definition ebr_end :: "u8 list \<Rightarrow> u64 \<Rightarrow> u64 \<Rightarrow> ebr_chain \<Rightarrow> bool" where
  "ebr_end img ext ss c \<longleftrightarrow>
     (if depth_exceeded c then \<exists>n. ebr_path img ext ss ext (links c) n
      else if had_cycle c then \<exists>n \<in> ebr_lba ` set (links c). ebr_path img ext ss ext (links c) n
      else (\<exists>n. ebr_path img ext ss ext (links c) n \<and> image_ebr img ss n = None)
        \<or> (\<exists>es e p. links c = es @ [e] \<and> ebr_path img ext ss ext es (ebr_lba e)
             \<and> image_ebr img ss (ebr_lba e) = Some (e, p) \<and> next_link ext p = None))"

lemma ebr_run_end:
  "ebr_run img ext ss es n c \<Longrightarrow> ebr_path img ext ss ext es n \<Longrightarrow> ebr_end img ext ss c"
proof (induction rule: ebr_run.induct)
  case (last_link es n e p)
  then show ?case
    using image_ebr_lba by (auto simp: ebr_end_def)
next
  case (link es n e p n' c)
  then show ?case by (auto simp: ebr_path_snoc)
qed (auto simp: ebr_end_def)

lemma ebr_chain_ok_lba_bound:
  assumes "ebr_chain_ok (ucast (ext :: u32)) ss c" and "e \<in> set (links c)"
  shows "unat (ebr_lba e) < 2 ^ 33" and "unat (logical_lba_start e) < 3 * 2 ^ 32"
proof -
  have e: "ebr_entry_ok (ucast ext) ss e"
    using assms by (auto simp: ebr_chain_ok_def list_all_iff)
  then show lba: "unat (ebr_lba e) < 2 ^ 33"
    using unat_u32_less [of ext] by (simp add: ebr_entry_ok_def)
  have "logical_lba_start e = saturating_add (ebr_lba e) (ucast (lba_start (logical e)))"
    using e by (simp add: ebr_entry_ok_def)
  then show "unat (logical_lba_start e) < 3 * 2 ^ 32"
    using lba unat_u32_less [of "lba_start (logical e)"] by (simp add: rust_arith)
qed

subsection \<open>The repeating disk of the tests\<close>

text \<open>
  \<open>RepeatEbr\<close> of \<open>forensic/tests/mbr_tests.rs\<close> answers every read with the same sector and accepts every
  seek, so a walk over it reaches addresses that no real disk has: the guards against overflow decide
  where it ends.
\<close>

record repeat_ebr =
  re_sector :: "u8 list"

definition repeat_read :: "repeat_ebr \<Rightarrow> nat \<Rightarrow> (io_error + u8 list) \<times> repeat_ebr" where
  "repeat_read d n = (Inr (take (min n 512) (re_sector d)), d)"

definition repeat_seek :: "repeat_ebr \<Rightarrow> u64 \<Rightarrow> (io_error + u64) \<times> repeat_ebr" where
  "repeat_seek d off = (Inr 0, d)"

definition repeat_ops :: "repeat_ebr reader_ops" where
  "repeat_ops = \<lparr>seek_start = repeat_seek, read_some = repeat_read\<rparr>"

interpretation repeating: fair_reader repeat_ops "\<lambda>_. True" "\<lambda>_. 0"
  by unfold_locales (auto simp: repeat_ops_def repeat_read_def)

lemma repeat_read_exact:
  "length (re_sector d) = 512 \<Longrightarrow> read_exact repeat_ops d 512 = Some (Inr (re_sector d), d)"
  by (auto simp: read_exact_def read_exact_loop.simps repeat_ops_def repeat_read_def)

definition repeat_lbas :: "partition_entry \<Rightarrow> u64 \<Rightarrow> u64 \<Rightarrow> u64 list" where
  "repeat_lbas p ext ss =
     (if checked_mul ext ss = None then []
      else ext # (case next_link ext p of
        None \<Rightarrow> []
      | Some m \<Rightarrow> if checked_mul m ss = None then [] else [m]))"

lemma repeat_iteration:
  assumes "length (re_sector d) = 512" "re_sector d ! 510 = 0x55" "re_sector d ! 511 = 0xAA"
    and "n \<notin> v" and "length es < 64"
  shows "ebr_iteration repeat_ops ext ss d es v n = Some
    (case checked_mul n ss of
       None \<Rightarrow> Stop \<lparr>links = es, had_cycle = False, depth_exceeded = False\<rparr>
     | Some off \<Rightarrow> (case decode_ebr_sector off n (re_sector d) of
         Some (e, p) \<Rightarrow> (case next_link ext p of
           None \<Rightarrow> Stop \<lparr>links = es @ [e], had_cycle = False, depth_exceeded = False\<rparr>
         | Some m \<Rightarrow> Link e m)), d)"
proof -
  have seek: "seek_start repeat_ops d off = (Inr 0, d)" for off
    by (simp add: repeat_ops_def repeat_seek_def)
  show ?thesis
    using assms repeat_read_exact [OF assms(1)]
    by (auto simp: ebr_iteration_def ebr_layout seek decode_ebr_sector_eq Let_def next_link_def
        split: option.splits)
qed

lemma next_link_neq:
  assumes "next_link ext p = Some m"
  shows "m \<noteq> ext"
proof -
  have "unat (ucast (lba_start p) :: u64) \<noteq> 0"
    using assms by (simp add: next_link_def unat_eq_0 split: if_splits)
  then have "(ucast (lba_start p) :: u64) \<noteq> 0" by (metis unat_0)
  with assms show ?thesis by (auto simp: next_link_def checked_add_def split: if_splits)
qed

subsection \<open>Properties\<close>

text \<open>
  C11 (termination): over every reader that faults in any way but interrupts only finitely
  often in a row, the walk of an EBR chain returns: it neither panics nor loops, for every
  start, every sector size and every content the reader produces.
\<close>
theorem walk_ebr_chain_terminates:
  assumes "fair_reader ops good retries" and "good r"
  shows "\<exists>res r'. walk_ebr_chain ops r ext ss = Some (res, r')"
  using fair_reader.walk_ebr_chain_returns [OF assms] by metis

definition sample_faulty :: faulty_disk where
  "sample_faulty = \<lparr>fd_inner = cursor_new sample_mbr, interrupt_reads = 3,
     fail_read_from = None, fail_seek_to_at_least = None\<rparr>"

theorem walk_ebr_chain_terminates_witness:
  "fair_reader faulty_ops (\<lambda>_. True) interrupt_reads
   \<and> (\<exists>res r'. walk_ebr_chain faulty_ops sample_faulty 0 512 = Some (res, r'))"
  using walk_ebr_chain_terminates [OF faulty.fair_reader_axioms, of sample_faulty 0 512]
    faulty.fair_reader_axioms by simp

text \<open>
  C13 (invariant): whatever the reader returns, a completed chain has at most 64 links with
  pairwise distinct addresses, starts at the extended partition, stays within \<open>2 ^ 32\<close>
  sectors of it, records for each link its exact byte offset, its slack and whether it is
  non-zero; the two abnormal endings exclude each other, and the depth flag means 64 links.
\<close>
theorem walk_ebr_chain_invariant:
  assumes "walk_ebr_chain ops r ext ss = Some (Inr c, r')"
  shows "ebr_chain_ok ext ss c"
  using assms by (rule walk_ebr_chain_ok)

lemma sample_walk:
  obtains c r' where "walk_ebr_chain cursor_ops (cursor_new sample_mbr) 0 512 = Some (Inr c, r')"
    "ebr_run sample_mbr 0 512 [] 0 c"
proof -
  have "cursor_at (cursor_new sample_mbr) sample_mbr 0"
    by (rule cursor_new_at) (simp add: sample_mbr_def)
  from cur.walk_loop_at [OF this, of 0 512 "[]" 0] that show ?thesis
    by (auto simp: walk_ebr_chain_def)
qed

theorem walk_ebr_chain_invariant_witness:
  "\<exists>c r'. walk_ebr_chain cursor_ops (cursor_new sample_mbr) 0 512 = Some (Inr c, r')
     \<and> ebr_chain_ok 0 512 c"
proof -
  obtain c r' where "walk_ebr_chain cursor_ops (cursor_new sample_mbr) 0 512 = Some (Inr c, r')"
    by (rule sample_walk)
  with walk_ebr_chain_invariant [OF this] show ?thesis by blast
qed

text \<open>
  C12 (refinement): over a reader of a fixed image, however short its reads and however often it is
  interrupted, the walk always
  succeeds (truncation never is an error) and its result is exactly the chain that the inductive
  description of the image's pointers assigns to the extended partition.
\<close>
theorem walk_ebr_chain_refines:
  assumes "image_reader ops pos retries" and "pos r img q"
  shows "\<exists>c r'. walk_ebr_chain ops r ext ss = Some (Inr c, r')
     \<and> (\<forall>d. ebr_run img ext ss [] ext d \<longleftrightarrow> d = c)"
proof -
  obtain c r' where "walk_loop ops ext ss r [] {} ext = Some (Inr c, r')"
    "ebr_run img ext ss [] ext c"
    using image_reader.walk_loop_at [OF assms, of ext ss "[]" ext] by auto
  then show ?thesis
    using ebr_run_deterministic unfolding walk_ebr_chain_def by blast
qed

theorem walk_ebr_chain_refines_witness:
  "\<exists>c r'. walk_ebr_chain cursor_ops (cursor_new sample_mbr) 0 512 = Some (Inr c, r')
     \<and> (\<forall>d. ebr_run sample_mbr 0 512 [] 0 d \<longleftrightarrow> d = c)"
proof -
  have "cursor_at (cursor_new sample_mbr) sample_mbr 0"
    by (rule cursor_new_at) (simp add: sample_mbr_def)
  from walk_ebr_chain_refines [OF cur.image_reader_axioms this] show ?thesis .
qed

text \<open>
  Further fact (functional): the links of a chain are consecutive along the image's next pointers from
  the extended partition, and the flags tell the truth about the end: a cycle means that the
  last pointer leads back to a collected link, excessive depth that it leads on, neither that
  it leads to an unreadable sector or that there is none.
\<close>
theorem ebr_chain_follows_pointers:
  assumes "ebr_run img ext ss [] ext c"
  shows "ebr_end img ext ss c"
  using assms by (rule ebr_run_end) simp

theorem ebr_chain_follows_pointers_witness:
  "\<exists>c. ebr_run sample_mbr 0 512 [] 0 c \<and> ebr_end sample_mbr 0 512 c"
proof -
  obtain c where "ebr_run sample_mbr 0 512 [] 0 c" by (rule sample_walk)
  with ebr_chain_follows_pointers [OF this] show ?thesis by blast
qed

text \<open>
  Further fact (functional): over the repeating disk the walk visits the extended partition and
  at most one more sector, both only if their byte offsets fit into 64 bits; if it gets to the second,
  that sector points to itself and a cycle is flagged.
\<close>
theorem repeating_disk_walk:
  assumes "length (re_sector d) = 512" "re_sector d ! 510 = 0x55" "re_sector d ! 511 = 0xAA"
    and "p = entry_from_bytes (take 16 (drop 462 (re_sector d)))"
  shows "\<exists>c. walk_ebr_chain repeat_ops d ext ss = Some (Inr c, d)
    \<and> map ebr_lba (links c) = repeat_lbas p ext ss
    \<and> (had_cycle c \<longleftrightarrow> length (repeat_lbas p ext ss) = 2) \<and> \<not> depth_exceeded c"
proof -
  note it = repeat_iteration [OF assms(1-3)]
  note step = walk_loop.simps [of repeat_ops ext ss d]
  have dec: "\<exists>e. decode_ebr_sector off n (re_sector d) = Some (e, p) \<and> ebr_lba e = n" for off n
    by (simp add: decode_ebr_sector_eq [OF assms(1)] Let_def assms(4))
  show ?thesis
  proof (cases "checked_mul ext ss")
    case None
    with it [of ext "{}" "[]"] show ?thesis
      by (simp add: walk_ebr_chain_def step repeat_lbas_def)
  next
    case (Some off)
    obtain e where e: "decode_ebr_sector off ext (re_sector d) = Some (e, p)" "ebr_lba e = ext"
      using dec by blast
    note first = it [of ext "{}" "[]" ext ss, unfolded Some option.case e(1) prod.case]
    show ?thesis
    proof (cases "next_link ext p")
      case None
      with first Some e(2) show ?thesis by (simp add: walk_ebr_chain_def step repeat_lbas_def)
    next
      case next1: (Some m)
      have "m \<noteq> ext" using next1 by (rule next_link_neq)
      then have "m \<notin> {ext}" "length [e] < 64" by simp_all
      note second = it [OF this, of ext ss]
      show ?thesis
      proof (cases "checked_mul m ss")
        case None
        with first second next1 Some e(2) show ?thesis
          by (simp add: walk_ebr_chain_def step repeat_lbas_def)
      next
        case off2: (Some off2)
        obtain e' where e': "decode_ebr_sector off2 m (re_sector d) = Some (e', p)" "ebr_lba e' = m"
          using dec by blast
        have "ebr_iteration repeat_ops ext ss d [e, e'] {m, ext} m =
            Some (Stop \<lparr>links = [e, e'], had_cycle = True, depth_exceeded = False\<rparr>, d)"
          by (simp add: ebr_iteration_def MAX_DEPTH_def)
        with first second next1 off2 Some e(2) e' show ?thesis
          by (simp add: walk_ebr_chain_def step repeat_lbas_def)
      qed
    qed
  qed
qed

theorem repeating_disk_walk_witness:
  "\<exists>c. walk_ebr_chain repeat_ops \<lparr>re_sector = sample_mbr\<rparr> 7 512 = Some (Inr c, \<lparr>re_sector = sample_mbr\<rparr>)
    \<and> map ebr_lba (links c) = repeat_lbas (entry_from_bytes (take 16 (drop 462 sample_mbr))) 7 512"
proof -
  let ?d = "\<lparr>re_sector = sample_mbr\<rparr>"
  have "length (re_sector ?d) = 512" "re_sector ?d ! 510 = 0x55" "re_sector ?d ! 511 = 0xAA"
    by (simp_all add: sample_mbr_def nth_append)
  from repeating_disk_walk [OF this refl, of 7 512] show ?thesis by auto
qed

end
