(* ===== verification/Findings.thy ===== *)
theory Findings
  imports Wipe Gap Provenance FsSignature Ebr
begin

text \<open>
  Forensic findings (\<open>forensic/src/findings.rs\<close>): the anomaly kinds with the severity, code and
  note derived from them, the anomaly and its two renderings, the partition summary and the
  result of an analysis.  The names of partition types come from the \<open>forensicnomicon\<close>
  function \<open>type_name\<close>, a parameter; volume serials, encryption reports and GPT analyses are
  values of other crates, of a type left open.
\<close>

subsection \<open>Severity\<close>

text \<open>
  The scale is \<open>forensicnomicon::report::Severity\<close>; \<open>README.md\<close> documents its order; its rendering is a parameter of \<open>anomaly_display\<close>.
\<close>

datatype severity = Info | Low | Medium | High | Critical

fun severity_rank :: "severity \<Rightarrow> nat" where
  "severity_rank Info = 0"
| "severity_rank Low = 1"
| "severity_rank Medium = 2"
| "severity_rank High = 3"
| "severity_rank Critical = 4"

instantiation severity :: linorder
begin

definition less_eq_severity :: "severity \<Rightarrow> severity \<Rightarrow> bool" where
  "less_eq_severity a b \<longleftrightarrow> severity_rank a \<le> severity_rank b"

definition less_severity :: "severity \<Rightarrow> severity \<Rightarrow> bool" where
  "less_severity a b \<longleftrightarrow> severity_rank a < severity_rank b"

instance
proof
  fix x y :: severity
  assume "x \<le> y" and "y \<le> x"
  then show "x = y"
    by (cases x; cases y) (simp_all add: less_eq_severity_def)
qed (auto simp: less_eq_severity_def less_severity_def)

end

subsection \<open>Anomaly kinds\<close>

datatype anomaly_kind =
    NonZeroReserved "u8 list"
  | MultipleBootable nat
  | NoBootablePartition
  | ZeroDiskSignature
  | KnownBootkit string
  | ResidualEntry nat u32 u32
  | InvalidPartitionStatus nat u8
  | DuplicatePartitionEntry nat nat
  | OverlappingPartitions nat nat u64 u64
  | OutOfBounds nat u64 u64
  | ChsLbaInconsistency nat
  | HybridMbr nat
  | ProtectiveMbrUndersized u64 u64
  | HiddenGpt
  | SpoofedProtectiveMbr
  | EbrCycle
  | EbrExcessiveDepth nat
  | EbrSlackData u64 real
  | PrePartitionSpace u64 u64 u64
  | InterPartitionGap u64 u64 u64
  | PostPartitionSpace u64 u64 u64
  | WipedRegion u64 fill_pattern
  | CarvedArtifact string
  | VbrHiddenSectorsMismatch nat u32 u64
  | SignatureMismatch nat type_code detected_fs
  | WipedBootCode
  | EmptyProtectiveBootCode
  | ErasedBootCode
  | UnknownBootCode string
  | HighEntropySlack u64 real

definition PRE_PARTITION_BENIGN_LBA :: u64 where
  "PRE_PARTITION_BENIGN_LBA = 63"

fun kind_severity :: "anomaly_kind \<Rightarrow> severity" where
  "kind_severity (OverlappingPartitions _ _ _ _) = Critical"
| "kind_severity EbrCycle = Critical"
| "kind_severity (KnownBootkit _) = Critical"
| "kind_severity (OutOfBounds _ _ _) = High"
| "kind_severity (EbrExcessiveDepth _) = High"
| "kind_severity WipedBootCode = High"
| "kind_severity ErasedBootCode = High"
| "kind_severity (HybridMbr _) = High"
| "kind_severity (ProtectiveMbrUndersized _ _) = High"
| "kind_severity HiddenGpt = High"
| "kind_severity SpoofedProtectiveMbr = High"
| "kind_severity (WipedRegion _ _) = High"
| "kind_severity (VbrHiddenSectorsMismatch _ _ _) = High"
| "kind_severity (HighEntropySlack _ _) = High"
| "kind_severity (EbrSlackData _ entropy) =
     (if HIGH_ENTROPY_THRESHOLD < entropy then High else Medium)"
| "kind_severity (PrePartitionSpace lo _ _) =
     (if lo < PRE_PARTITION_BENIGN_LBA then Low else Medium)"
| "kind_severity (NonZeroReserved _) = Medium"
| "kind_severity (MultipleBootable _) = Medium"
| "kind_severity (ResidualEntry _ _ _) = Medium"
| "kind_severity (ChsLbaInconsistency _) = Medium"
| "kind_severity (InvalidPartitionStatus _ _) = Medium"
| "kind_severity (DuplicatePartitionEntry _ _) = Medium"
| "kind_severity ZeroDiskSignature = Medium"
| "kind_severity (InterPartitionGap _ _ _) = Medium"
| "kind_severity (SignatureMismatch _ _ _) = Medium"
| "kind_severity (UnknownBootCode _) = Low"
| "kind_severity (CarvedArtifact _) = Low"
| "kind_severity NoBootablePartition = Info"
| "kind_severity (PostPartitionSpace _ _ _) = Info"
| "kind_severity EmptyProtectiveBootCode = Info"

fun kind_code :: "anomaly_kind \<Rightarrow> string" where
  "kind_code (NonZeroReserved _) = ''MBR-RESERVED-NONZERO''"
| "kind_code (MultipleBootable _) = ''MBR-BOOT-MULTI''"
| "kind_code NoBootablePartition = ''MBR-BOOT-NONE''"
| "kind_code ZeroDiskSignature = ''MBR-DISKSIG-ZERO''"
| "kind_code (KnownBootkit _) = ''MBR-BOOT-MALWARE''"
| "kind_code (ResidualEntry _ _ _) = ''MBR-PART-RESIDUAL''"
| "kind_code (InvalidPartitionStatus _ _) = ''MBR-PART-STATUS''"
| "kind_code (DuplicatePartitionEntry _ _) = ''MBR-PART-DUPLICATE''"
| "kind_code (OverlappingPartitions _ _ _ _) = ''MBR-PART-OVERLAP''"
| "kind_code (OutOfBounds _ _ _) = ''MBR-PART-OOB''"
| "kind_code (ChsLbaInconsistency _) = ''MBR-PART-CHSLBA''"
| "kind_code (HybridMbr _) = ''MBR-GPT-HYBRID''"
| "kind_code (ProtectiveMbrUndersized _ _) = ''MBR-GPT-UNDERSIZED''"
| "kind_code HiddenGpt = ''MBR-GPT-HIDDEN''"
| "kind_code SpoofedProtectiveMbr = ''MBR-GPT-SPOOFED''"
| "kind_code EbrCycle = ''MBR-EBR-CYCLE''"
| "kind_code (EbrExcessiveDepth _) = ''MBR-EBR-DEPTH''"
| "kind_code (EbrSlackData _ _) = ''MBR-EBR-SLACK''"
| "kind_code (PrePartitionSpace _ _ _) = ''MBR-GAP-PRE''"
| "kind_code (InterPartitionGap _ _ _) = ''MBR-GAP-MID''"
| "kind_code (PostPartitionSpace _ _ _) = ''MBR-GAP-POST''"
| "kind_code (WipedRegion _ _) = ''MBR-GAP-WIPED''"
| "kind_code (CarvedArtifact _) = ''MBR-CARVE-ARTIFACT''"
| "kind_code (SignatureMismatch _ _ _) = ''MBR-PART-SIGMISMATCH''"
| "kind_code (VbrHiddenSectorsMismatch _ _ _) = ''MBR-VBR-HIDDEN''"
| "kind_code WipedBootCode = ''MBR-BOOT-WIPED''"
| "kind_code EmptyProtectiveBootCode = ''MBR-BOOT-PROTECTIVE-EMPTY''"
| "kind_code ErasedBootCode = ''MBR-BOOT-ERASED''"
| "kind_code (UnknownBootCode _) = ''MBR-BOOT-UNKNOWN''"
| "kind_code (HighEntropySlack _ _) = ''MBR-SLACK-ENTROPY''"

subsection \<open>Notes\<close>

text \<open>The derived \<open>Debug\<close> renderings of the two enumerations a note prints.\<close>

fun family_debug :: "partition_family \<Rightarrow> string" where
  "family_debug PfEmpty = ''Empty''"
| "family_debug PfFat12 = ''Fat12''"
| "family_debug PfFat16 = ''Fat16''"
| "family_debug PfFat32 = ''Fat32''"
| "family_debug PfNtfs = ''Ntfs''"
| "family_debug PfExtendedMbr = ''ExtendedMbr''"
| "family_debug PfLinuxSwap = ''LinuxSwap''"
| "family_debug PfLinux = ''Linux''"
| "family_debug PfLinuxLvm = ''LinuxLvm''"
| "family_debug PfLinuxRaid = ''LinuxRaid''"
| "family_debug PfWindowsRecovery = ''WindowsRecovery''"
| "family_debug PfWindowsDynamic = ''WindowsDynamic''"
| "family_debug PfFreeBsd = ''FreeBsd''"
| "family_debug PfOpenBsd = ''OpenBsd''"
| "family_debug PfNetBsd = ''NetBsd''"
| "family_debug PfHfs = ''Hfs''"
| "family_debug PfGptProtective = ''GptProtective''"
| "family_debug PfEfiSystem = ''EfiSystem''"
| "family_debug PfVmware = ''Vmware''"
| "family_debug (PfUnknown b) = ''Unknown('' @ dec (unat b) @ '')''"

fun detected_fs_debug :: "detected_fs \<Rightarrow> string" where
  "detected_fs_debug DfExt = ''Ext''"
| "detected_fs_debug DfNtfs = ''Ntfs''"
| "detected_fs_debug DfFat = ''Fat''"
| "detected_fs_debug DfApfs = ''Apfs''"
| "detected_fs_debug DfLinuxSwap = ''LinuxSwap''"
| "detected_fs_debug DfLinuxLvm = ''LinuxLvm''"
| "detected_fs_debug DfLuks = ''Luks''"
| "detected_fs_debug DfXfs = ''Xfs''"
| "detected_fs_debug DfBtrfs = ''Btrfs''"
| "detected_fs_debug DfExFat = ''ExFat''"
| "detected_fs_debug DfAllZeros = ''AllZeros''"
| "detected_fs_debug DfUnknown = ''Unknown''"

definition gap_note :: "string \<Rightarrow> u64 \<Rightarrow> u64 \<Rightarrow> u64 \<Rightarrow> string" where
  "gap_note label lo hi byte_size =
     (let sectors = saturating_add (saturating_sub hi lo) 1 in
      label @ '': LBA '' @ dec (unat lo) @ en_dash @ dec (unat hi) @ '' ('' @ dec (unat sectors)
      @ '' sectors, '' @ dec (unat byte_size) @ '' bytes)'')"

fun kind_note :: "(u8 \<Rightarrow> string option) \<Rightarrow> anomaly_kind \<Rightarrow> string" where
  "kind_note type_name (NonZeroReserved bytes) =
     ''Reserved bytes at offset 444 are non-zero: ['' @ fmt_hash_04X (bytes ! 0) @ '', ''
     @ fmt_hash_04X (bytes ! 1) @ '']''"
| "kind_note type_name (MultipleBootable count) =
     dec count @ '' partition entries have the bootable flag set''"
| "kind_note type_name NoBootablePartition = ''No partition is marked bootable''"
| "kind_note type_name ZeroDiskSignature =
     ''Windows MBR boot code present but NT disk signature (offset 440) is zero '' @ em_dash
     @ '' consistent with a wiped or re-created boot record''"
| "kind_note type_name (InvalidPartitionStatus i st) =
     ''Entry '' @ dec i @ '': invalid status byte '' @ fmt_hash_04X st
     @ '' (expected 0x00 or 0x80)''"
| "kind_note type_name (DuplicatePartitionEntry a b) =
     ''Entries '' @ dec a @ '' and '' @ dec b @ '' describe the identical extent '' @ em_dash
     @ '' duplicate entry''"
| "kind_note type_name (ResidualEntry i start count) =
     ''Entry '' @ dec i @ '': type=0x00 but lba_start='' @ dec (unat start)
     @ '' lba_count='' @ dec (unat count) @ '' '' @ em_dash @ '' possible deleted partition''"
| "kind_note type_name (OverlappingPartitions a b a_end b_start) =
     ''Partitions '' @ dec a @ '' and '' @ dec b @ '' overlap (entry '' @ dec a
     @ '' ends at LBA '' @ dec (unat a_end) @ '', entry '' @ dec b @ '' starts at ''
     @ dec (unat b_start) @ '')''"
| "kind_note type_name (OutOfBounds i last_lba disk_last) =
     ''Entry '' @ dec i @ '': last LBA '' @ dec (unat last_lba)
     @ '' exceeds disk last LBA '' @ dec (unat disk_last)"
| "kind_note type_name (ChsLbaInconsistency i) =
     ''Entry '' @ dec i @ '': CHS address inconsistent with LBA value''"
| "kind_note type_name (HybridMbr extra) =
     ''Hybrid MBR: GPT protective entry (0xEE) coexists with '' @ dec extra
     @ '' real partition entr'' @ (if extra = 1 then ''y'' else ''ies'') @ '' '' @ em_dash
     @ '' legacy-visible, GPT-invisible data-hiding vector''"
| "kind_note type_name (ProtectiveMbrUndersized covered_last disk_last) =
     ''Protective MBR (0xEE) covers only up to LBA '' @ dec (unat covered_last)
     @ '' but the disk ends at LBA '' @ dec (unat disk_last) @ '' '' @ em_dash
     @ '' tail region hidden from GPT-aware tools''"
| "kind_note type_name HiddenGpt =
     ''GPT header ('' @ [CHR 0x22] @ ''EFI PART'' @ [CHR 0x22]
     @ '') present at LBA 1 but no protective 0xEE entry advertises it '' @ em_dash
     @ '' hidden GPT layout''"
| "kind_note type_name SpoofedProtectiveMbr =
     ''Protective entry (0xEE) present but no GPT header at LBA 1 '' @ em_dash
     @ '' spoofed protective MBR''"
| "kind_note type_name EbrCycle = ''EBR chain contains a cycle''"
| "kind_note type_name (EbrExcessiveDepth depth) =
     ''EBR chain depth exceeded '' @ dec depth @ '' '' @ em_dash
     @ '' possibly corrupt or adversarial''"
| "kind_note type_name (EbrSlackData lba entropy) =
     ''EBR at LBA '' @ dec (unat lba) @ '' has non-zero slack (entropy ''
     @ fmt_f64_2 entropy @ '')''"
| "kind_note type_name (PrePartitionSpace lo hi bytes) =
     gap_note ''Pre-partition space'' lo hi bytes"
| "kind_note type_name (InterPartitionGap lo hi bytes) =
     gap_note ''Gap between partitions'' lo hi bytes"
| "kind_note type_name (PostPartitionSpace lo hi bytes) =
     gap_note ''Post-partition space'' lo hi bytes"
| "kind_note type_name (WipedRegion lo pattern) =
     ''Unpartitioned region at LBA '' @ dec (unat lo)
     @ '' shows a deliberate wipe pattern: '' @ fill_pattern_label pattern"
| "kind_note type_name (CarvedArtifact what) =
     ''Recoverable '' @ what @ '' file header found in unpartitioned space''"
| "kind_note type_name (SignatureMismatch i declared detected) =
     ''Entry '' @ dec i @ '': declared type '' @ family_debug (family declared) @ '' (''
     @ type_code_name type_name declared @ '') but detected '' @ detected_fs_debug detected
     @ '' from first sector''"
| "kind_note type_name (VbrHiddenSectorsMismatch i bpb_hidden start) =
     ''Entry '' @ dec i @ '': VBR hidden-sectors field ('' @ dec (unat bpb_hidden)
     @ '') disagrees with partition-table LBA ('' @ dec (unat start) @ '') '' @ em_dash
     @ '' volume relocated/copied or table edited''"
| "kind_note type_name (KnownBootkit name) =
     ''Boot code contains a documented '' @ name @ '' boot-sector-malware marker''"
| "kind_note type_name WipedBootCode =
     ''Boot code is all zeros '' @ em_dash @ '' likely wiped or overwritten''"
| "kind_note type_name EmptyProtectiveBootCode =
     ''MBR boot code is empty (all zeros), which is expected on a GPT/UEFI disk '' @ em_dash
     @ '' the protective MBR'' @ [CHR 0x27] @ ''s boot code is never executed''"
| "kind_note type_name ErasedBootCode =
     ''Boot code is all 0xFF '' @ em_dash @ '' factory-erased or deliberate wipe''"
| "kind_note type_name (UnknownBootCode boot_code_hex) =
     ''Boot code signature not recognised; boot code begins '' @ boot_code_hex"
| "kind_note type_name (HighEntropySlack off entropy) =
     ''High-entropy slack at offset '' @ dec (unat off) @ '' (entropy ''
     @ fmt_f64_2 entropy @ '')''"

subsection \<open>Anomalies\<close>

record anomaly =
  an_severity :: severity
  an_code :: string
  an_kind :: anomaly_kind
  an_offset :: u64
  an_note :: string

definition anomaly_new :: "(u8 \<Rightarrow> string option) \<Rightarrow> anomaly_kind \<Rightarrow> u64 \<Rightarrow> anomaly" where
  "anomaly_new type_name kind off =
     \<lparr>an_severity = kind_severity kind, an_code = kind_code kind, an_kind = kind,
      an_offset = off, an_note = kind_note type_name kind\<rparr>"

definition anomaly_display :: "(severity \<Rightarrow> string) \<Rightarrow> anomaly \<Rightarrow> string" where
  "anomaly_display severity_display a =
     ''['' @ severity_display (an_severity a) @ ''] '' @ an_code a @ '' @ ''
     @ fmt_hash_x (an_offset a) @ '': '' @ an_note a"

text \<open>The \<open>Observation\<close> view that the shared report model reads.\<close>

record evidence =
  ev_field :: string
  ev_value :: string
  ev_location :: "u64 option"

definition obs_severity :: "anomaly \<Rightarrow> severity option" where
  "obs_severity a = Some (an_severity a)"

definition obs_code :: "anomaly \<Rightarrow> string" where
  "obs_code a = an_code a"

definition obs_note :: "anomaly \<Rightarrow> string" where
  "obs_note a = an_note a"

definition obs_evidence :: "anomaly \<Rightarrow> evidence list" where
  "obs_evidence a =
     (let ev = [\<lparr>ev_field = ''offset'', ev_value = fmt_hash_x (an_offset a),
                 ev_location = Some (an_offset a)\<rparr>]
      in case an_kind a of
        UnknownBootCode boot_code_hex \<Rightarrow>
          ev @ [\<lparr>ev_field = ''boot_code'', ev_value = boot_code_hex,
                 ev_location = Some (an_offset a)\<rparr>]
      | _ \<Rightarrow> ev)"

subsection \<open>Results\<close>

record ('vs, 'enc) partition_summary =
  ps_index :: nat
  ps_lba_start :: u64
  ps_lba_end :: u64
  ps_byte_offset :: u64
  ps_byte_size :: u64
  ps_declared_type :: type_code
  ps_detected_fs :: "detected_fs option"
  ps_volume_serial :: "'vs option"
  ps_encryption :: "'enc option"

record ('vs, 'enc, 'gpt) mbr_analysis =
  ma_mbr :: mbr_sector
  ma_partitions :: "('vs, 'enc) partition_summary list"
  ma_ebr_chain :: ebr_chain
  ma_gaps :: "gap list"
  ma_boot_code_id :: boot_code_id
  ma_disk_serial :: u32
  ma_era :: partitioning_era
  ma_gpt :: "'gpt option"
  ma_anomalies :: "anomaly list"

definition max_severity :: "('vs, 'enc, 'gpt) mbr_analysis \<Rightarrow> severity option" where
  "max_severity a = iter_max (map an_severity (ma_anomalies a))"

definition anomalies_at_least ::
  "('vs, 'enc, 'gpt) mbr_analysis \<Rightarrow> severity \<Rightarrow> anomaly list" where
  "anomalies_at_least a min_sev = filter (\<lambda>an. min_sev \<le> an_severity an) (ma_anomalies a)"

subsection \<open>Codes identify variants\<close>

text \<open>The position of a kind's constructor in the enumeration, and the published codes.\<close>

fun variant :: "anomaly_kind \<Rightarrow> nat" where
  "variant (NonZeroReserved _) = 0"
| "variant (MultipleBootable _) = 1"
| "variant NoBootablePartition = 2"
| "variant ZeroDiskSignature = 3"
| "variant (KnownBootkit _) = 4"
| "variant (ResidualEntry _ _ _) = 5"
| "variant (InvalidPartitionStatus _ _) = 6"
| "variant (DuplicatePartitionEntry _ _) = 7"
| "variant (OverlappingPartitions _ _ _ _) = 8"
| "variant (OutOfBounds _ _ _) = 9"
| "variant (ChsLbaInconsistency _) = 10"
| "variant (HybridMbr _) = 11"
| "variant (ProtectiveMbrUndersized _ _) = 12"
| "variant HiddenGpt = 13"
| "variant SpoofedProtectiveMbr = 14"
| "variant EbrCycle = 15"
| "variant (EbrExcessiveDepth _) = 16"
| "variant (EbrSlackData _ _) = 17"
| "variant (PrePartitionSpace _ _ _) = 18"
| "variant (InterPartitionGap _ _ _) = 19"
| "variant (PostPartitionSpace _ _ _) = 20"
| "variant (WipedRegion _ _) = 21"
| "variant (CarvedArtifact _) = 22"
| "variant (SignatureMismatch _ _ _) = 23"
| "variant (VbrHiddenSectorsMismatch _ _ _) = 24"
| "variant WipedBootCode = 25"
| "variant EmptyProtectiveBootCode = 26"
| "variant ErasedBootCode = 27"
| "variant (UnknownBootCode _) = 28"
| "variant (HighEntropySlack _ _) = 29"

definition CODES :: "string list" where
  "CODES =
     [''MBR-RESERVED-NONZERO'', ''MBR-BOOT-MULTI'', ''MBR-BOOT-NONE'',
      ''MBR-DISKSIG-ZERO'', ''MBR-BOOT-MALWARE'', ''MBR-PART-RESIDUAL'',
      ''MBR-PART-STATUS'', ''MBR-PART-DUPLICATE'', ''MBR-PART-OVERLAP'',
      ''MBR-PART-OOB'', ''MBR-PART-CHSLBA'', ''MBR-GPT-HYBRID'',
      ''MBR-GPT-UNDERSIZED'', ''MBR-GPT-HIDDEN'', ''MBR-GPT-SPOOFED'',
      ''MBR-EBR-CYCLE'', ''MBR-EBR-DEPTH'', ''MBR-EBR-SLACK'',
      ''MBR-GAP-PRE'', ''MBR-GAP-MID'', ''MBR-GAP-POST'',
      ''MBR-GAP-WIPED'', ''MBR-CARVE-ARTIFACT'', ''MBR-PART-SIGMISMATCH'',
      ''MBR-VBR-HIDDEN'', ''MBR-BOOT-WIPED'', ''MBR-BOOT-PROTECTIVE-EMPTY'',
      ''MBR-BOOT-ERASED'', ''MBR-BOOT-UNKNOWN'', ''MBR-SLACK-ENTROPY'']"

lemma distinct_CODES: "distinct CODES"
  unfolding CODES_def by simp

lemma kind_code_nth: "variant k < length CODES \<and> kind_code k = CODES ! variant k"
  unfolding CODES_def by (cases k) simp_all

lemma severity_le_Critical: "s \<le> Critical"
  by (cases s) (simp_all add: less_eq_severity_def)

subsection \<open>Properties\<close>

text \<open>
  Further fact (functional): the stable codes identify the anomaly kinds: two anomalies have the same
  code exactly when their kinds are values of the same enumeration variant, whatever data they
  carry.
\<close>
theorem kind_code_identifies_variant: "kind_code k = kind_code k' \<longleftrightarrow> variant k = variant k'"
  using kind_code_nth [of k] kind_code_nth [of k'] nth_eq_iff_index_eq [OF distinct_CODES] by metis

text \<open>
  Further fact (functional): the maximum severity of an analysis and its severity filter agree.  A clean
  analysis has none; otherwise the maximum is the severity of some anomaly and bounds every
  other, and filtering at a level keeps something exactly when the level does not exceed it.
\<close>
theorem max_severity_spec:
  "(max_severity a = None \<longleftrightarrow> ma_anomalies a = [])
   \<and> (\<forall>m. max_severity a = Some m \<longleftrightarrow>
        (\<exists>x \<in> set (ma_anomalies a). an_severity x = m)
        \<and> list_all (\<lambda>x. an_severity x \<le> m) (ma_anomalies a))
   \<and> (\<forall>l. anomalies_at_least a l \<noteq> [] \<longleftrightarrow> (\<exists>m. max_severity a = Some m \<and> l \<le> m))"
proof -
  let ?S = "set (map an_severity (ma_anomalies a))"
  have m: "max_severity a = (if ma_anomalies a = [] then None else Some (Max ?S))"
    by (simp add: max_severity_def iter_max_eq)
  have eq: "Max ?S = m \<longleftrightarrow> m \<in> ?S \<and> (\<forall>s \<in> ?S. s \<le> m)" if "ma_anomalies a \<noteq> []" for m
    using that by (intro Max_eq_iff) auto
  have ge: "l \<le> Max ?S \<longleftrightarrow> (\<exists>s \<in> ?S. l \<le> s)" if "ma_anomalies a \<noteq> []" for l
    using that by (intro Max_ge_iff) auto
  show ?thesis
  proof (cases "ma_anomalies a = []")
    case True
    then show ?thesis by (simp add: m anomalies_at_least_def)
  next
    case False
    have max: "max_severity a = Some m \<longleftrightarrow> (\<exists>x \<in> set (ma_anomalies a). an_severity x = m)
        \<and> (\<forall>x \<in> set (ma_anomalies a). an_severity x \<le> m)" for m
      using eq [OF False, of m] m False by auto
    have at_least: "anomalies_at_least a l \<noteq> [] \<longleftrightarrow> (\<exists>m. max_severity a = Some m \<and> l \<le> m)" for l
      using ge [OF False, of l] m False by (simp add: anomalies_at_least_def filter_empty_conv)
    show ?thesis
      unfolding list_all_iff by (intro conjI allI) (simp add: False m, rule max, rule at_least)
  qed
qed

text \<open>
  Further fact (functional): a gap's note states its true extent: for a gap whose byte size is its sector
  count times the sector size, the printed sector count is that sector count.
\<close>
theorem gap_note_prints_sector_count:
  assumes "gap_ok sector_size g" and "unat (gap_lba_end g) < 2 ^ 64 - 1" and "0 < unat sector_size"
  shows "gap_note label (gap_lba_start g) (gap_lba_end g) (gap_byte_size g) =
     label @ '': LBA '' @ dec (unat (gap_lba_start g)) @ en_dash @ dec (unat (gap_lba_end g))
     @ '' ('' @ dec (unat (gap_byte_size g) div unat sector_size)
     @ '' sectors, '' @ dec (unat (gap_byte_size g)) @ '' bytes)''"
proof -
  have "unat (saturating_add (saturating_sub (gap_lba_end g) (gap_lba_start g)) 1) =
      unat (gap_lba_end g) - unat (gap_lba_start g) + 1"
    using assms(2) by (simp add: rust_arith min_def)
  also have "\<dots> = unat (gap_byte_size g) div unat sector_size"
    using assms(1,3) unfolding gap_ok_def by simp
  finally show ?thesis unfolding gap_note_def Let_def by simp
qed

theorem gap_note_prints_sector_count_witness:
  "let g = \<lparr>gap_lba_start = 1, gap_lba_end = 62, gap_byte_size = 31744, gap_class = PrePartition\<rparr>
   in gap_ok 512 g \<and> unat (gap_lba_end g) < 2 ^ 64 - 1 \<and> 0 < unat (512 :: u64)
    \<and> gap_note ''Pre-partition space'' 1 62 31744 =
        ''Pre-partition space: LBA '' @ dec 1 @ en_dash @ dec 62 @ '' ('' @ dec 62
        @ '' sectors, '' @ dec 31744 @ '' bytes)''"
  using gap_note_prints_sector_count
    [of 512 "\<lparr>gap_lba_start = 1, gap_lba_end = 62, gap_byte_size = 31744, gap_class = PrePartition\<rparr>"
      "''Pre-partition space''"]
  by (simp add: gap_ok_def Let_def)

end
