(* ===== verification/Carve.thy ===== *)
theory Carve
  imports RustFmt "HOL-Library.Multiset"
begin

text \<open>
  File-header carving and string extraction (\<open>core/src/carve.rs\<close>): two pure scans of a
  byte region.
\<close>

subsection \<open>Carving\<close>

record carved_file =
  carved_kind :: string
  carved_offset :: u64

record file_magic =
  magic_kind :: string
  magic :: "u8 list"

definition FILE_MAGICS :: "file_magic list" where
  "FILE_MAGICS =
     [\<lparr>magic_kind = ''ZIP'', magic = ascii ''PK'' @ [0x03, 0x04]\<rparr>,
      \<lparr>magic_kind = ''PDF'', magic = ascii ''%PDF-''\<rparr>,
      \<lparr>magic_kind = ''PNG'', magic = [0x89] @ ascii ''PNG'' @ [0x0D, 0x0A, 0x1A, 0x0A]\<rparr>,
      \<lparr>magic_kind = ''JPEG'', magic = [0xFF, 0xD8, 0xFF]\<rparr>,
      \<lparr>magic_kind = ''GIF'', magic = ascii ''GIF87a''\<rparr>,
      \<lparr>magic_kind = ''GIF'', magic = ascii ''GIF89a''\<rparr>,
      \<lparr>magic_kind = ''BZIP2'', magic = ascii ''BZh''\<rparr>,
      \<lparr>magic_kind = ''7Z'', magic = ascii ''7z'' @ [0xBC, 0xAF, 0x27, 0x1C]\<rparr>,
      \<lparr>magic_kind = ''RAR'', magic = ascii ''Rar!'' @ [0x1A, 0x07]\<rparr>,
      \<lparr>magic_kind = ''XZ'', magic = [0xFD] @ ascii ''7zXZ'' @ [0x00]\<rparr>,
      \<lparr>magic_kind = ''ELF'', magic = [0x7F] @ ascii ''ELF''\<rparr>,
      \<lparr>magic_kind = ''RIFF'', magic = ascii ''RIFF''\<rparr>,
      \<lparr>magic_kind = ''SQLite'', magic = ascii ''SQLite format 3'' @ [0x00]\<rparr>,
      \<lparr>magic_kind = ''OLE'', magic = [0xD0, 0xCF, 0x11, 0xE0, 0xA1, 0xB1, 0x1A, 0xE1]\<rparr>,
      \<lparr>magic_kind = ''CAB'', magic = ascii ''MSCF''\<rparr>]"

fun carve_windows ::
  "file_magic \<Rightarrow> u64 \<Rightarrow> nat \<Rightarrow> u8 list list \<Rightarrow> carved_file list \<Rightarrow> carved_file list option" where
  "carve_windows sig base_offset i [] out = Some out"
| "carve_windows sig base_offset i (window # ws) out =
     (if window = magic sig
      then do {
        off \<leftarrow> checked_add base_offset (of_nat i);
        carve_windows sig base_offset (Suc i) ws
          (out @ [\<lparr>carved_kind = magic_kind sig, carved_offset = off\<rparr>])
      }
      else carve_windows sig base_offset (Suc i) ws out)"

fun carve_sigs ::
  "file_magic list \<Rightarrow> u8 list \<Rightarrow> u64 \<Rightarrow> carved_file list \<Rightarrow> carved_file list option" where
  "carve_sigs [] data base_offset out = Some out"
| "carve_sigs (sig # sigs) data base_offset out =
     (let m = magic sig in
      if m = [] \<or> length data < length m then carve_sigs sigs data base_offset out
      else do {
        out \<leftarrow> carve_windows sig base_offset 0 (windows (length m) data) out;
        carve_sigs sigs data base_offset out
      })"

definition carve :: "u8 list \<Rightarrow> u64 \<Rightarrow> carved_file list option" where
  "carve data base_offset = do {
     out \<leftarrow> carve_sigs FILE_MAGICS data base_offset [];
     Some (sort_key carved_offset out)
   }"

subsection \<open>Strings\<close>

definition ASCII_MIN :: u8 where "ASCII_MIN = 0x20"
definition ASCII_MAX :: u8 where "ASCII_MAX = 0x7E"

text \<open>
  A run holds printable ASCII only, so \<open>from_utf8_lossy\<close> maps each byte to its character.
\<close>

definition flush :: "u8 list \<Rightarrow> nat \<Rightarrow> string list \<Rightarrow> u8 list \<times> string list" where
  "flush run min_len out =
     ([], if min_len \<le> length run then out @ [map (\<lambda>b. char_of (unat b)) run] else out)"

fun extract_loop :: "u8 list \<Rightarrow> nat \<Rightarrow> u8 list \<Rightarrow> string list \<Rightarrow> u8 list \<times> string list" where
  "extract_loop [] min_len run out = (run, out)"
| "extract_loop (b # data) min_len run out =
     (if ASCII_MIN \<le> b \<and> b \<le> ASCII_MAX then extract_loop data min_len (run @ [b]) out
      else case flush run min_len out of (run', out') \<Rightarrow> extract_loop data min_len run' out')"

definition extract_ascii_strings :: "u8 list \<Rightarrow> nat \<Rightarrow> string list" where
  "extract_ascii_strings data min_len =
     (case extract_loop data min_len [] [] of (run, out) \<Rightarrow> snd (flush run min_len out))"

subsection \<open>Correctness of carving\<close>

definition occurs_at :: "u8 list \<Rightarrow> u8 list \<Rightarrow> nat \<Rightarrow> bool" where
  "occurs_at m data i \<longleftrightarrow> i + length m \<le> length data \<and> take (length m) (drop i data) = m"

definition hits :: "u8 list \<Rightarrow> u64 \<Rightarrow> file_magic \<Rightarrow> carved_file list" where
  "hits data base sig =
     map (\<lambda>i. \<lparr>carved_kind = magic_kind sig, carved_offset = base + of_nat i\<rparr>)
       (filter (occurs_at (magic sig) data) [0..<length data])"

lemma carve_windows_eq:
  "unat base + i + length ws \<le> 2 ^ 64 \<Longrightarrow>
     carve_windows sig base i ws out =
       Some (out @ map (\<lambda>j. \<lparr>carved_kind = magic_kind sig, carved_offset = base + of_nat j\<rparr>)
         (filter (\<lambda>j. ws ! (j - i) = magic sig) [i..<i + length ws]))"
proof (induction ws arbitrary: i out)
  case (Cons w ws)
  have "filter (\<lambda>j. (w # ws) ! (j - i) = magic sig) [Suc i..<i + length (w # ws)] =
      filter (\<lambda>j. ws ! (j - Suc i) = magic sig) [Suc i..<Suc i + length ws]"
    by (intro filter_cong) (auto simp: nth_Cons')
  moreover have "[i..<i + length (w # ws)] = i # [Suc i..<i + length (w # ws)]"
    by (rule upt_conv_Cons) simp
  ultimately have step:
    "filter (\<lambda>j. (w # ws) ! (j - i) = magic sig) [i..<i + length (w # ws)] =
      (if w = magic sig then [i] else [])
      @ filter (\<lambda>j. ws ! (j - Suc i) = magic sig) [Suc i..<Suc i + length ws]"
    by (simp only: filter.simps diff_self_eq_0 nth_Cons_0 append_Cons append_Nil split: if_split) blast
  have "unat (of_nat i :: u64) = i"
    using Cons.prems by (intro unat_of_nat_small) simp
  then have "checked_add base (of_nat i) = Some (base + of_nat i)"
    using Cons.prems by (simp add: checked_add_def)
  moreover have "carve_windows sig base (Suc i) ws out' =
      Some (out' @ map (\<lambda>j. \<lparr>carved_kind = magic_kind sig, carved_offset = base + of_nat j\<rparr>)
        (filter (\<lambda>j. ws ! (j - Suc i) = magic sig) [Suc i..<Suc i + length ws]))" for out'
    using Cons.prems by (intro Cons.IH) simp
  ultimately show ?case unfolding step by simp
qed simp

lemma hits_windows:
  assumes "magic sig \<noteq> []" and "length (magic sig) \<le> length data"
  shows "filter (\<lambda>j. windows (length (magic sig)) data ! j = magic sig)
      [0..<length (windows (length (magic sig)) data)] =
    filter (occurs_at (magic sig) data) [0..<length data]"
proof -
  let ?n = "length (magic sig)" and ?k = "Suc (length data) - length (magic sig)"
  have k: "?k \<le> length data" using assms by (cases "magic sig") auto
  have "filter (occurs_at (magic sig) data) [?k..<length data] = []"
    by (auto simp: filter_empty_conv occurs_at_def)
  moreover have "[0..<length data] = [0..<?k] @ [?k..<length data]"
    using k by (metis le0 le_Suc_ex upt_add_eq_append)
  ultimately have "filter (occurs_at (magic sig) data) [0..<length data] =
      filter (occurs_at (magic sig) data) [0..<?k]" by simp
  also have "\<dots> = filter (\<lambda>j. windows ?n data ! j = magic sig) [0..<?k]"
    using assms by (intro filter_cong) (auto simp: occurs_at_def)
  finally show ?thesis by simp
qed

lemma hits_empty: "length data < length (magic sig) \<Longrightarrow> hits data base sig = []"
  by (auto simp: hits_def occurs_at_def filter_empty_conv)

lemma carve_sigs_eq:
  assumes "unat base + length data < 2 ^ 64" and "\<forall>sig \<in> set sigs. magic sig \<noteq> []"
  shows "carve_sigs sigs data base out = Some (out @ concat (map (hits data base) sigs))"
  using assms(2)
proof (induction sigs arbitrary: out)
  case (Cons sig sigs)
  show ?case
  proof (cases "length data < length (magic sig)")
    case True
    with Cons show ?thesis by (simp add: hits_empty)
  next
    case False
    have "carve_windows sig base 0 (windows (length (magic sig)) data) out =
        Some (out @ hits data base sig)"
      using False assms(1) Cons.prems hits_windows [of sig data]
      by (subst carve_windows_eq) (auto simp: hits_def)
    with False Cons show ?thesis by simp
  qed
qed simp

lemma FILE_MAGICS_long: "\<forall>sig \<in> set FILE_MAGICS. 3 \<le> length (magic sig)"
  by (simp add: FILE_MAGICS_def)

lemma carve_eq:
  assumes "unat base + length data < 2 ^ 64"
  shows "carve data base = Some (sort_key carved_offset (concat (map (hits data base) FILE_MAGICS)))"
proof -
  have "\<forall>sig \<in> set FILE_MAGICS. magic sig \<noteq> []" using FILE_MAGICS_long by fastforce
  with assms show ?thesis by (simp add: carve_def carve_sigs_eq)
qed

lemma in_hits_iff:
  assumes "unat base + length data < 2 ^ 64" and "magic sig \<noteq> []"
  shows "c \<in> set (hits data base sig) \<longleftrightarrow>
    carved_kind c = magic_kind sig \<and> unat base \<le> unat (carved_offset c)
    \<and> occurs_at (magic sig) data (unat (carved_offset c) - unat base)"
proof -
  have off: "unat (base + of_nat i) = unat base + i" if "i < length data" for i
    using that assms(1) by (simp add: unat_add_no_overflow unat_of_nat_small)
  have inj: "o' = base + of_nat (unat o' - unat base)" if "unat base \<le> unat o'" for o' :: u64
    using that by (simp add: of_nat_diff of_nat_unat)
  have lt: "i < length data" if "occurs_at (magic sig) data i" for i
    using that assms(2) by (cases "magic sig") (auto simp: occurs_at_def)
  show ?thesis
  proof
    assume "c \<in> set (hits data base sig)"
    then show "carved_kind c = magic_kind sig \<and> unat base \<le> unat (carved_offset c)
        \<and> occurs_at (magic sig) data (unat (carved_offset c) - unat base)"
      by (auto simp: hits_def off)
  next
    assume r: "carved_kind c = magic_kind sig \<and> unat base \<le> unat (carved_offset c)
        \<and> occurs_at (magic sig) data (unat (carved_offset c) - unat base)"
    then have "c = \<lparr>carved_kind = magic_kind sig,
        carved_offset = base + of_nat (unat (carved_offset c) - unat base)\<rparr>"
      using inj by (cases c) auto
    with r lt show "c \<in> set (hits data base sig)"
      unfolding hits_def by (auto intro!: image_eqI)
  qed
qed

subsection \<open>Correctness of string extraction\<close>

abbreviation printable :: "u8 \<Rightarrow> bool" where
  "printable b \<equiv> ASCII_MIN \<le> b \<and> b \<le> ASCII_MAX"

function runs :: "('a \<Rightarrow> bool) \<Rightarrow> 'a list \<Rightarrow> 'a list list" where
  "runs P xs = takeWhile P xs # (case dropWhile P xs of [] \<Rightarrow> [] | y # ys \<Rightarrow> runs P ys)"
  by pat_completeness auto
termination
proof (relation "measure (\<lambda>(P, xs). length xs)", goal_cases)
  case (2 P xs y ys)
  then show ?case using length_dropWhile_le [of P xs] by simp
qed simp

declare runs.simps [simp del]

definition is_run :: "('a \<Rightarrow> bool) \<Rightarrow> 'a list \<Rightarrow> 'a list \<Rightarrow> bool" where
  "is_run P xs r \<longleftrightarrow> (\<forall>x \<in> set r. P x) \<and> (\<exists>pre suf. xs = pre @ r @ suf
     \<and> (pre = [] \<or> \<not> P (last pre)) \<and> (suf = [] \<or> \<not> P (hd suf)))"

lemma takeWhile_is_run: "is_run P xs (takeWhile P xs)"
proof -
  have "xs = [] @ takeWhile P xs @ dropWhile P xs" by simp
  moreover have "dropWhile P xs = [] \<or> \<not> P (hd (dropWhile P xs))"
    using hd_dropWhile by blast
  ultimately show ?thesis unfolding is_run_def using set_takeWhileD by metis
qed

lemma is_run_step:
  assumes "dropWhile P xs = y # ys" and "is_run P ys r"
  shows "is_run P xs r"
proof -
  obtain pre suf where ys: "ys = pre @ r @ suf" and r: "\<forall>x \<in> set r. P x"
    and pre: "pre = [] \<or> \<not> P (last pre)" and suf: "suf = [] \<or> \<not> P (hd suf)"
    using assms(2) unfolding is_run_def by blast
  have "\<not> P y" using assms(1) by (metis hd_dropWhile list.sel(1) list.distinct(1))
  with pre have "\<not> P (last (takeWhile P xs @ y # pre))" by auto
  moreover have "xs = (takeWhile P xs @ y # pre) @ r @ suf"
    using takeWhile_dropWhile_id [of P xs] assms(1) ys by simp
  ultimately show ?thesis using r suf unfolding is_run_def by blast
qed

lemma is_run_cases:
  assumes "is_run P xs r"
  shows "r = takeWhile P xs \<or> (\<exists>y ys. dropWhile P xs = y # ys \<and> is_run P ys r)"
proof -
  obtain pre suf where xs: "xs = pre @ r @ suf" and r: "\<forall>x \<in> set r. P x"
    and pre: "pre = [] \<or> \<not> P (last pre)" and suf: "suf = [] \<or> \<not> P (hd suf)"
    using assms unfolding is_run_def by blast
  show ?thesis
  proof (cases "\<forall>x \<in> set pre. P x")
    case True
    with pre have "pre = []" using last_in_set by blast
    with xs r suf have "r = takeWhile P xs"
      by (cases suf) (auto simp: takeWhile_append takeWhile_eq_all_conv [THEN iffD2])
    then show ?thesis by blast
  next
    case False
    then obtain y pre' where dw: "dropWhile P pre = y # pre'"
      by (metis dropWhile_eq_Nil_conv list.exhaust)
    then have "dropWhile P xs = y # (pre' @ r @ suf)"
      using False xs by (metis dropWhile_append1 append_Cons)
    moreover have "is_run P (pre' @ r @ suf) r"
    proof -
      have "last pre = last (y # pre')"
        using takeWhile_dropWhile_id [of P pre] dw by (metis last_append list.distinct(1))
      then have "pre' = [] \<or> \<not> P (last pre')" using pre False by (cases pre') auto
      then show ?thesis using r suf unfolding is_run_def by blast
    qed
    ultimately show ?thesis by blast
  qed
qed

lemma in_set_runs_iff: "r \<in> set (runs P xs) \<longleftrightarrow> is_run P xs r"
proof (induction P xs rule: runs.induct)
  case (1 P xs)
  have "r \<in> set (runs P xs) \<longleftrightarrow>
      r = takeWhile P xs \<or> (\<exists>y ys. dropWhile P xs = y # ys \<and> r \<in> set (runs P ys))"
    unfolding runs.simps [of P xs] by (cases "dropWhile P xs") (simp_all del: dropWhile_eq_Nil_conv)
  also have "\<dots> \<longleftrightarrow> r = takeWhile P xs \<or> (\<exists>y ys. dropWhile P xs = y # ys \<and> is_run P ys r)"
    using "1.IH" by metis
  also have "\<dots> \<longleftrightarrow> is_run P xs r"
    using is_run_cases is_run_step takeWhile_is_run by metis
  finally show ?case .
qed

definition text_of :: "u8 list \<Rightarrow> string" where
  "text_of r = map (\<lambda>b. char_of (unat b)) r"

lemma extract_loop_eq:
  "(case extract_loop data m run out of (run', out') \<Rightarrow> snd (flush run' m out')) =
     out @ map text_of (filter (\<lambda>r. m \<le> length r)
       ((run @ takeWhile printable data) # tl (runs printable data)))"
proof (induction data arbitrary: run out)
  case Nil
  show ?case by (simp add: flush_def text_of_def runs.simps)
next
  case (Cons b data)
  show ?case
  proof (cases "printable b")
    case True
    then have "tl (runs printable (b # data)) = tl (runs printable data)"
      by (subst (1 2) runs.simps) simp
    with True Cons show ?thesis by simp
  next
    case False
    then have "tl (runs printable (b # data)) = runs printable data"
      by (subst runs.simps) auto
    also have "\<dots> = takeWhile printable data # tl (runs printable data)"
      by (subst (1 2) runs.simps) simp
    finally show ?thesis
      using False Cons [of "[]"] by (auto simp: flush_def text_of_def)
  qed
qed

lemma extract_ascii_strings_eq:
  "extract_ascii_strings data m =
     map text_of (filter (\<lambda>r. m \<le> length r) (runs printable data))"
proof -
  have "runs printable data = ([] @ takeWhile printable data) # tl (runs printable data)"
    by (subst (1 2) runs.simps) simp
  then show ?thesis
    using extract_loop_eq [where data = data and m = m and run = "[]" and out = "[]"]
    unfolding extract_ascii_strings_def by simp
qed

subsection \<open>Properties\<close>

text \<open>
  C31 (functional): carving is sound and complete.  Over a region whose end has a 64-bit
  offset it never panics, reports exactly the positions at which a known magic occurs, each with
  its type and absolute disk offset, in ascending order of offset.
\<close>
theorem carve_sound_complete:
  assumes "unat base + length data < 2 ^ 64"
  shows "\<exists>out. carve data base = Some out \<and> sorted (map carved_offset out)
    \<and> (\<forall>c. c \<in> set out \<longleftrightarrow> (\<exists>sig \<in> set FILE_MAGICS. carved_kind c = magic_kind sig
         \<and> unat base \<le> unat (carved_offset c)
         \<and> occurs_at (magic sig) data (unat (carved_offset c) - unat base)))"
proof (intro exI conjI allI)
  let ?out = "sort_key carved_offset (concat (map (hits data base) FILE_MAGICS))"
  show "carve data base = Some ?out" by (rule carve_eq [OF assms])
  show "sorted (map carved_offset ?out)" by simp
  fix c
  have "magic sig \<noteq> []" if "sig \<in> set FILE_MAGICS" for sig
    using that FILE_MAGICS_long by fastforce
  then show "c \<in> set ?out \<longleftrightarrow> (\<exists>sig \<in> set FILE_MAGICS. carved_kind c = magic_kind sig
         \<and> unat base \<le> unat (carved_offset c)
         \<and> occurs_at (magic sig) data (unat (carved_offset c) - unat base))"
    using in_hits_iff [OF assms] by auto
qed

theorem carve_sound_complete_witness:
  "unat (512 :: u64) + length ([0, 0x42, 0x5A, 0x68] :: u8 list) < 2 ^ 64
   \<and> (\<exists>out. carve [0, 0x42, 0x5A, 0x68] 512 = Some out
        \<and> \<lparr>carved_kind = ''BZIP2'', carved_offset = 513\<rparr> \<in> set out)"
proof -
  let ?d = "[0, 0x42, 0x5A, 0x68] :: u8 list"
  have len: "unat (512 :: u64) + length ?d < 2 ^ 64" by simp
  from carve_sound_complete [OF len] obtain out where out: "carve ?d 512 = Some out"
    and iff: "\<forall>c. c \<in> set out \<longleftrightarrow> (\<exists>sig \<in> set FILE_MAGICS. carved_kind c = magic_kind sig
         \<and> unat (512 :: u64) \<le> unat (carved_offset c)
         \<and> occurs_at (magic sig) ?d (unat (carved_offset c) - unat (512 :: u64)))" by blast
  have "\<lparr>magic_kind = ''BZIP2'', magic = ascii ''BZh''\<rparr> \<in> set FILE_MAGICS"
    by (simp add: FILE_MAGICS_def)
  moreover have "occurs_at (ascii ''BZh'') ?d 1" by (simp add: occurs_at_def ascii_def)
  ultimately have "\<lparr>carved_kind = ''BZIP2'', carved_offset = 513\<rparr> \<in> set out"
    unfolding iff [rule_format] by (intro bexI) auto
  with len out show ?thesis by blast
qed

text \<open>
  C32 (functional): string extraction returns the texts of the maximal runs of printable ASCII
  that reach the minimum length, and nothing else: a text is returned exactly when its bytes
  occur in the region, all printable, delimited on both sides by a non-printable byte or the
  region's boundary.
\<close>
theorem extract_ascii_strings_runs:
  "s \<in> set (extract_ascii_strings data min_len) \<longleftrightarrow>
     (\<exists>pre r suf. data = pre @ r @ suf \<and> s = map (\<lambda>b. char_of (unat b)) r \<and> min_len \<le> length r
        \<and> list_all (\<lambda>b. 0x20 \<le> b \<and> b \<le> 0x7E) r
        \<and> \<not> (pre \<noteq> [] \<and> 0x20 \<le> last pre \<and> last pre \<le> 0x7E)
        \<and> \<not> (suf \<noteq> [] \<and> 0x20 \<le> hd suf \<and> hd suf \<le> 0x7E))"
  unfolding extract_ascii_strings_eq set_map set_filter in_set_runs_iff is_run_def text_of_def
    ASCII_MIN_def ASCII_MAX_def list_all_iff by blast

end
