(* ===== verification/Vbr.thy ===== *)
theory Vbr
  imports Prelude
begin

text \<open>
  Volume boot records (\<open>core/src/vbr.rs\<close>): the BIOS parameter block of a FAT or NTFS
  volume and its plausibility checks.
\<close>

record bpb =
  bytes_per_sector :: u16
  sectors_per_cluster :: u8
  reserved_sectors :: u16
  hidden_sectors :: u32

text \<open>\<open>u8::is_power_of_two\<close>: exactly one bit is set.\<close>

definition is_power_of_two :: "u8 \<Rightarrow> bool" where
  "is_power_of_two w \<longleftrightarrow> length (filter (bit w) [0..<8]) = 1"

definition parse_bpb :: "u8 list \<Rightarrow> bpb option option" where
  "parse_bpb s =
     (if length s < 512 then Some None
      else do {
        s0 \<leftarrow> index s 510;
        s1 \<leftarrow> index s 511;
        if s0 \<noteq> 0x55 \<or> s1 \<noteq> 0xAA then Some None
        else do {
          b0 \<leftarrow> index s 11;
          b1 \<leftarrow> index s 12;
          let bytes_per_sector = from_le_bytes [b0, b1];
          if \<not> (bytes_per_sector = 512 \<or> bytes_per_sector = 1024 \<or> bytes_per_sector = 2048
                \<or> bytes_per_sector = 4096) then Some None
          else do {
            sectors_per_cluster \<leftarrow> index s 13;
            if \<not> is_power_of_two sectors_per_cluster then Some None
            else do {
              r0 \<leftarrow> index s 14;
              r1 \<leftarrow> index s 15;
              h0 \<leftarrow> index s 28;
              h1 \<leftarrow> index s 29;
              h2 \<leftarrow> index s 30;
              h3 \<leftarrow> index s 31;
              Some (Some \<lparr>bytes_per_sector = bytes_per_sector,
                          sectors_per_cluster = sectors_per_cluster,
                          reserved_sectors = from_le_bytes [r0, r1],
                          hidden_sectors = from_le_bytes [h0, h1, h2, h3]\<rparr>)
            }
          }
        }
      })"

subsection \<open>Lemmas\<close>

lemma is_power_of_two_iff: "is_power_of_two w \<longleftrightarrow> (\<exists>k < 8. w = 2 ^ k)"
proof
  assume "is_power_of_two w"
  then obtain k where k: "filter (bit w) [0..<8] = [k]"
    by (auto simp: is_power_of_two_def length_Suc_conv)
  then have "{i. i < 8 \<and> bit w i} = {k}"
    using set_filter [of "bit w" "[0..<8]"] by auto
  then have "bit w i \<longleftrightarrow> i = k" if "i < 8" for i using that by auto
  moreover have "k < 8" using \<open>{i. i < 8 \<and> bit w i} = {k}\<close> by auto
  ultimately have "w = 2 ^ k"
    by (intro bit_word_eqI) (auto simp: bit_simps)
  with \<open>k < 8\<close> show "\<exists>k < 8. w = 2 ^ k" by blast
next
  assume "\<exists>k < 8. w = 2 ^ k"
  then obtain k where "k < 8" "w = 2 ^ k" by blast
  then have "bit w i \<longleftrightarrow> i = k" if "i < 8" for i
    using that by (auto simp: bit_simps)
  then have "filter (bit w) [0..<8] = filter (\<lambda>i. i = k) [0..<8]"
    by (intro filter_cong) auto
  also have "length \<dots> = card {i. i < 8 \<and> i = k}"
    by (subst distinct_card [symmetric]) (auto intro: arg_cong [where f = card])
  also have "{i. i < 8 \<and> i = k} = {k}" using \<open>k < 8\<close> by auto
  finally show "is_power_of_two w" by (simp add: is_power_of_two_def)
qed

definition plausible_bpb :: "u8 list \<Rightarrow> bool" where
  "plausible_bpb s \<longleftrightarrow> 512 \<le> length s \<and> s ! 510 = 0x55 \<and> s ! 511 = 0xAA
     \<and> le_nat [s ! 11, s ! 12] \<in> {512, 1024, 2048, 4096} \<and> (\<exists>k < 8. s ! 13 = 2 ^ k)"

lemma from_le_bytes_2_eq_iff:
  "(from_le_bytes [a, b] :: u16) = w \<longleftrightarrow> le_nat [a, b] = unat w"
  using unat_from_le_bytes [of "[a, b]", where 'a = 16]
  by (subst unat_inject [symmetric]) (simp del: le_nat.simps)

lemma parse_bpb_eq:
  "parse_bpb s =
     Some (if plausible_bpb s
           then Some \<lparr>bytes_per_sector = from_le_bytes [s ! 11, s ! 12],
                      sectors_per_cluster = s ! 13,
                      reserved_sectors = from_le_bytes [s ! 14, s ! 15],
                      hidden_sectors = from_le_bytes [s ! 28, s ! 29, s ! 30, s ! 31]\<rparr>
           else None)"
proof (cases "length s < 512")
  case True
  then show ?thesis by (simp add: parse_bpb_def plausible_bpb_def)
next
  case False
  then show ?thesis
    by (simp add: parse_bpb_def plausible_bpb_def is_power_of_two_iff from_le_bytes_2_eq_iff Let_def
        del: le_nat.simps) blast
qed


subsection \<open>Properties\<close>

text \<open>
  Further fact (functional): parsing a parameter block never panics.  It accepts exactly the sectors
  of at least 512 bytes with the boot signature, 512, 1024, 2048 or 4096 bytes per sector and a
  power of two of sectors per cluster, and then reads each field at its documented offset.
\<close>
theorem parse_bpb_cases:
  "parse_bpb s =
     Some (if plausible_bpb s
           then Some \<lparr>bytes_per_sector = from_le_bytes [s ! 11, s ! 12],
                      sectors_per_cluster = s ! 13,
                      reserved_sectors = from_le_bytes [s ! 14, s ! 15],
                      hidden_sectors = from_le_bytes [s ! 28, s ! 29, s ! 30, s ! 31]\<rparr>
           else None)"
  by (rule parse_bpb_eq)

end
