(* ===== verification/Gpt.thy ===== *)
theory Gpt
  imports Prelude
begin

text \<open>GPT cross-validation primitives (\<open>core/src/gpt.rs\<close>).\<close>

definition PROTECTIVE_TYPE_CODE :: u8 where
  "PROTECTIVE_TYPE_CODE = 0xEE"

definition GPT_HEADER_MAGIC :: "u8 list" where
  "GPT_HEADER_MAGIC = ascii ''EFI PART''"

definition has_gpt_header :: "u8 list \<Rightarrow> bool" where
  "has_gpt_header lba1 \<longleftrightarrow>
     length GPT_HEADER_MAGIC \<le> length lba1 \<and> take (length GPT_HEADER_MAGIC) lba1 = GPT_HEADER_MAGIC"

lemma has_gpt_header_iff: "has_gpt_header s \<longleftrightarrow> (\<exists>rest. s = GPT_HEADER_MAGIC @ rest)"
proof
  assume "has_gpt_header s"
  then show "\<exists>rest. s = GPT_HEADER_MAGIC @ rest"
    unfolding has_gpt_header_def by (metis append_take_drop_id)
qed (auto simp: has_gpt_header_def)

end
