(* ===== verification/Analyse.thy ===== *)
theory Analyse
  imports Findings Carve Vbr Gpt
begin

text \<open>
  The analysis pipeline (\<open>forensic/src/analyse.rs\<close>) and its fuzz target
  (\<open>fuzz/fuzz_targets/fuzz_forensic.rs\<close>).  Every stage takes and returns the state of the
  reader and the anomalies recorded so far, in the order of the code.
\<close>

subsection \<open>The environment\<close>

text \<open>
  What the pipeline calls in other crates: the caller's reader, the lookups of
  \<open>forensicnomicon\<close> (boot loaders, filesystem magics, type names, boot-kit markers, volume
  serials, volume encryption), the GPT analysis of \<open>gpt_partition_forensic\<close> (its \<open>Ok\<close> value, if
  any; an outer \<^const>\<open>None\<close> is a call that does not return), and floating-point arithmetic.
\<close>

record ('r, 'vs, 'enc, 'gpt) env =
  reader :: "'r reader_ops"
  identify_loader :: "u8 list \<Rightarrow> string option"
  detect_name :: "u8 list \<Rightarrow> string option"
  type_name :: "u8 \<Rightarrow> string option"
  bootkit_scan :: "u8 list \<Rightarrow> string list"
  volume_serial_of :: "u8 list \<Rightarrow> 'vs option"
  detect_encryption :: "u8 list \<Rightarrow> 'enc option"
  gpt_analyse :: "'r \<Rightarrow> u64 \<Rightarrow> 'gpt option option"
  f64 :: f64_env

subsection \<open>Geometry\<close>

definition SECTOR_BYTES :: u64 where "SECTOR_BYTES = of_nat SECTOR_SIZE"
definition PARTITION_TABLE_OFFSET :: u64 where "PARTITION_TABLE_OFFSET = 446"
definition ENTRY_SIZE :: u64 where "ENTRY_SIZE = 16"
definition RESERVED_FIELD_OFFSET :: u64 where "RESERVED_FIELD_OFFSET = 444"
definition DISK_SERIAL_FIELD_OFFSET :: u64 where "DISK_SERIAL_FIELD_OFFSET = 440"
definition EBR_SLACK_OFFSET :: u64 where "EBR_SLACK_OFFSET = 478"
definition EBR_INDEX_BASE :: nat where "EBR_INDEX_BASE = 4"
definition PROTECTIVE_UNDERSIZE_TOLERANCE :: u64 where "PROTECTIVE_UNDERSIZE_TOLERANCE = 2048"
definition GAP_SAMPLE_BYTES :: nat where "GAP_SAMPLE_BYTES = 4096"
definition FS_FINGERPRINT_BYTES :: nat where "FS_FINGERPRINT_BYTES = 65600 + 8"

lemmas analyse_consts = SECTOR_BYTES_def PARTITION_TABLE_OFFSET_def ENTRY_SIZE_def
  RESERVED_FIELD_OFFSET_def DISK_SERIAL_FIELD_OFFSET_def EBR_SLACK_OFFSET_def EBR_INDEX_BASE_def
  PROTECTIVE_UNDERSIZE_TOLERANCE_def GAP_SAMPLE_BYTES_def FS_FINGERPRINT_BYTES_def

definition lba_to_byte :: "u64 \<Rightarrow> u64 \<Rightarrow> u64" where
  "lba_to_byte lba sector_size = saturating_mul lba sector_size"

definition entry_offset :: "nat \<Rightarrow> u64 option" where
  "entry_offset i = do {
     off \<leftarrow> checked_mul (of_nat i) ENTRY_SIZE;
     checked_add PARTITION_TABLE_OFFSET off
   }"

definition disk_last_lba :: "u64 \<Rightarrow> u64 \<Rightarrow> u64 option" where
  "disk_last_lba disk_size_bytes sector_size =
     (if 0 < disk_size_bytes
      then do {
        sectors \<leftarrow> checked_div disk_size_bytes sector_size;
        Some (saturating_sub sectors 1)
      }
      else Some (- 1))"

subsection \<open>Accumulators and options\<close>

definition record_finding ::
  "('r, 'vs, 'enc, 'gpt) env \<Rightarrow> anomaly_kind \<Rightarrow> u64 \<Rightarrow> anomaly list \<Rightarrow> anomaly list" where
  "record_finding env kind off fs = fs @ [anomaly_new (type_name env) kind off]"

record ('vs, 'enc) primary_scan =
  sc_extents :: "(u64 \<times> u64) list"
  sc_overlap_extents :: "(nat \<times> u64 \<times> u64) list"
  sc_summaries :: "('vs, 'enc) partition_summary list"

record analyse_options =
  opt_sector_size :: u64

definition default_options :: analyse_options where
  "default_options = \<lparr>opt_sector_size = SECTOR_BYTES\<rparr>"

subsection \<open>Reading\<close>

definition read_first_sector ::
  "'r reader_ops \<Rightarrow> 'r \<Rightarrow> u64 \<Rightarrow> ((error + u8 list) \<times> 'r) option" where
  "read_first_sector ops r byte_offset =
     (case seek_start ops r byte_offset of
        (Inl e, r) \<Rightarrow> Some (Inl (Io e), r)
      | (Inr _, r) \<Rightarrow> do {
          (res, r) \<leftarrow> read_exact ops r SECTOR_SIZE;
          case res of Inl e \<Rightarrow> Some (Inl (Io e), r) | Inr buf \<Rightarrow> Some (Inr buf, r)
        })"

text \<open>
  The fill loop: \<open>n\<close> bytes of the buffer are free and \<open>acc\<close> is the filled part.  A reader that
  claims more than it was offered has filled the buffer.
\<close>

partial_function (option) fingerprint_loop ::
  "'r reader_ops \<Rightarrow> 'r \<Rightarrow> nat \<Rightarrow> u8 list \<Rightarrow> ((error + u8 list) \<times> 'r) option" where
  "fingerprint_loop ops r n acc =
     (if n = 0 then Some (Inr acc, r)
      else case read_some ops r n of
        (Inl e, r') \<Rightarrow>
          if e = Interrupted then fingerprint_loop ops r' n acc else Some (Inl (Io e), r')
      | (Inr bs, r') \<Rightarrow>
          if bs = [] then Some (Inr acc, r')
          else fingerprint_loop ops r' (n - length bs) (acc @ take n bs))"

definition read_fingerprint ::
  "'r reader_ops \<Rightarrow> 'r \<Rightarrow> u64 \<Rightarrow> nat \<Rightarrow> ((error + u8 list) \<times> 'r) option" where
  "read_fingerprint ops r byte_offset max_len =
     (case seek_start ops r byte_offset of
        (Inl e, r) \<Rightarrow> Some (Inl (Io e), r)
      | (Inr _, r) \<Rightarrow> fingerprint_loop ops r max_len [])"

definition read_mbr :: "'r reader_ops \<Rightarrow> 'r \<Rightarrow> ((error + mbr_sector) \<times> 'r) option" where
  "read_mbr ops r =
     (case seek_start ops r 0 of
        (Inl e, r) \<Rightarrow> Some (Inl (Io e), r)
      | (Inr _, r) \<Rightarrow> do {
          (res, r) \<leftarrow> read_exact ops r SECTOR_SIZE;
          case res of
            Inl e \<Rightarrow> Some (Inl (Io e), r)
          | Inr raw \<Rightarrow> do { m \<leftarrow> parse_mbr_sector raw; Some (m, r) }
        })"

definition gpt_header_present :: "'r reader_ops \<Rightarrow> 'r \<Rightarrow> u64 \<Rightarrow> (bool \<times> 'r) option" where
  "gpt_header_present ops r sector_size = do {
     (res, r) \<leftarrow> read_first_sector ops r sector_size;
     case res of Inr lba1 \<Rightarrow> Some (has_gpt_header lba1, r) | Inl _ \<Rightarrow> Some (False, r)
   }"

subsection \<open>Checks of the boot record\<close>

definition first_partition_lba :: "mbr_sector \<Rightarrow> u64 option" where
  "first_partition_lba m =
     iter_min (map (\<lambda>e. ucast (lba_start e))
       (filter (\<lambda>e. \<not> is_empty e \<and> \<not> is_extended e
                   \<and> type_byte (type_code e) \<noteq> PROTECTIVE_TYPE_CODE) (entries m)))"

definition is_pure_protective_mbr :: "mbr_sector \<Rightarrow> bool" where
  "is_pure_protective_mbr m =
     (case filter (\<lambda>e. \<not> is_empty e) (entries m) of
        [e] \<Rightarrow> type_byte (type_code e) = PROTECTIVE_TYPE_CODE
      | _ \<Rightarrow> False)"

definition boot_code_head_hex :: "u8 list \<Rightarrow> string" where
  "boot_code_head_hex code = intercalate '' '' (map fmt_02x (take 16 code))"

definition check_boot_code ::
  "('r, 'vs, 'enc, 'gpt) env \<Rightarrow> mbr_sector \<Rightarrow> boot_code_id \<Rightarrow> bool \<Rightarrow> anomaly list
     \<Rightarrow> anomaly list option" where
  "check_boot_code env m bid on_gpt_disk fs = do {
     let kind = (case bid of
         BcAllZeros \<Rightarrow> if on_gpt_disk then Some EmptyProtectiveBootCode else Some WipedBootCode
       | BcAllOnes \<Rightarrow> Some ErasedBootCode
       | BcUnknown \<Rightarrow> Some (UnknownBootCode (boot_code_head_hex (boot_code m)))
       | _ \<Rightarrow> None);
     let fs = (case kind of Some kind \<Rightarrow> record_finding env kind 0 fs | None \<Rightarrow> fs);
     fs \<leftarrow> (if bid = BcUnknown
       then do {
         entropy \<leftarrow> shannon (f64 env) (boot_code m);
         Some (if HIGH_ENTROPY_THRESHOLD < entropy
               then record_finding env (HighEntropySlack 0 entropy) 0 fs else fs)
       }
       else Some fs);
     Some (foldl (\<lambda>fs name. record_finding env (KnownBootkit name) 0 fs) fs
       (bootkit_scan env (boot_code m)))
   }"

definition check_disk_signature ::
  "('r, 'vs, 'enc, 'gpt) env \<Rightarrow> mbr_sector \<Rightarrow> boot_code_id \<Rightarrow> anomaly list \<Rightarrow> anomaly list" where
  "check_disk_signature env m bid fs =
     (let is_windows = (bid = WindowsVista \<or> bid = Windows7Plus) in
      if is_windows \<and> disk_serial m = 0
      then record_finding env ZeroDiskSignature DISK_SERIAL_FIELD_OFFSET fs else fs)"

primrec position :: "('a \<Rightarrow> bool) \<Rightarrow> 'a list \<Rightarrow> nat option" where
  "position P [] = None"
| "position P (x # xs) = (if P x then Some 0 else map_option Suc (position P xs))"

definition check_gpt ::
  "('r, 'vs, 'enc, 'gpt) env \<Rightarrow> mbr_sector \<Rightarrow> u64 \<Rightarrow> bool \<Rightarrow> u64 \<Rightarrow> anomaly list
     \<Rightarrow> anomaly list option" where
  "check_gpt env m last_lba header_present sector_size fs =
     (case position (\<lambda>e. \<not> is_empty e \<and> type_byte (type_code e) = PROTECTIVE_TYPE_CODE)
        (entries m) of
        None \<Rightarrow>
          Some (if header_present
                then record_finding env HiddenGpt (lba_to_byte 1 sector_size) fs else fs)
      | Some idx \<Rightarrow> do {
          off \<leftarrow> entry_offset idx;
          if \<not> header_present then Some (record_finding env SpoofedProtectiveMbr off fs)
          else do {
            let extra = length (filter (\<lambda>e. \<not> is_empty e
                          \<and> type_byte (type_code e) \<noteq> PROTECTIVE_TYPE_CODE) (entries m));
            let fs = (if 0 < extra then record_finding env (HybridMbr extra) off fs else fs);
            ee \<leftarrow> index (entries m) idx;
            let covered_last_lba = (ucast (lba_end ee) :: u64);
            let spans_disk = (lba_count ee = - 1);
            Some (if last_lba \<noteq> - 1 \<and> \<not> spans_disk
                    \<and> PROTECTIVE_UNDERSIZE_TOLERANCE < saturating_sub last_lba covered_last_lba
                  then record_finding env (ProtectiveMbrUndersized covered_last_lba last_lba) off fs
                  else fs)
          }
        })"

fun duplicates_of ::
  "('r, 'vs, 'enc, 'gpt) env \<Rightarrow> partition_entry list \<Rightarrow> nat \<Rightarrow> nat list \<Rightarrow> anomaly list
     \<Rightarrow> anomaly list option" where
  "duplicates_of env es a [] fs = Some fs"
| "duplicates_of env es a (b # bs) fs = do {
     ea \<leftarrow> index es a;
     eb \<leftarrow> index es b;
     fs \<leftarrow> (if \<not> is_empty eb \<and> lba_start ea = lba_start eb \<and> lba_count ea = lba_count eb
       then do {
         off \<leftarrow> entry_offset a;
         Some (record_finding env (DuplicatePartitionEntry a b) off fs)
       }
       else Some fs);
     duplicates_of env es a bs fs
   }"

fun duplicates_loop ::
  "('r, 'vs, 'enc, 'gpt) env \<Rightarrow> partition_entry list \<Rightarrow> nat list \<Rightarrow> anomaly list
     \<Rightarrow> anomaly list option" where
  "duplicates_loop env es [] fs = Some fs"
| "duplicates_loop env es (a # as) fs = do {
     ea \<leftarrow> index es a;
     fs \<leftarrow> (if is_empty ea then Some fs else duplicates_of env es a [a + 1..<length es] fs);
     duplicates_loop env es as fs
   }"

definition check_duplicate_entries ::
  "('r, 'vs, 'enc, 'gpt) env \<Rightarrow> mbr_sector \<Rightarrow> anomaly list \<Rightarrow> anomaly list option" where
  "check_duplicate_entries env m fs =
     duplicates_loop env (entries m) [0..<length (entries m)] fs"

definition check_reserved ::
  "('r, 'vs, 'enc, 'gpt) env \<Rightarrow> mbr_sector \<Rightarrow> anomaly list \<Rightarrow> anomaly list" where
  "check_reserved env m fs =
     (if reserved m \<noteq> [0, 0]
      then record_finding env (NonZeroReserved (reserved m)) RESERVED_FIELD_OFFSET fs else fs)"

definition check_bootable_flags ::
  "('r, 'vs, 'enc, 'gpt) env \<Rightarrow> mbr_sector \<Rightarrow> anomaly list \<Rightarrow> anomaly list" where
  "check_bootable_flags env m fs =
     (let bootable = length (filter is_bootable (entries m));
          active = length (filter (\<lambda>e. \<not> is_empty e) (entries m));
          fs = (if 1 < bootable
                then record_finding env (MultipleBootable bootable) PARTITION_TABLE_OFFSET fs else fs)
      in if 0 < active \<and> bootable = 0
         then record_finding env NoBootablePartition PARTITION_TABLE_OFFSET fs else fs)"

subsection \<open>Checks of one partition\<close>

definition detect_partition_fs ::
  "('r, 'vs, 'enc, 'gpt) env \<Rightarrow> 'r \<Rightarrow> u64 \<Rightarrow> u64 \<Rightarrow> (detected_fs option \<times> 'r) option" where
  "detect_partition_fs env r byte_offset disk_size_bytes =
     (if disk_size_bytes \<noteq> 0 \<and> disk_size_bytes \<le> byte_offset then Some (None, r)
      else do {
        (res, r) \<leftarrow> read_fingerprint (reader env) r byte_offset FS_FINGERPRINT_BYTES;
        case res of
          Inr buf \<Rightarrow> do { fs \<leftarrow> detect (detect_name env) buf; Some (Some fs, r) }
        | Inl _ \<Rightarrow> Some (None, r)
      })"

definition detect_and_check_fs ::
  "('r, 'vs, 'enc, 'gpt) env \<Rightarrow> 'r \<Rightarrow> nat \<Rightarrow> u64 \<Rightarrow> type_code \<Rightarrow> u64 \<Rightarrow> anomaly list
     \<Rightarrow> (detected_fs option \<times> 'r \<times> anomaly list) option" where
  "detect_and_check_fs env r i byte_offset declared disk_size_bytes fs = do {
     (detected_fs, r) \<leftarrow> detect_partition_fs env r byte_offset disk_size_bytes;
     let fs = (case detected_fs of
         Some detected \<Rightarrow>
           if type_conflicts (family declared) detected
           then record_finding env (SignatureMismatch i declared detected) byte_offset fs else fs
       | None \<Rightarrow> fs);
     Some (detected_fs, r, fs)
   }"

definition partition_volume ::
  "('r, 'vs, 'enc, 'gpt) env \<Rightarrow> 'r \<Rightarrow> u64 \<Rightarrow> u64 \<Rightarrow> (('vs option \<times> 'enc option) \<times> 'r) option" where
  "partition_volume env r byte_offset disk_size_bytes =
     (if disk_size_bytes \<noteq> 0 \<and> disk_size_bytes \<le> byte_offset then Some ((None, None), r)
      else do {
        (res, r) \<leftarrow> read_fingerprint (reader env) r byte_offset FS_FINGERPRINT_BYTES;
        case res of
          Inr buf \<Rightarrow> Some ((volume_serial_of env buf, detect_encryption env buf), r)
        | Inl _ \<Rightarrow> Some ((None, None), r)
      })"

definition check_chs_lba ::
  "('r, 'vs, 'enc, 'gpt) env \<Rightarrow> nat \<Rightarrow> partition_entry \<Rightarrow> anomaly list \<Rightarrow> anomaly list option" where
  "check_chs_lba env i e fs = do {
     first \<leftarrow> chs_consistency (chs_first e) (lba_start e) STD_HEADS_PER_CYL STD_SECTORS_PER_TRACK;
     last_v \<leftarrow> chs_consistency (chs_last e) (lba_end e) STD_HEADS_PER_CYL STD_SECTORS_PER_TRACK;
     if first = Inconsistent \<or> last_v = Inconsistent
     then do {
       off \<leftarrow> entry_offset i;
       Some (record_finding env (ChsLbaInconsistency i) off fs)
     }
     else Some fs
   }"

definition check_vbr ::
  "('r, 'vs, 'enc, 'gpt) env \<Rightarrow> 'r \<Rightarrow> nat \<Rightarrow> u64 \<Rightarrow> u64 \<Rightarrow> u64 \<Rightarrow> anomaly list
     \<Rightarrow> ('r \<times> anomaly list) option" where
  "check_vbr env r i start byte_offset disk_size_bytes fs =
     (if disk_size_bytes \<noteq> 0 \<and> disk_size_bytes \<le> byte_offset then Some (r, fs)
      else do {
        (res, r) \<leftarrow> read_first_sector (reader env) r byte_offset;
        case res of
          Inl _ \<Rightarrow> Some (r, fs)
        | Inr sec \<Rightarrow> do {
            parsed \<leftarrow> parse_bpb sec;
            case parsed of
              None \<Rightarrow> Some (r, fs)
            | Some bpb \<Rightarrow>
                Some (r, if hidden_sectors bpb \<noteq> 0 \<and> ucast (hidden_sectors bpb) \<noteq> start
                         then record_finding env
                           (VbrHiddenSectorsMismatch i (hidden_sectors bpb) start) byte_offset fs
                         else fs)
          }
      })"

subsection \<open>The primary table\<close>

definition scan_entry ::
  "('r, 'vs, 'enc, 'gpt) env \<Rightarrow> u64 \<Rightarrow> u64 \<Rightarrow> u64 \<Rightarrow> nat \<Rightarrow> partition_entry
     \<Rightarrow> 'r \<times> anomaly list \<times> ('vs, 'enc) primary_scan
     \<Rightarrow> ('r \<times> anomaly list \<times> ('vs, 'enc) primary_scan) option" where
  "scan_entry env disk_size_bytes last_lba sector_size i e st = do {
     let (r, fs, sc) = st;
     off \<leftarrow> entry_offset i;
     if type_is_empty (type_code e) \<and> (lba_start e \<noteq> 0 \<or> lba_count e \<noteq> 0)
     then Some (r, record_finding env (ResidualEntry i (lba_start e) (lba_count e)) off fs, sc)
     else if is_empty e then Some (r, fs, sc)
     else do {
       let fs = (if status e \<noteq> 0x00 \<and> status e \<noteq> 0x80
                 then record_finding env (InvalidPartitionStatus i (status e)) off fs else fs);
       fs \<leftarrow> check_chs_lba env i e fs;
       let start = (ucast (lba_start e) :: u64);
       let stop = (ucast (lba_end e) :: u64);
       let byte_offset = lba_to_byte start sector_size;
       let byte_size = lba_to_byte (ucast (lba_count e)) sector_size;
       let fs = (if 0 < disk_size_bytes \<and> last_lba < stop
                 then record_finding env (OutOfBounds i stop last_lba) off fs else fs);
       let sc = sc\<lparr>sc_extents := sc_extents sc @ [(start, stop)]\<rparr>;
       let sc = (if \<not> is_extended e
                 then sc\<lparr>sc_overlap_extents := sc_overlap_extents sc @ [(i, start, stop)]\<rparr> else sc);
       (r, fs) \<leftarrow> check_vbr env r i start byte_offset disk_size_bytes fs;
       (detected_fs, r, fs) \<leftarrow>
         detect_and_check_fs env r i byte_offset (type_code e) disk_size_bytes fs;
       ((serial, encryption), r) \<leftarrow> partition_volume env r byte_offset disk_size_bytes;
       let summary = \<lparr>ps_index = i, ps_lba_start = start, ps_lba_end = stop,
         ps_byte_offset = byte_offset, ps_byte_size = byte_size, ps_declared_type = type_code e,
         ps_detected_fs = detected_fs, ps_volume_serial = serial, ps_encryption = encryption\<rparr>;
       Some (r, fs, sc\<lparr>sc_summaries := sc_summaries sc @ [summary]\<rparr>)
     }
   }"

fun scan_loop ::
  "('r, 'vs, 'enc, 'gpt) env \<Rightarrow> u64 \<Rightarrow> u64 \<Rightarrow> u64 \<Rightarrow> (nat \<times> partition_entry) list
     \<Rightarrow> 'r \<times> anomaly list \<times> ('vs, 'enc) primary_scan
     \<Rightarrow> ('r \<times> anomaly list \<times> ('vs, 'enc) primary_scan) option" where
  "scan_loop env disk_size_bytes last_lba sector_size [] st = Some st"
| "scan_loop env disk_size_bytes last_lba sector_size ((i, e) # es) st = do {
     st \<leftarrow> scan_entry env disk_size_bytes last_lba sector_size i e st;
     scan_loop env disk_size_bytes last_lba sector_size es st
   }"

definition scan_primary_entries ::
  "('r, 'vs, 'enc, 'gpt) env \<Rightarrow> 'r \<Rightarrow> mbr_sector \<Rightarrow> u64 \<Rightarrow> u64 \<Rightarrow> u64 \<Rightarrow> anomaly list
     \<Rightarrow> ('r \<times> anomaly list \<times> ('vs, 'enc) primary_scan) option" where
  "scan_primary_entries env r m disk_size_bytes last_lba sector_size fs =
     scan_loop env disk_size_bytes last_lba sector_size (enumerate 0 (entries m))
       (r, fs, \<lparr>sc_extents = [], sc_overlap_extents = [], sc_summaries = []\<rparr>)"

subsection \<open>The logical partitions\<close>

definition scan_logical ::
  "('r, 'vs, 'enc, 'gpt) env \<Rightarrow> u64 \<Rightarrow> u64 \<Rightarrow> ebr_entry
     \<Rightarrow> 'r \<times> anomaly list \<times> ('vs, 'enc) primary_scan
     \<Rightarrow> ('r \<times> anomaly list \<times> ('vs, 'enc) primary_scan) option" where
  "scan_logical env disk_size_bytes sector_size ebr st = do {
     let (r, fs, sc) = st;
     fs \<leftarrow> (if has_slack ebr
       then do {
         entropy \<leftarrow> shannon (f64 env) (slack ebr);
         off \<leftarrow> checked_add (ebr_offset ebr) EBR_SLACK_OFFSET;
         Some (record_finding env (EbrSlackData (ebr_lba ebr) entropy) off fs)
       }
       else Some fs);
     let start = logical_lba_start ebr;
     let stop = saturating_sub (saturating_add start (ucast (lba_count (logical ebr)))) 1;
     let byte_offset = lba_to_byte start sector_size;
     let i = EBR_INDEX_BASE + length (sc_summaries sc);
     let sc = sc\<lparr>sc_extents := sc_extents sc @ [(start, stop)]\<rparr>;
     let sc = sc\<lparr>sc_overlap_extents := sc_overlap_extents sc @ [(i, start, stop)]\<rparr>;
     (r, fs) \<leftarrow> check_vbr env r i start byte_offset disk_size_bytes fs;
     (detected_fs, r, fs) \<leftarrow>
       detect_and_check_fs env r i byte_offset (type_code (logical ebr)) disk_size_bytes fs;
     ((serial, encryption), r) \<leftarrow> partition_volume env r byte_offset disk_size_bytes;
     let summary = \<lparr>ps_index = i, ps_lba_start = start, ps_lba_end = stop,
       ps_byte_offset = byte_offset,
       ps_byte_size = lba_to_byte (ucast (lba_count (logical ebr))) sector_size,
       ps_declared_type = type_code (logical ebr),
       ps_detected_fs = detected_fs, ps_volume_serial = serial, ps_encryption = encryption\<rparr>;
     Some (r, fs, sc\<lparr>sc_summaries := sc_summaries sc @ [summary]\<rparr>)
   }"

fun logical_loop ::
  "('r, 'vs, 'enc, 'gpt) env \<Rightarrow> u64 \<Rightarrow> u64 \<Rightarrow> ebr_entry list
     \<Rightarrow> 'r \<times> anomaly list \<times> ('vs, 'enc) primary_scan
     \<Rightarrow> ('r \<times> anomaly list \<times> ('vs, 'enc) primary_scan) option" where
  "logical_loop env disk_size_bytes sector_size [] st = Some st"
| "logical_loop env disk_size_bytes sector_size (ebr # ebrs) st = do {
     st \<leftarrow> scan_logical env disk_size_bytes sector_size ebr st;
     logical_loop env disk_size_bytes sector_size ebrs st
   }"

definition walk_extended ::
  "('r, 'vs, 'enc, 'gpt) env \<Rightarrow> 'r \<Rightarrow> mbr_sector \<Rightarrow> ('vs, 'enc) primary_scan \<Rightarrow> u64 \<Rightarrow> u64
     \<Rightarrow> anomaly list
     \<Rightarrow> (ebr_chain \<times> 'r \<times> anomaly list \<times> ('vs, 'enc) primary_scan) option" where
  "walk_extended env r m sc disk_size_bytes sector_size fs =
     (case find is_extended (entries m) of
        None \<Rightarrow> Some (ebr_chain_empty, r, fs, sc)
      | Some ext \<Rightarrow> do {
          let ext_start = (ucast (lba_start ext) :: u64);
          (res, r) \<leftarrow> walk_ebr_chain (reader env) r ext_start sector_size;
          case res of
            Inl _ \<Rightarrow> Some (ebr_chain_empty, r, fs, sc)
          | Inr chain \<Rightarrow> do {
              let ext_offset = lba_to_byte ext_start sector_size;
              let fs = (if had_cycle chain then record_finding env EbrCycle ext_offset fs else fs);
              let fs = (if depth_exceeded chain
                        then record_finding env (EbrExcessiveDepth (length (links chain))) ext_offset fs
                        else fs);
              (r, fs, sc) \<leftarrow> logical_loop env disk_size_bytes sector_size (links chain) (r, fs, sc);
              Some (chain, r, fs, sc)
            }
        })"

subsection \<open>Checks of the layout\<close>

fun overlap_pairs ::
  "('r, 'vs, 'enc, 'gpt) env \<Rightarrow> (nat \<times> u64 \<times> u64) list list \<Rightarrow> anomaly list
     \<Rightarrow> anomaly list option" where
  "overlap_pairs env [] fs = Some fs"
| "overlap_pairs env (pair # pairs) fs = do {
     (a_id, _, a_end) \<leftarrow> index pair 0;
     (b_id, b_start, _) \<leftarrow> index pair 1;
     fs \<leftarrow> (if b_start \<le> a_end
       then do {
         off \<leftarrow> entry_offset (min a_id 3);
         Some (record_finding env (OverlappingPartitions a_id b_id a_end b_start) off fs)
       }
       else Some fs);
     overlap_pairs env pairs fs
   }"

definition check_overlaps ::
  "('r, 'vs, 'enc, 'gpt) env \<Rightarrow> (nat \<times> u64 \<times> u64) list \<Rightarrow> anomaly list
     \<Rightarrow> anomaly list option" where
  "check_overlaps env extents fs =
     overlap_pairs env (windows 2 (sort_key (\<lambda>(_, start, _). start) extents)) fs"

definition gap_anomaly_kind :: "gap \<Rightarrow> anomaly_kind" where
  "gap_anomaly_kind g =
     (case gap_class g of
        PrePartition \<Rightarrow> PrePartitionSpace (gap_lba_start g) (gap_lba_end g) (gap_byte_size g)
      | Between \<Rightarrow> InterPartitionGap (gap_lba_start g) (gap_lba_end g) (gap_byte_size g)
      | PostPartition \<Rightarrow> PostPartitionSpace (gap_lba_start g) (gap_lba_end g) (gap_byte_size g))"

definition check_gaps ::
  "('r, 'vs, 'enc, 'gpt) env \<Rightarrow> (u64 \<times> u64) list \<Rightarrow> u64 \<Rightarrow> u64 \<Rightarrow> u64 \<Rightarrow> anomaly list
     \<Rightarrow> (gap list \<times> anomaly list) option" where
  "check_gaps env extents disk_size_bytes last_lba sector_size fs =
     (if disk_size_bytes = 0 then Some ([], fs)
      else do {
        let sorted_extents = remdups_adj (sort_key fst extents);
        gaps \<leftarrow> compute_gaps sorted_extents 1 last_lba sector_size;
        Some (gaps, foldl (\<lambda>fs g. record_finding env (gap_anomaly_kind g)
                     (lba_to_byte (gap_lba_start g) sector_size) fs) fs gaps)
      })"

fun check_gap_content ::
  "('r, 'vs, 'enc, 'gpt) env \<Rightarrow> u64 \<Rightarrow> 'r \<Rightarrow> gap list \<Rightarrow> anomaly list
     \<Rightarrow> ('r \<times> anomaly list) option" where
  "check_gap_content env sector_size r [] fs = Some (r, fs)"
| "check_gap_content env sector_size r (g # gaps) fs =
     (let byte_offset = lba_to_byte (gap_lba_start g) sector_size;
          sample_len = unat (min (gap_byte_size g) (of_nat GAP_SAMPLE_BYTES)) in
      if sample_len = 0 then check_gap_content env sector_size r gaps fs
      else case seek_start (reader env) r byte_offset of
        (Inl _, r) \<Rightarrow> check_gap_content env sector_size r gaps fs
      | (Inr _, r) \<Rightarrow> do {
          (res, r) \<leftarrow> read_exact (reader env) r sample_len;
          case res of
            Inl _ \<Rightarrow> check_gap_content env sector_size r gaps fs
          | Inr buf \<Rightarrow> do {
              pattern \<leftarrow> classify (f64 env) buf;
              let fs = (if is_deliberate_wipe pattern
                        then record_finding env (WipedRegion (gap_lba_start g) pattern) byte_offset fs
                        else fs);
              artifacts \<leftarrow> carve buf byte_offset;
              let fs = foldl (\<lambda>fs a. record_finding env (CarvedArtifact (carved_kind a))
                                (carved_offset a) fs) fs artifacts;
              check_gap_content env sector_size r gaps fs
            }
        })"

subsection \<open>The pipeline\<close>

definition analyse_with_options ::
  "('r, 'vs, 'enc, 'gpt) env \<Rightarrow> 'r \<Rightarrow> u64 \<Rightarrow> analyse_options
     \<Rightarrow> (error + ('vs, 'enc, 'gpt) mbr_analysis) option" where
  "analyse_with_options env r disk_size_bytes opts = do {
     let sector_size = opt_sector_size opts;
     (res, r) \<leftarrow> read_mbr (reader env) r;
     case res of
       Inl err \<Rightarrow> Some (Inl err)
     | Inr m \<Rightarrow> do {
         let fs = [];
         let boot_code_id = identify (identify_loader env) (boot_code m);
         (gpt_header, r) \<leftarrow> gpt_header_present (reader env) r sector_size;
         let on_gpt_disk = (gpt_header \<and> is_pure_protective_mbr m);
         fs \<leftarrow> check_boot_code env m boot_code_id on_gpt_disk fs;
         let fs = check_disk_signature env m boot_code_id fs;
         let fs = check_reserved env m fs;
         let fs = check_bootable_flags env m fs;
         fs \<leftarrow> check_duplicate_entries env m fs;
         last_lba \<leftarrow> disk_last_lba disk_size_bytes sector_size;
         fs \<leftarrow> check_gpt env m last_lba gpt_header sector_size fs;
         (r, fs, sc) \<leftarrow> scan_primary_entries env r m disk_size_bytes last_lba sector_size fs;
         (chain, r, fs, sc) \<leftarrow> walk_extended env r m sc disk_size_bytes sector_size fs;
         fs \<leftarrow> check_overlaps env (sc_overlap_extents sc) fs;
         (gaps, fs) \<leftarrow> check_gaps env (sc_extents sc) disk_size_bytes last_lba sector_size fs;
         (r, fs) \<leftarrow> check_gap_content env sector_size r gaps fs;
         gpt \<leftarrow> (if gpt_header then gpt_analyse env r disk_size_bytes else Some None);
         Some (Inr \<lparr>ma_mbr = m, ma_partitions = sc_summaries sc, ma_ebr_chain = chain,
                    ma_gaps = gaps, ma_boot_code_id = boot_code_id, ma_disk_serial = disk_serial m,
                    ma_era = infer_era (first_partition_lba m) boot_code_id,
                    ma_gpt = gpt, ma_anomalies = fs\<rparr>)
       }
   }"

definition analyse ::
  "('r, 'vs, 'enc, 'gpt) env \<Rightarrow> 'r \<Rightarrow> u64 \<Rightarrow> (error + ('vs, 'enc, 'gpt) mbr_analysis) option" where
  "analyse env r disk_size_bytes = analyse_with_options env r disk_size_bytes default_options"

text \<open>
  The fuzz target runs \<open>analyse\<close> over the input as an in-memory disk and touches every field of
  the result; only a panic inside \<open>analyse\<close> can make it fail.
\<close>

definition fuzz_forensic :: "(cursor, 'vs, 'enc, 'gpt) env \<Rightarrow> u8 list \<Rightarrow> unit option" where
  "fuzz_forensic env data = do {
     let disk_size = (of_nat (length data) :: u64);
     result \<leftarrow> analyse env (cursor_new data) disk_size;
     case result of
       Inr _ \<Rightarrow> Some ()
     | Inl (TooShort _) \<Rightarrow> Some ()
     | Inl (BadSignature _) \<Rightarrow> Some ()
     | Inl (Io _) \<Rightarrow> Some ()
   }"

end
