(* ===== verification/Stages.thy ===== *)
theory Stages
  imports Analyse
begin

text \<open>
  What each stage of the pipeline contributes.  A stage only appends to the anomalies recorded
  before it, each built from its kind, and only kinds of its own variants: \<open>emits\<close>.  So what an
  analysis reports of one variant is decided by the one or two stages that emit it: \<open>of_variant\<close>.
\<close>

named_theorems stage_emits \<open>which variants a stage emits\<close>

definition genuine :: "('r, 'vs, 'enc, 'gpt) env \<Rightarrow> anomaly \<Rightarrow> bool" where
  "genuine env a \<longleftrightarrow> a = anomaly_new (type_name env) (an_kind a) (an_offset a)"

definition emits ::
  "('r, 'vs, 'enc, 'gpt) env \<Rightarrow> nat set \<Rightarrow> anomaly list \<Rightarrow> anomaly list \<Rightarrow> bool" where
  "emits env S fs fs' \<longleftrightarrow>
     (\<exists>new. fs' = fs @ new \<and> (\<forall>a \<in> set new. variant (an_kind a) \<in> S \<and> genuine env a))"

definition kinds :: "anomaly list \<Rightarrow> anomaly_kind set" where
  "kinds fs = an_kind ` set fs"

definition of_variant :: "nat \<Rightarrow> anomaly list \<Rightarrow> anomaly_kind set" where
  "of_variant n fs = {k \<in> kinds fs. variant k = n}"

subsection \<open>Composition\<close>

lemma genuine_new [simp]: "genuine env (anomaly_new (type_name env) k off)"
  by (simp add: genuine_def anomaly_new_def)

lemma an_kind_new [simp]: "an_kind (anomaly_new tn k off) = k"
  by (simp add: anomaly_new_def)

lemma emits_refl [simp, intro]: "emits env S fs fs"
  by (simp add: emits_def)

lemma emits_mono: "emits env S fs fs' \<Longrightarrow> S \<subseteq> T \<Longrightarrow> emits env T fs fs'"
  unfolding emits_def by blast

lemma emits_trans [trans]: "emits env S fs fs' \<Longrightarrow> emits env S fs' fs'' \<Longrightarrow> emits env S fs fs''"
  unfolding emits_def by (metis Un_iff append.assoc set_append)

lemma emits_then:
  "emits env S fs fs' \<Longrightarrow> emits env T fs' fs'' \<Longrightarrow> S \<union> T \<subseteq> U \<Longrightarrow> emits env U fs fs''"
  by (meson emits_mono emits_trans le_sup_iff)

lemma emits_push [simp, intro]:
  "emits env S fs fs' \<Longrightarrow> variant k \<in> S \<Longrightarrow> emits env S fs (record_finding env k off fs')"
  by (auto simp: emits_def record_finding_def)

lemma emits_record: "variant k \<in> S \<Longrightarrow> emits env S fs (record_finding env k off fs)"
  by (simp add: emits_def record_finding_def)

lemma emits_record_then:
  "emits env S (record_finding env k off fs) fs' \<Longrightarrow> variant k \<in> S \<Longrightarrow> emits env S fs fs'"
  by (meson emits_record emits_trans)

lemma emits_foldl:
  "(\<And>x. x \<in> set xs \<Longrightarrow> variant (f x) \<in> S) \<Longrightarrow>
     emits env S fs (foldl (\<lambda>fs x. record_finding env (f x) (g x) fs) fs xs)"
proof (induction xs arbitrary: fs)
  case (Cons x xs)
  then have "emits env S (record_finding env (f x) (g x) fs)
      (foldl (\<lambda>fs x. record_finding env (f x) (g x) fs) (record_finding env (f x) (g x) fs) xs)"
    by simp
  with Cons.prems show ?case by (auto intro: emits_record_then)
qed simp

lemma emits_genuine: "emits env S [] fs \<Longrightarrow> a \<in> set fs \<Longrightarrow> genuine env a"
  by (auto simp: emits_def)

lemma kinds_simps [simp]:
  "kinds [] = {}" "kinds (fs @ gs) = kinds fs \<union> kinds gs"
  "kinds (record_finding env k off fs) = insert k (kinds fs)"
  by (auto simp: kinds_def record_finding_def)

lemma kinds_foldl:
  "kinds (foldl (\<lambda>fs x. record_finding env (f x) (g x) fs) fs xs) = kinds fs \<union> f ` set xs"
  by (induction xs arbitrary: fs) auto

lemma of_variant_record [simp]:
  "of_variant n (record_finding env k off fs) =
     (if variant k = n then insert k (of_variant n fs) else of_variant n fs)"
  by (auto simp: of_variant_def)

lemma of_variant_Nil [simp]: "of_variant n [] = {}"
  by (simp add: of_variant_def)

lemma emits_of_variant: "emits env S fs fs' \<Longrightarrow> n \<notin> S \<Longrightarrow> of_variant n fs' = of_variant n fs"
  by (auto simp: emits_def of_variant_def kinds_def)

lemma in_of_variant: "variant k = n \<Longrightarrow> k \<in> of_variant n fs \<longleftrightarrow> k \<in> kinds fs"
  by (simp add: of_variant_def)

subsection \<open>The boot record\<close>

lemma check_boot_code_emits [stage_emits]:
  "check_boot_code env m bid gpt fs = Some fs' \<Longrightarrow> emits env {4, 25, 26, 27, 28, 29} fs fs'"
proof -
  assume eq: "check_boot_code env m bid gpt fs = Some fs'"
  let ?S = "{4, 25, 26, 27, 28, 29}"
  define k where "k = (case bid of
         BcAllZeros \<Rightarrow> if gpt then Some EmptyProtectiveBootCode else Some WipedBootCode
       | BcAllOnes \<Rightarrow> Some ErasedBootCode
       | BcUnknown \<Rightarrow> Some (UnknownBootCode (boot_code_head_hex (boot_code m)))
       | _ \<Rightarrow> None)"
  define f1 where "f1 = (case k of Some k \<Rightarrow> record_finding env k 0 fs | None \<Rightarrow> fs)"
  have "\<And>k'. k = Some k' \<Longrightarrow> variant k' \<in> ?S"
    by (auto simp: k_def split: boot_code_id.splits if_splits)
  then have 1: "emits env ?S fs f1" by (auto simp: f1_def split: option.splits)
  obtain f2 where f2: "f2 = f1 \<or> (\<exists>h. f2 = record_finding env (HighEntropySlack 0 h) 0 f1)"
    and fs': "fs' = foldl (\<lambda>fs name. record_finding env (KnownBootkit name) 0 fs) f2
       (bootkit_scan env (boot_code m))"
    using eq unfolding check_boot_code_def k_def [symmetric] Let_def f1_def [symmetric]
    by (auto simp: bind_Some_iff split: if_splits)
  have "emits env ?S f1 f2" using f2 by auto
  moreover have "emits env ?S f2 fs'" unfolding fs' by (rule emits_foldl) simp
  ultimately show ?thesis using 1 by (blast intro: emits_trans)
qed

lemma check_disk_signature_emits [stage_emits]:
  "emits env {3} fs (check_disk_signature env m bid fs)"
  by (auto simp: check_disk_signature_def Let_def)

lemma check_reserved_emits [stage_emits]: "emits env {0} fs (check_reserved env m fs)"
  by (auto simp: check_reserved_def)

lemma check_bootable_flags_emits [stage_emits]:
  "emits env {1, 2} fs (check_bootable_flags env m fs)"
  by (auto simp: check_bootable_flags_def Let_def intro: emits_record_then)

lemma duplicates_of_emits:
  "duplicates_of env es a bs fs = Some fs' \<Longrightarrow> emits env {7} fs fs'"
proof (induction bs arbitrary: fs)
  case (Cons b bs)
  then show ?case
    by (fastforce split: Option.bind_splits if_splits intro: emits_record_then)
qed simp

lemma duplicates_loop_emits:
  "duplicates_loop env es as fs = Some fs' \<Longrightarrow> emits env {7} fs fs'"
proof (induction as arbitrary: fs)
  case (Cons a as)
  then show ?case
    by (auto simp: bind_Some_iff split: if_splits intro: emits_trans duplicates_of_emits)
qed simp

lemma check_duplicate_entries_emits [stage_emits]:
  "check_duplicate_entries env m fs = Some fs' \<Longrightarrow> emits env {7} fs fs'"
  unfolding check_duplicate_entries_def by (rule duplicates_loop_emits)

lemma check_gpt_emits [stage_emits]:
  "check_gpt env m last_lba hdr ss fs = Some fs' \<Longrightarrow> emits env {11, 12, 13, 14} fs fs'"
  by (auto simp: check_gpt_def bind_Some_iff Let_def split: option.splits if_splits)

subsection \<open>Partitions\<close>

lemma check_chs_lba_emits:
  "check_chs_lba env i e fs = Some fs' \<Longrightarrow> emits env {10} fs fs'"
  by (auto simp: check_chs_lba_def bind_Some_iff split: if_splits)

lemma check_vbr_emits:
  "check_vbr env r i start off ds fs = Some (r', fs') \<Longrightarrow> emits env {24} fs fs'"
  by (auto simp: check_vbr_def split: Option.bind_splits if_splits sum.splits option.splits prod.splits)

lemma detect_and_check_fs_emits:
  "detect_and_check_fs env r i off t ds fs = Some (d, r', fs') \<Longrightarrow> emits env {23} fs fs'"
  by (auto simp: detect_and_check_fs_def bind_Some_iff Let_def split: if_splits option.splits)

text \<open>One slot of the primary table, in the order of its effects.\<close>

lemma scan_entry_cases:
  assumes "scan_entry env ds last_lba ss i e (r, fs, sc) = Some (r', fs', sc')"
  obtains
    (residual) off where "type_is_empty (type_code e)" "\<not> is_empty e" "entry_offset i = Some off"
      "fs' = record_finding env (ResidualEntry i (lba_start e) (lba_count e)) off fs" "sc' = sc"
  | (unused) "is_empty e" "fs' = fs" "sc' = sc"
  | (used) off f1 f2 f3 r4 f4 d r5 serial enc where "\<not> type_is_empty (type_code e)" "\<not> is_empty e"
      "entry_offset i = Some off"
      "f1 = (if status e \<noteq> 0x00 \<and> status e \<noteq> 0x80
             then record_finding env (InvalidPartitionStatus i (status e)) off fs else fs)"
      "check_chs_lba env i e f1 = Some f2"
      "f3 = (if 0 < ds \<and> last_lba < ucast (lba_end e)
             then record_finding env (OutOfBounds i (ucast (lba_end e)) last_lba) off f2 else f2)"
      "check_vbr env r i (ucast (lba_start e)) (lba_to_byte (ucast (lba_start e)) ss) ds f3 =
         Some (r4, f4)"
      "detect_and_check_fs env r4 i (lba_to_byte (ucast (lba_start e)) ss) (type_code e) ds f4 =
         Some (d, r5, fs')"
      "partition_volume env r5 (lba_to_byte (ucast (lba_start e)) ss) ds = Some ((serial, enc), r')"
      "sc' = (let start = ucast (lba_start e); stop = ucast (lba_end e) in
         sc\<lparr>sc_extents := sc_extents sc @ [(start, stop)],
            sc_overlap_extents := sc_overlap_extents sc
              @ (if is_extended e then [] else [(i, start, stop)]),
            sc_summaries := sc_summaries sc @ [\<lparr>ps_index = i, ps_lba_start = start,
              ps_lba_end = stop, ps_byte_offset = lba_to_byte start ss,
              ps_byte_size = lba_to_byte (ucast (lba_count e)) ss, ps_declared_type = type_code e,
              ps_detected_fs = d, ps_volume_serial = serial, ps_encryption = enc\<rparr>]\<rparr>)"
proof -
  obtain off where off: "entry_offset i = Some off"
    using assms by (auto simp: scan_entry_def split: Option.bind_splits)
  consider "is_empty e" | "type_is_empty (type_code e)" "\<not> is_empty e"
    | "\<not> type_is_empty (type_code e)" by blast
  then show thesis
  proof cases
    case 1
    with assms off unused show thesis by (simp add: scan_entry_def is_empty_def Let_def)
  next
    case 2
    then have "lba_start e \<noteq> 0 \<or> lba_count e \<noteq> 0" by (simp add: is_empty_def)
    with assms off 2 residual show thesis by (simp add: scan_entry_def Let_def)
  next
    case 3
    then have ne: "\<not> is_empty e" by (simp add: is_empty_def)
    define f1 where "f1 = (if status e \<noteq> 0x00 \<and> status e \<noteq> 0x80
       then record_finding env (InvalidPartitionStatus i (status e)) off fs else fs)"
    obtain f2 where f2: "check_chs_lba env i e f1 = Some f2"
      using assms 3 ne off by (auto simp: scan_entry_def f1_def Let_def split: Option.bind_splits)
    define f3 where "f3 = (if 0 < ds \<and> last_lba < ucast (lba_end e)
       then record_finding env (OutOfBounds i (ucast (lba_end e)) last_lba) off f2 else f2)"
    note body = assms [unfolded scan_entry_def Let_def prod.case off bind.bind_lunit,
        folded f1_def, unfolded f2 bind.bind_lunit, folded f3_def]
    obtain r4 f4 where f4: "check_vbr env r i (ucast (lba_start e))
        (lba_to_byte (ucast (lba_start e)) ss) ds f3 = Some (r4, f4)"
      using body 3 ne by (auto split: Option.bind_splits)
    obtain d r5 f5 where f5: "detect_and_check_fs env r4 i (lba_to_byte (ucast (lba_start e)) ss)
        (type_code e) ds f4 = Some (d, r5, f5)"
      using body 3 ne f4 by (auto split: Option.bind_splits)
    obtain serial enc r6 where f6: "partition_volume env r5 (lba_to_byte (ucast (lba_start e)) ss) ds =
        Some ((serial, enc), r6)"
      using body 3 ne f4 f5 by (auto split: Option.bind_splits)
    have "r6 = r'" "f5 = fs'" using body 3 ne f4 f5 f6 by simp_all
    then show thesis
      using body 3 ne f4 f5 f6 by (intro used [OF 3 ne off f1_def f2 f3_def f4]) (auto simp: Let_def)
  qed
qed

lemma scan_entry_emits:
  assumes "scan_entry env ds last_lba ss i e (r, fs, sc) = Some (r', fs', sc')"
  shows "emits env {5, 6, 9, 10, 23, 24} fs fs'"
  using assms
proof (cases rule: scan_entry_cases)
  case (used off f1 f2 f3 r4 f4 d r5 serial enc)
  let ?S = "{5, 6, 9, 10, 23, 24}"
  have "emits env ?S fs f1" by (simp add: used(4))
  also have "emits env ?S f1 f2" by (rule emits_mono [OF check_chs_lba_emits [OF used(5)]]) simp
  also have "emits env ?S f2 f3" by (simp add: used(6))
  also have "emits env ?S f3 f4" by (rule emits_mono [OF check_vbr_emits [OF used(7)]]) simp
  also have "emits env ?S f4 fs'"
    by (rule emits_mono [OF detect_and_check_fs_emits [OF used(8)]]) simp
  finally show ?thesis .
qed auto

lemma scan_loop_emits:
  "scan_loop env ds last_lba ss es (r, fs, sc) = Some (r', fs', sc') \<Longrightarrow>
     emits env {5, 6, 9, 10, 23, 24} fs fs'"
proof (induction es arbitrary: r fs sc)
  case (Cons x es)
  obtain i e where x: "x = (i, e)" by force
  obtain r1 f1 sc1 where 1: "scan_entry env ds last_lba ss i e (r, fs, sc) = Some (r1, f1, sc1)"
    and 2: "scan_loop env ds last_lba ss es (r1, f1, sc1) = Some (r', fs', sc')"
    using Cons.prems x by (auto split: Option.bind_splits)
  show ?case using scan_entry_emits [OF 1] Cons.IH [OF 2] by (rule emits_trans)
qed simp

lemma scan_primary_entries_emits [stage_emits]:
  "scan_primary_entries env r m ds last_lba ss fs = Some (r', fs', sc) \<Longrightarrow>
     emits env {5, 6, 9, 10, 23, 24} fs fs'"
  unfolding scan_primary_entries_def by (rule scan_loop_emits)

text \<open>One logical partition, in the order of its effects.\<close>

lemma scan_logical_cases:
  assumes "scan_logical env ds ss l (r, fs, sc) = Some (r', fs', sc')"
  obtains f1 i r4 f4 d r5 where
    "has_slack l \<longrightarrow> (\<exists>h off. shannon (f64 env) (slack l) = Some h
       \<and> f1 = record_finding env (EbrSlackData (ebr_lba l) h) off fs)"
    "\<not> has_slack l \<longrightarrow> f1 = fs"
    "check_vbr env r i (logical_lba_start l) (lba_to_byte (logical_lba_start l) ss) ds f1 = Some (r4, f4)"
    "detect_and_check_fs env r4 i (lba_to_byte (logical_lba_start l) ss) (type_code (logical l)) ds f4 =
       Some (d, r5, fs')"
proof -
  define slack_stage where "slack_stage = (if has_slack l
       then do {
         entropy \<leftarrow> shannon (f64 env) (slack l);
         off \<leftarrow> checked_add (ebr_offset l) EBR_SLACK_OFFSET;
         Some (record_finding env (EbrSlackData (ebr_lba l) entropy) off fs)
       }
       else Some fs)"
  let ?i = "EBR_INDEX_BASE + length (sc_summaries sc)"
  let ?off = "lba_to_byte (logical_lba_start l) ss"
  note body = assms [unfolded scan_logical_def Let_def prod.case, folded slack_stage_def]
  obtain f1 where f1: "slack_stage = Some f1" using body by (auto elim!: bind_SomeE)
  obtain r4 f4 where f4: "check_vbr env r ?i (logical_lba_start l) ?off ds f1 = Some (r4, f4)"
    using body f1 by (auto elim!: bind_SomeE)
  obtain d r5 where f5: "detect_and_check_fs env r4 ?i ?off (type_code (logical l)) ds f4 =
      Some (d, r5, fs')"
    using body f1 f4 by (auto elim!: bind_SomeE)
  have "has_slack l \<longrightarrow> (\<exists>h off. shannon (f64 env) (slack l) = Some h
       \<and> f1 = record_finding env (EbrSlackData (ebr_lba l) h) off fs)" "\<not> has_slack l \<longrightarrow> f1 = fs"
    using f1 by (auto simp: slack_stage_def elim!: bind_SomeE) blast
  from that [OF this f4 f5] show thesis .
qed

lemma scan_logical_emits:
  assumes "scan_logical env ds ss l (r, fs, sc) = Some (r', fs', sc')"
  shows "emits env {17, 23, 24} fs fs'"
  using assms
proof (rule scan_logical_cases)
  let ?S = "{17, 23, 24}"
  fix f1 i r4 f4 d r5
  assume "has_slack l \<longrightarrow> (\<exists>h off. shannon (f64 env) (slack l) = Some h
       \<and> f1 = record_finding env (EbrSlackData (ebr_lba l) h) off fs)" "\<not> has_slack l \<longrightarrow> f1 = fs"
    and f4: "check_vbr env r i (logical_lba_start l) (lba_to_byte (logical_lba_start l) ss) ds f1 =
      Some (r4, f4)"
    and f5: "detect_and_check_fs env r4 i (lba_to_byte (logical_lba_start l) ss)
      (type_code (logical l)) ds f4 = Some (d, r5, fs')"
  then have "emits env ?S fs f1" by (cases "has_slack l") auto
  also have "emits env ?S f1 f4" by (rule emits_mono [OF check_vbr_emits [OF f4]]) simp
  also have "emits env ?S f4 fs'" by (rule emits_mono [OF detect_and_check_fs_emits [OF f5]]) simp
  finally show ?thesis .
qed

lemma logical_loop_emits:
  "logical_loop env ds ss ebrs (r, fs, sc) = Some (r', fs', sc') \<Longrightarrow> emits env {17, 23, 24} fs fs'"
proof (induction ebrs arbitrary: r fs sc)
  case (Cons e ebrs)
  obtain r1 f1 sc1 where 1: "scan_logical env ds ss e (r, fs, sc) = Some (r1, f1, sc1)"
    and 2: "logical_loop env ds ss ebrs (r1, f1, sc1) = Some (r', fs', sc')"
    using Cons.prems by (auto split: Option.bind_splits)
  show ?case using scan_logical_emits [OF 1] Cons.IH [OF 2] by (rule emits_trans)
qed simp

text \<open>The extended stage in the order of its effects.\<close>

lemma walk_extended_cases:
  assumes "walk_extended env r m sc ds ss fs = Some (chain, r', fs', sc')"
  obtains
    (none) "chain = ebr_chain_empty" "fs' = fs" "sc' = sc"
  | (walked) ext r1 off f0 f1 where "find is_extended (entries m) = Some ext"
      "walk_ebr_chain (reader env) r (ucast (lba_start ext)) ss = Some (Inr chain, r1)"
      "f0 = (if had_cycle chain then record_finding env EbrCycle off fs else fs)"
      "f1 = (if depth_exceeded chain
             then record_finding env (EbrExcessiveDepth (length (links chain))) off f0 else f0)"
      "logical_loop env ds ss (links chain) (r1, f1, sc) = Some (r', fs', sc')"
proof (cases "find is_extended (entries m)")
  case None
  with assms none show thesis by (simp add: walk_extended_def)
next
  case (Some ext)
  obtain res r1 where w: "walk_ebr_chain (reader env) r (ucast (lba_start ext)) ss = Some (res, r1)"
    using assms Some by (auto simp: walk_extended_def Let_def split: Option.bind_splits)
  show thesis
  proof (cases res)
    case (Inl err)
    with assms Some w none show thesis by (simp add: walk_extended_def Let_def)
  next
    case (Inr c)
    with assms Some w have "c = chain"
      by (auto simp: walk_extended_def Let_def split: Option.bind_splits)
    with assms Some w Inr walked [OF Some _ refl refl] show thesis
      by (auto simp: walk_extended_def Let_def split: Option.bind_splits)
  qed
qed

lemma walk_extended_emits [stage_emits]:
  assumes "walk_extended env r m sc ds ss fs = Some (chain, r', fs', sc')"
  shows "emits env {15, 16, 17, 23, 24} fs fs'"
  using assms
proof (cases rule: walk_extended_cases)
  case (walked ext r1 off f0 f1)
  have "emits env {15, 16, 17, 23, 24} fs f1" unfolding walked(3,4) by (simp add: emits_push)
  also have "emits env {15, 16, 17, 23, 24} f1 fs'"
    by (rule emits_mono [OF logical_loop_emits [OF walked(5)]]) simp
  finally show ?thesis .
qed simp

subsection \<open>Layout\<close>

lemma overlap_pairs_emits: "overlap_pairs env ps fs = Some fs' \<Longrightarrow> emits env {8} fs fs'"
proof (induction ps arbitrary: fs)
  case (Cons p ps)
  then show ?case
    by (fastforce split: Option.bind_splits if_splits prod.splits intro: emits_record_then)
qed simp

lemma check_overlaps_emits [stage_emits]:
  "check_overlaps env xs fs = Some fs' \<Longrightarrow> emits env {8} fs fs'"
  unfolding check_overlaps_def by (rule overlap_pairs_emits)

lemma variant_gap_kind: "variant (gap_anomaly_kind g) \<in> {18, 19, 20}"
  by (simp add: gap_anomaly_kind_def split: gap_kind.splits)

lemma check_gaps_emits [stage_emits]:
  "check_gaps env xs ds last_lba ss fs = Some (gaps, fs') \<Longrightarrow> emits env {18, 19, 20} fs fs'"
  by (auto simp: check_gaps_def Let_def split: Option.bind_splits if_splits
      intro!: emits_foldl) (use variant_gap_kind in auto)

text \<open>One gap: sampled if it can be read, then classified and carved.\<close>

definition gap_sample_len :: "gap \<Rightarrow> nat" where
  "gap_sample_len g = unat (min (gap_byte_size g) (of_nat GAP_SAMPLE_BYTES))"

lemma check_gap_content_Cons:
  assumes "check_gap_content env ss r (g # gaps) fs = Some (r', fs')"
  obtains
    (skipped) r1 where "check_gap_content env ss r1 gaps fs = Some (r', fs')"
  | (sampled) r1 x r2 buf pattern artifacts f1 where
      "0 < gap_sample_len g"
      "seek_start (reader env) r (lba_to_byte (gap_lba_start g) ss) = (Inr x, r1)"
      "read_exact (reader env) r1 (gap_sample_len g) = Some (Inr buf, r2)"
      "classify (f64 env) buf = Some pattern"
      "carve buf (lba_to_byte (gap_lba_start g) ss) = Some artifacts"
      "f1 = (if is_deliberate_wipe pattern
             then record_finding env (WipedRegion (gap_lba_start g) pattern)
               (lba_to_byte (gap_lba_start g) ss) fs else fs)"
      "check_gap_content env ss r2 gaps (foldl (\<lambda>fs a. record_finding env
         (CarvedArtifact (carved_kind a)) (carved_offset a) fs) f1 artifacts) = Some (r', fs')"
proof -
  note body = assms [unfolded check_gap_content.simps Let_def, folded gap_sample_len_def]
  consider "gap_sample_len g = 0"
    | (sk) x r1 where "0 < gap_sample_len g"
        "seek_start (reader env) r (lba_to_byte (gap_lba_start g) ss) = (x, r1)"
    by (metis neq0_conv surj_pair)
  then show thesis
  proof cases
    case 1
    with body skipped show thesis by simp
  next
    case sk
    show thesis
    proof (cases x)
      case (Inl e)
      with body sk skipped show thesis by simp
    next
      case (Inr y)
      obtain res r2 where rd: "read_exact (reader env) r1 (gap_sample_len g) = Some (res, r2)"
        using body sk Inr by (auto split: Option.bind_splits)
      show thesis
      proof (cases res)
        case Inl
        with body sk Inr rd skipped show thesis by simp
      next
        case buf: (Inr buf)
        with body sk Inr rd sampled [OF sk(1) sk(2) [unfolded Inr] rd [unfolded buf] _ _ refl]
        show thesis by (auto split: Option.bind_splits)
      qed
    qed
  qed
qed

lemma check_gap_content_emits [stage_emits]:
  "check_gap_content env ss r gaps fs = Some (r', fs') \<Longrightarrow> emits env {21, 22} fs fs'"
proof (induction gaps arbitrary: r fs)
  case (Cons g gaps)
  from Cons.prems show ?case
  proof (cases rule: check_gap_content_Cons)
    case (sampled r1 x r2 buf pattern artifacts f1)
    have "emits env {21, 22} fs f1" by (simp add: sampled(6) emits_push)
    also have "emits env {21, 22} f1 (foldl (\<lambda>fs a. record_finding env
         (CarvedArtifact (carved_kind a)) (carved_offset a) fs) f1 artifacts)"
      by (rule emits_foldl) simp
    also note Cons.IH [OF sampled(7)]
    finally show ?thesis .
  qed (rule Cons.IH)
qed simp

subsection \<open>The partition inventory\<close>

text \<open>
  What a summary says of the table slot or the EBR link it describes, and how the extents that
  the later stages use derive from the summaries.
\<close>

definition primary_summary ::
  "u64 \<Rightarrow> nat \<times> partition_entry \<Rightarrow> ('vs, 'enc) partition_summary \<Rightarrow> bool" where
  "primary_summary ss = (\<lambda>(i, e) p. ps_index p = i \<and> ps_declared_type p = type_code e
     \<and> ps_lba_start p = ucast (lba_start e) \<and> ps_lba_end p = ucast (lba_end e)
     \<and> ps_byte_offset p = lba_to_byte (ucast (lba_start e)) ss
     \<and> ps_byte_size p = lba_to_byte (ucast (lba_count e)) ss)"

definition logical_summary ::
  "u64 \<Rightarrow> nat \<times> ebr_entry \<Rightarrow> ('vs, 'enc) partition_summary \<Rightarrow> bool" where
  "logical_summary ss = (\<lambda>(i, l) p. ps_index p = i \<and> ps_declared_type p = type_code (logical l)
     \<and> ps_lba_start p = logical_lba_start l
     \<and> ps_lba_end p =
         saturating_sub (saturating_add (logical_lba_start l) (ucast (lba_count (logical l)))) 1
     \<and> ps_byte_offset p = lba_to_byte (logical_lba_start l) ss
     \<and> ps_byte_size p = lba_to_byte (ucast (lba_count (logical l))) ss)"

definition data_partition :: "('vs, 'enc) partition_summary \<Rightarrow> bool" where
  "data_partition p \<longleftrightarrow> 4 \<le> ps_index p \<or> \<not> type_is_extended (ps_declared_type p)"

definition extent_of :: "('vs, 'enc) partition_summary \<Rightarrow> u64 \<times> u64" where
  "extent_of p = (ps_lba_start p, ps_lba_end p)"

definition overlap_extent_of :: "('vs, 'enc) partition_summary \<Rightarrow> nat \<times> u64 \<times> u64" where
  "overlap_extent_of p = (ps_index p, ps_lba_start p, ps_lba_end p)"

definition scan_ok :: "('vs, 'enc) primary_scan \<Rightarrow> bool" where
  "scan_ok sc \<longleftrightarrow> sc_extents sc = map extent_of (sc_summaries sc)
     \<and> sc_overlap_extents sc = map overlap_extent_of (filter data_partition (sc_summaries sc))"

definition used_slots :: "(nat \<times> partition_entry) list \<Rightarrow> (nat \<times> partition_entry) list" where
  "used_slots = filter (\<lambda>(i, e). \<not> type_is_empty (type_code e))"

lemma scan_ok_append:
  assumes "scan_ok sc"
    and "sc' = sc\<lparr>sc_extents := sc_extents sc @ [extent_of p],
           sc_overlap_extents := sc_overlap_extents sc @ (if data_partition p then [overlap_extent_of p] else []),
           sc_summaries := sc_summaries sc @ [p]\<rparr>"
  shows "scan_ok sc'"
  using assms by (simp add: scan_ok_def)

lemma scan_entry_scan:
  assumes "scan_entry env ds last_lba ss i e (r, fs, sc) = Some (r', fs', sc')" and "i < 4"
    and "scan_ok sc"
  shows "scan_ok sc'"
    and "\<exists>new. sc_summaries sc' = sc_summaries sc @ new
           \<and> list_all2 (primary_summary ss) (used_slots [(i, e)]) new"
proof -
  have "scan_ok sc' \<and> (\<exists>new. sc_summaries sc' = sc_summaries sc @ new
           \<and> list_all2 (primary_summary ss) (used_slots [(i, e)]) new)"
    using assms(1)
  proof (cases rule: scan_entry_cases)
    case (used off f1 f2 f3 r4 f4 d r5 serial enc)
    define p where "p = \<lparr>ps_index = i, ps_lba_start = ucast (lba_start e),
      ps_lba_end = ucast (lba_end e), ps_byte_offset = lba_to_byte (ucast (lba_start e)) ss,
      ps_byte_size = lba_to_byte (ucast (lba_count e)) ss, ps_declared_type = type_code e,
      ps_detected_fs = d, ps_volume_serial = serial, ps_encryption = enc\<rparr>"
    have p: "primary_summary ss (i, e) p"
      "sc' = sc\<lparr>sc_extents := sc_extents sc @ [extent_of p],
           sc_overlap_extents := sc_overlap_extents sc
             @ (if is_extended e then [] else [overlap_extent_of p]),
           sc_summaries := sc_summaries sc @ [p]\<rparr>"
      using used(10)
      by (simp_all add: p_def Let_def primary_summary_def extent_of_def overlap_extent_of_def)
    have "data_partition p \<longleftrightarrow> \<not> is_extended e"
      using p(1) assms(2) by (auto simp: data_partition_def primary_summary_def is_extended_def)
    with p(2) have "scan_ok sc'" by (intro scan_ok_append [OF assms(3)]) auto
    with p used(1) show ?thesis by (simp add: used_slots_def)
  qed (use assms(3) in \<open>auto simp: used_slots_def is_empty_def\<close>)
  then show "scan_ok sc'" "\<exists>new. sc_summaries sc' = sc_summaries sc @ new
           \<and> list_all2 (primary_summary ss) (used_slots [(i, e)]) new" by blast+
qed

lemma scan_loop_scan:
  "scan_loop env ds last_lba ss es (r, fs, sc) = Some (r', fs', sc') \<Longrightarrow>
   \<forall>(i, e) \<in> set es. i < 4 \<Longrightarrow> scan_ok sc \<Longrightarrow>
   scan_ok sc' \<and> (\<exists>new. sc_summaries sc' = sc_summaries sc @ new
     \<and> list_all2 (primary_summary ss) (used_slots es) new)"
proof (induction es arbitrary: r fs sc)
  case (Cons x es)
  obtain i e where x: "x = (i, e)" by force
  obtain r1 f1 sc1 where 1: "scan_entry env ds last_lba ss i e (r, fs, sc) = Some (r1, f1, sc1)"
    and 2: "scan_loop env ds last_lba ss es (r1, f1, sc1) = Some (r', fs', sc')"
    using Cons.prems(1) x by (auto split: Option.bind_splits)
  have i: "i < 4" using Cons.prems(2) x by simp
  note entry = scan_entry_scan [OF 1 i Cons.prems(3)]
  obtain new1 where new1: "sc_summaries sc1 = sc_summaries sc @ new1"
    "list_all2 (primary_summary ss) (used_slots [x]) new1"
    using entry(2) x by blast
  obtain new2 where new2: "scan_ok sc'" "sc_summaries sc' = sc_summaries sc1 @ new2"
    "list_all2 (primary_summary ss) (used_slots es) new2"
    using Cons.IH [OF 2 _ entry(1)] Cons.prems(2) by auto
  have "used_slots (x # es) = used_slots [x] @ used_slots es" by (simp add: used_slots_def)
  with new1 new2 show ?case by (auto intro: list_all2_appendI)
qed (simp add: used_slots_def)

lemma scan_primary_entries_scan:
  assumes "scan_primary_entries env r m ds last_lba ss fs = Some (r', fs', sc)"
    and "length (entries m) = 4"
  shows "scan_ok sc"
    and "list_all2 (primary_summary ss) (used_slots (enumerate 0 (entries m))) (sc_summaries sc)"
proof -
  have "\<forall>(i, e) \<in> set (enumerate 0 (entries m)). i < 4"
    using assms(2) by (auto simp: in_set_enumerate_eq)
  moreover have "scan_ok \<lparr>sc_extents = [], sc_overlap_extents = [], sc_summaries = []\<rparr>"
    by (simp add: scan_ok_def)
  ultimately show "scan_ok sc"
    "list_all2 (primary_summary ss) (used_slots (enumerate 0 (entries m))) (sc_summaries sc)"
    using scan_loop_scan [OF assms(1) [unfolded scan_primary_entries_def]] by auto
qed

lemma scan_logical_scan:
  assumes "scan_logical env ds ss l (r, fs, sc) = Some (r', fs', sc')" and "scan_ok sc"
  shows "scan_ok sc' \<and> (\<exists>p. sc_summaries sc' = sc_summaries sc @ [p]
     \<and> logical_summary ss (4 + length (sc_summaries sc), l) p)"
proof -
  obtain d serial enc where sc': "sc' = (let start = logical_lba_start l;
      stop = saturating_sub (saturating_add start (ucast (lba_count (logical l)))) 1;
      i = EBR_INDEX_BASE + length (sc_summaries sc) in
      sc\<lparr>sc_extents := sc_extents sc @ [(start, stop)],
         sc_overlap_extents := sc_overlap_extents sc @ [(i, start, stop)],
         sc_summaries := sc_summaries sc @ [\<lparr>ps_index = i, ps_lba_start = start,
           ps_lba_end = stop, ps_byte_offset = lba_to_byte start ss,
           ps_byte_size = lba_to_byte (ucast (lba_count (logical l))) ss,
           ps_declared_type = type_code (logical l), ps_detected_fs = d,
           ps_volume_serial = serial, ps_encryption = enc\<rparr>]\<rparr>)"
    using assms(1) by (auto simp: scan_logical_def Let_def split: Option.bind_splits)
  define p where "p = (let start = logical_lba_start l;
      stop = saturating_sub (saturating_add start (ucast (lba_count (logical l)))) 1 in
      \<lparr>ps_index = EBR_INDEX_BASE + length (sc_summaries sc), ps_lba_start = start,
           ps_lba_end = stop, ps_byte_offset = lba_to_byte start ss,
           ps_byte_size = lba_to_byte (ucast (lba_count (logical l))) ss,
           ps_declared_type = type_code (logical l), ps_detected_fs = d,
           ps_volume_serial = serial, ps_encryption = enc\<rparr>)"
  have "data_partition p" by (simp add: p_def Let_def data_partition_def EBR_INDEX_BASE_def)
  then have "scan_ok sc'"
    by (intro scan_ok_append [OF assms(2), of _ p])
      (simp add: sc' p_def Let_def extent_of_def overlap_extent_of_def)
  moreover have "sc_summaries sc' = sc_summaries sc @ [p]"
    "logical_summary ss (4 + length (sc_summaries sc), l) p"
    by (simp_all add: sc' p_def Let_def logical_summary_def EBR_INDEX_BASE_def)
  ultimately show ?thesis by blast
qed

lemma logical_loop_scan:
  "logical_loop env ds ss ls (r, fs, sc) = Some (r', fs', sc') \<Longrightarrow> scan_ok sc \<Longrightarrow>
   scan_ok sc' \<and> (\<exists>new. sc_summaries sc' = sc_summaries sc @ new
     \<and> list_all2 (logical_summary ss) (enumerate (4 + length (sc_summaries sc)) ls) new)"
proof (induction ls arbitrary: r fs sc)
  case (Cons l ls)
  obtain r1 f1 sc1 where 1: "scan_logical env ds ss l (r, fs, sc) = Some (r1, f1, sc1)"
    and 2: "logical_loop env ds ss ls (r1, f1, sc1) = Some (r', fs', sc')"
    using Cons.prems(1) by (auto split: Option.bind_splits)
  obtain p where p: "scan_ok sc1" "sc_summaries sc1 = sc_summaries sc @ [p]"
    "logical_summary ss (4 + length (sc_summaries sc), l) p"
    using scan_logical_scan [OF 1 Cons.prems(2)] by blast
  obtain new where "scan_ok sc'" "sc_summaries sc' = sc_summaries sc1 @ new"
    "list_all2 (logical_summary ss) (enumerate (4 + length (sc_summaries sc1)) ls) new"
    using Cons.IH [OF 2 p(1)] by blast
  with p show ?case by auto
qed simp

lemma walk_extended_scan:
  assumes "walk_extended env r m sc ds ss fs = Some (chain, r', fs', sc')" and "scan_ok sc"
  shows "scan_ok sc' \<and> (\<exists>new. sc_summaries sc' = sc_summaries sc @ new
     \<and> list_all2 (logical_summary ss) (enumerate (4 + length (sc_summaries sc)) (links chain)) new)"
  using assms(1)
proof (cases rule: walk_extended_cases)
  case none
  with assms(2) show ?thesis by (simp add: ebr_chain_empty_def)
next
  case (walked ext r1 off f0 f1)
  show ?thesis by (rule logical_loop_scan [OF walked(5) assms(2)])
qed

lemma walk_extended_chain_ok:
  assumes "walk_extended env r m sc ds ss fs = Some (chain, r', fs', sc')"
  shows "\<exists>ext :: u32. ebr_chain_ok (ucast ext) ss chain"
  using assms
proof (cases rule: walk_extended_cases)
  case none
  then show ?thesis by (simp add: ebr_chain_empty_def ebr_chain_ok_def)
next
  case (walked ext r1 off f0 f1)
  show ?thesis by (rule exI) (rule walk_ebr_chain_ok [OF walked(2)])
qed

end
