(* ===== verification/Robust.thy ===== *)
theory Robust
  imports Stages
begin

text \<open>
  Panic freedom and termination of the pipeline (\<open>forensic/src/analyse.rs\<close>): over a fair reader
  and for every sector size up to \<open>2 ^ 30\<close> bytes, every stage returns and leaves the reader
  fair.  The stages that read are verified once, inside the interface \<open>fair_reader\<close>.
\<close>

subsection \<open>Stages that do not read\<close>

lemma entry_offset_eq [simp]:
  assumes "i < 4"
  shows "entry_offset i = Some (446 + 16 * of_nat i)"
proof -
  have i: "unat (of_nat i :: u64) = i" using assms by (intro unat_of_nat_small) simp
  have "checked_mul (of_nat i) (16 :: u64) = Some (of_nat i * 16)"
    and u: "unat (of_nat i * 16 :: u64) = i * 16"
    using i assms by (simp_all add: checked_mul_def unat_mult_no_overflow)
  moreover have "checked_add (446 :: u64) (of_nat i * 16) = Some (446 + of_nat i * 16)"
    using u assms by (simp add: checked_add_def)
  ultimately show ?thesis
    by (simp add: entry_offset_def ENTRY_SIZE_def PARTITION_TABLE_OFFSET_def mult.commute)
qed

lemma disk_last_lba_returns:
  assumes "0 < ss"
  obtains last_lba where "disk_last_lba ds ss = Some last_lba"
    "0 < ds \<Longrightarrow> (unat last_lba + 1) * unat ss < 2 ^ 64"
    "0 < ds \<Longrightarrow> unat last_lba = unat ds div unat ss - 1"
proof (cases "0 < ds")
  case False
  then show thesis by (intro that [of "- 1"]) (simp_all add: disk_last_lba_def)
next
  case True
  let ?q = "ds div ss"
  have ss: "0 < unat ss" using assms by (simp add: word_less_nat_alt)
  have q: "disk_last_lba ds ss = Some (saturating_sub ?q 1)"
    using True assms by (simp add: disk_last_lba_def checked_div_def)
  have u: "unat (saturating_sub ?q 1) = unat ds div unat ss - 1"
    by (simp add: rust_arith unat_div)
  have "(unat ds div unat ss - 1 + 1) * unat ss < 2 ^ 64"
  proof (cases "unat ds div unat ss = 0")
    case True
    then show ?thesis using unat_less_exp [of ss] by simp
  next
    case False
    then have "(unat ds div unat ss - 1 + 1) * unat ss \<le> unat ds" by simp
    then show ?thesis using unat_less_exp [of ds] by simp
  qed
  with q u show thesis by (intro that) simp_all
qed

lemma check_boot_code_returns:
  assumes "length (boot_code m) = 446"
  shows "\<exists>fs'. check_boot_code env m bid gpt fs = Some fs'"
proof -
  obtain h where "shannon (f64 env) (boot_code m) = Some h"
    using shannon_returns [of "boot_code m" "f64 env"] assms by auto
  then show ?thesis by (simp add: check_boot_code_def Let_def)
qed

lemma duplicates_of_returns:
  "length es = 4 \<Longrightarrow> a < 4 \<Longrightarrow> \<forall>b \<in> set bs. b < 4 \<Longrightarrow> \<exists>fs'. duplicates_of env es a bs fs = Some fs'"
  by (induction bs arbitrary: fs) auto

lemma duplicates_loop_returns:
  "length es = 4 \<Longrightarrow> \<forall>a \<in> set as. a < 4 \<Longrightarrow> \<exists>fs'. duplicates_loop env es as fs = Some fs'"
proof (induction as arbitrary: fs)
  case (Cons a as)
  have "\<exists>fs'. (if is_empty (es ! a) then Some fs else duplicates_of env es a [a + 1..<length es] fs) =
      Some fs'"
    using Cons.prems duplicates_of_returns [of es a "[a + 1..<4]" env fs] by auto
  with Cons show ?case by auto
qed simp

lemma check_duplicate_entries_returns:
  "length (entries m) = 4 \<Longrightarrow> \<exists>fs'. check_duplicate_entries env m fs = Some fs'"
  unfolding check_duplicate_entries_def by (rule duplicates_loop_returns) simp_all

lemma position_Some: "position P xs = Some i \<Longrightarrow> i < length xs \<and> P (xs ! i)"
  by (induction xs arbitrary: i) (auto split: if_splits)

lemma check_gpt_returns:
  assumes "length (entries m) = 4"
  shows "\<exists>fs'. check_gpt env m last_lba hdr ss fs = Some fs'"
proof (cases "position (\<lambda>e. \<not> is_empty e \<and> type_byte (type_code e) = PROTECTIVE_TYPE_CODE) (entries m)")
  case None
  then show ?thesis by (simp add: check_gpt_def)
next
  case (Some i)
  then have "i < 4" using position_Some [OF Some] assms by simp
  with Some assms show ?thesis by (simp add: check_gpt_def Let_def)
qed

lemma std_geometry: "STD_HEADS_PER_CYL \<noteq> 0" "STD_SECTORS_PER_TRACK \<noteq> 0"
  by (simp_all add: STD_HEADS_PER_CYL_def STD_SECTORS_PER_TRACK_def)

lemma check_chs_lba_returns: "i < 4 \<Longrightarrow> \<exists>fs'. check_chs_lba env i e fs = Some fs'"
  by (simp add: check_chs_lba_def chs_consistency_eq [OF std_geometry])

lemma overlap_pairs_returns:
  "\<forall>p \<in> set ps. length p = 2 \<Longrightarrow> \<exists>fs'. overlap_pairs env ps fs = Some fs'"
proof (induction ps arbitrary: fs)
  case (Cons p ps)
  have "entry_offset (min i 3) = Some (446 + 16 * of_nat (min i 3))" for i by simp
  with Cons show ?case by (simp add: case_prod_unfold)
qed simp

lemma check_overlaps_returns: "\<exists>fs'. check_overlaps env xs fs = Some fs'"
  unfolding check_overlaps_def by (rule overlap_pairs_returns) (auto simp: in_set_windows_iff)

subsection \<open>Layout\<close>

text \<open>Extents that come from 32-bit table fields.\<close>

definition bounded_extent :: "u64 \<times> u64 \<Rightarrow> bool" where
  "bounded_extent = (\<lambda>(s, e). unat s \<le> unat e + 1 \<and> unat s < 3 * 2 ^ 32 \<and> unat e < 2 ^ 34)"

lemma primary_summary_bounded: "primary_summary ss x p \<Longrightarrow> bounded_extent (extent_of p)"
  using unat_u32_less [of "lba_start (snd x)"] unat_u32_less [of "lba_count (snd x)"]
  by (auto simp: primary_summary_def bounded_extent_def extent_of_def lba_end_def rust_arith
      split: prod.splits)

lemma logical_summary_bounded:
  assumes "logical_summary ss (i, l) p" and "unat (logical_lba_start l) < 3 * 2 ^ 32"
  shows "bounded_extent (extent_of p)"
  using assms unat_u32_less [of "lba_count (logical l)"]
  by (auto simp: logical_summary_def bounded_extent_def extent_of_def rust_arith)

lemma list_all2_right: "list_all2 P xs ys \<Longrightarrow> y \<in> set ys \<Longrightarrow> \<exists>x \<in> set xs. P x y"
  by (induction rule: list_all2_induct) auto

lemma scan_bounded:
  assumes "scan_primary_entries env r m ds last_lba ss fs = Some (r1, f1, sc1)"
    and "length (entries m) = 4"
    and "walk_extended env r1 m sc1 ds ss f1 = Some (chain, r2, f2, sc2)"
  shows "\<forall>x \<in> set (sc_extents sc2). bounded_extent x"
proof -
  note prim = scan_primary_entries_scan [OF assms(1,2)]
  obtain new where ok: "scan_ok sc2" and new: "sc_summaries sc2 = sc_summaries sc1 @ new"
    "list_all2 (logical_summary ss) (enumerate (4 + length (sc_summaries sc1)) (links chain)) new"
    using walk_extended_scan [OF assms(3) prim(1)] by blast
  obtain ext :: u32 where chain: "ebr_chain_ok (ucast ext) ss chain"
    using walk_extended_chain_ok [OF assms(3)] by blast
  have "bounded_extent (extent_of p)" if "p \<in> set (sc_summaries sc1)" for p
    using list_all2_right [OF prim(2) that] primary_summary_bounded by blast
  moreover have "bounded_extent (extent_of p)" if p: "p \<in> set new" for p
  proof -
    obtain i l where l: "(i, l) \<in> set (enumerate (4 + length (sc_summaries sc1)) (links chain))"
      "logical_summary ss (i, l) p"
      using list_all2_right [OF new(2) p] by auto
    then have "l \<in> set (links chain)" by (auto simp: in_set_enumerate_eq)
    from logical_summary_bounded [OF l(2) ebr_chain_ok_lba_bound(2) [OF chain this]] show ?thesis .
  qed
  ultimately show ?thesis using ok new(1) by (auto simp: scan_ok_def)
qed

lemma sorted_wrt_remdups_adj: "sorted_wrt P xs \<Longrightarrow> sorted_wrt P (remdups_adj xs)"
  by (induction xs rule: remdups_adj.induct) auto

lemma extents_ok_sorted:
  assumes "\<forall>x \<in> set xs. bounded_extent x" and "unat ss \<le> 2 ^ 30"
  shows "extents_ok ss (remdups_adj (sort_key fst xs))"
proof -
  have "sorted_wrt (\<lambda>x y. fst x \<le> fst y) (sort_key fst xs)"
    using sorted_sort_key [of fst xs] by (simp only: sorted_map)
  from sorted_wrt_remdups_adj [OF this]
  have srt: "sorted (map fst (remdups_adj (sort_key fst xs)))" by (simp add: sorted_map)
  have "unat s \<le> unat e + 1 \<and> unat e + 1 < 2 ^ 64 \<and> unat s * unat ss < 2 ^ 64"
    if "(s, e) \<in> set xs" for s e
  proof -
    have b: "unat s \<le> unat e + 1" "unat s < 3 * 2 ^ 32" "unat e < 2 ^ 34"
      using assms(1) that by (auto simp: bounded_extent_def)
    have "unat s * unat ss \<le> (3 * 2 ^ 32) * 2 ^ 30"
      using b(2) assms(2) by (intro mult_le_mono) simp_all
    with b show ?thesis by simp
  qed
  with srt show ?thesis unfolding extents_ok_def by auto
qed

definition gap_fits :: "u64 \<Rightarrow> gap \<Rightarrow> bool" where
  "gap_fits ss g \<longleftrightarrow> gap_ok ss g \<and> (unat (gap_lba_end g) + 1) * unat ss < 2 ^ 64"

lemma check_gaps_returns:
  assumes "\<forall>x \<in> set xs. bounded_extent x" and "unat ss \<le> 2 ^ 30"
    and "0 < ds \<Longrightarrow> (unat last_lba + 1) * unat ss < 2 ^ 64"
  obtains gaps fs' where "check_gaps env xs ds last_lba ss fs = Some (gaps, fs')"
    "\<forall>g \<in> set gaps. gap_fits ss g"
proof (cases "ds = 0")
  case True
  with that show thesis by (simp add: check_gaps_def)
next
  case False
  then have disk: "(unat last_lba + 1) * unat ss < 2 ^ 64" using assms(3) by (simp add: word_gt_0)
  let ?xs = "remdups_adj (sort_key fst xs)"
  note ext = extents_ok_sorted [OF assms(1,2)]
  obtain gaps where gaps: "compute_gaps ?xs 1 last_lba ss = Some gaps"
    and inside: "\<And>lba. (\<exists>g \<in> set gaps. in_gap lba g) \<Longrightarrow> lba \<le> unat last_lba \<or> before_some ?xs lba"
    and ok: "\<forall>g \<in> set gaps. gap_ok ss g"
    using compute_gaps_spec [OF ext disk, of 1] by auto
  have "gap_fits ss g" if g: "g \<in> set gaps" for g
  proof -
    have "in_gap (unat (gap_lba_end g)) g"
      using ok g by (auto simp: gap_ok_def in_gap_def word_le_nat_alt)
    then consider "unat (gap_lba_end g) \<le> unat last_lba" | s e where "(s, e) \<in> set ?xs"
        "unat (gap_lba_end g) < unat s"
      using inside g unfolding before_some_def by blast
    then have "(unat (gap_lba_end g) + 1) * unat ss < 2 ^ 64"
    proof cases
      case 1
      then have "(unat (gap_lba_end g) + 1) * unat ss \<le> (unat last_lba + 1) * unat ss"
        by (intro mult_le_mono) simp_all
      with disk show ?thesis by linarith
    next
      case 2
      then have "unat s * unat ss < 2 ^ 64" using ext unfolding extents_ok_def by blast
      moreover have "(unat (gap_lba_end g) + 1) * unat ss \<le> unat s * unat ss"
        using 2(2) by (intro mult_le_mono) simp_all
      ultimately show ?thesis by linarith
    qed
    with ok g show ?thesis by (simp add: gap_fits_def)
  qed
  with gaps False that show thesis by (simp add: check_gaps_def Let_def)
qed

subsection \<open>Reading\<close>

lemma read_mbr_wf:
  assumes "read_mbr ops r = Some (Inr m, r')"
  shows "mbr_wf m"
proof -
  obtain raw r1 r2 where "read_exact ops r1 SECTOR_SIZE = Some (Inr raw, r2)"
    and p: "parse_mbr_sector raw = Some (Inr m)"
    using assms
    by (auto simp: read_mbr_def split: Option.bind_splits sum.splits prod.splits)
  then show ?thesis
    by (auto simp: parse_mbr_sector_eq intro: mbr_of_bytes_wf split: if_splits)
qed

context fair_reader
begin

lemma read_first_sector_returns:
  assumes "good r"
  obtains res r' where "read_first_sector ops r off = Some (res, r')" "good r'"
    "\<forall>buf. res = Inr buf \<longrightarrow> length buf = 512"
proof -
  obtain x r1 where sk: "seek_start ops r off = (x, r1)" "good r1" using assms by (rule seek_cases)
  obtain res r2 where rd: "read_exact ops r1 SECTOR_SIZE = Some (res, r2)" "good r2"
    "\<forall>bs. res = Inr bs \<longrightarrow> length bs = SECTOR_SIZE"
    using sk(2) by (rule read_exact_returns)
  show thesis
  proof (cases x)
    case (Inl e)
    with sk show thesis by (intro that [of "Inl (Io e)" r1]) (simp_all add: read_first_sector_def)
  next
    case (Inr y)
    with sk rd show thesis
      by (intro that [of "case res of Inl e \<Rightarrow> Inl (Io e) | Inr b \<Rightarrow> Inr b" r2])
        (auto simp: read_first_sector_def SECTOR_SIZE_def split: sum.splits)
  qed
qed

lemma read_mbr_returns:
  assumes "good r"
  obtains res r' where "read_mbr ops r = Some (res, r')" "good r'"
proof -
  obtain x r1 where sk: "seek_start ops r 0 = (x, r1)" "good r1" using assms by (rule seek_cases)
  obtain res r2 where rd: "read_exact ops r1 SECTOR_SIZE = Some (res, r2)" "good r2"
    using sk(2) by (rule read_exact_returns)
  from sk rd that show thesis
    by (cases x; cases res) (auto simp: read_mbr_def parse_mbr_sector_eq)
qed

lemma gpt_header_present_returns:
  assumes "good r"
  obtains hdr r' where "gpt_header_present ops r ss = Some (hdr, r')" "good r'"
proof -
  obtain res r' where "read_first_sector ops r ss = Some (res, r')" "good r'"
    using assms by (rule read_first_sector_returns)
  with that show thesis by (cases res) (auto simp: gpt_header_present_def)
qed

lemma fingerprint_loop_returns:
  "good r \<Longrightarrow> \<exists>res r'. fingerprint_loop ops r n acc = Some (res, r') \<and> good r'"
proof (induction n arbitrary: r acc rule: less_induct)
  case (less n)
  note outer = less.IH
  from less.prems show ?case
  proof (induction "retries r" arbitrary: r rule: less_induct)
    case less
    obtain y r' where rd: "read_some ops r n = (y, r')" by (metis surj_pair)
    have good': "good r'" using less.prems rd by (rule read_good)
    consider "n = 0" | "0 < n" "y = Inl Interrupted" | e where "0 < n" "y = Inl e" "e \<noteq> Interrupted"
      | bs where "0 < n" "y = Inr bs" by (cases y) auto
    then show ?case
    proof cases
      case 1
      with less.prems show ?thesis by (simp add: fingerprint_loop.simps)
    next
      case 2
      then have "retries r' < retries r" using less.prems rd interrupted_retries by blast
      with less.hyps good' rd 2 show ?thesis by (subst fingerprint_loop.simps) simp
    next
      case 3
      with rd good' show ?thesis by (subst fingerprint_loop.simps) simp
    next
      case 4
      show ?thesis
      proof (cases "bs = []")
        case True
        with rd good' 4 show ?thesis by (subst fingerprint_loop.simps) simp
      next
        case False
        then have "n - length bs < n" using 4 by simp
        from outer [OF this good', of "acc @ take n bs"] rd 4 False show ?thesis
          by (subst fingerprint_loop.simps) simp
      qed
    qed
  qed
qed

lemma read_fingerprint_returns:
  assumes "good r"
  obtains res r' where "read_fingerprint ops r off n = Some (res, r')" "good r'"
proof -
  obtain x r1 where sk: "seek_start ops r off = (x, r1)" "good r1" using assms by (rule seek_cases)
  obtain res r2 where "fingerprint_loop ops r1 n [] = Some (res, r2)" "good r2"
    using fingerprint_loop_returns [OF sk(2)] by blast
  with sk that show thesis by (cases x) (auto simp: read_fingerprint_def)
qed

lemma check_vbr_returns:
  assumes "reader env = ops" and "good r"
  obtains r' fs' where "check_vbr env r i start off ds fs = Some (r', fs')" "good r'"
proof -
  obtain res r1 where rd: "read_first_sector ops r off = Some (res, r1)" "good r1"
    using assms(2) by (rule read_first_sector_returns)
  have "\<exists>r' fs'. check_vbr env r i start off ds fs = Some (r', fs') \<and> good r'"
  proof (cases res)
    case (Inr b)
    obtain parsed where "parse_bpb b = Some parsed" by (simp add: parse_bpb_eq)
    with Inr rd assms show ?thesis by (cases parsed) (simp_all add: check_vbr_def)
  qed (use rd assms in \<open>simp add: check_vbr_def\<close>)
  with that show thesis by blast
qed

lemma detect_and_check_fs_returns:
  assumes "reader env = ops" and "good r"
  obtains d r' fs' where "detect_and_check_fs env r i off t ds fs = Some (d, r', fs')" "good r'"
proof -
  obtain res r1 where "read_fingerprint ops r off FS_FINGERPRINT_BYTES = Some (res, r1)" "good r1"
    using assms(2) by (rule read_fingerprint_returns)
  then obtain d r2 where "detect_partition_fs env r off ds = Some (d, r2)" "good r2"
    using assms that
    by (cases res; cases "ds \<noteq> 0 \<and> ds \<le> off") (auto simp: detect_partition_fs_def detect_eq)
  with that show thesis by (simp add: detect_and_check_fs_def Let_def)
qed

lemma partition_volume_returns:
  assumes "reader env = ops" and "good r"
  obtains s e r' where "partition_volume env r off ds = Some ((s, e), r')" "good r'"
proof -
  obtain res r1 where "read_fingerprint ops r off FS_FINGERPRINT_BYTES = Some (res, r1)" "good r1"
    using assms(2) by (rule read_fingerprint_returns)
  with assms that show thesis
    by (cases res; cases "ds \<noteq> 0 \<and> ds \<le> off") (auto simp: partition_volume_def)
qed

lemma scan_entry_returns:
  assumes "reader env = ops" and "good r" and "i < 4"
  obtains r' fs' sc' where "scan_entry env ds last_lba ss i e (r, fs, sc) = Some (r', fs', sc')"
    "good r'"
proof (cases "type_is_empty (type_code e) \<and> (lba_start e \<noteq> 0 \<or> lba_count e \<noteq> 0) \<or> is_empty e")
  case True
  with assms that show thesis by (auto simp: scan_entry_def is_empty_def Let_def)
next
  case False
  define f1 where "f1 = (if status e \<noteq> 0x00 \<and> status e \<noteq> 0x80
    then record_finding env (InvalidPartitionStatus i (status e)) (446 + 16 * of_nat i) fs else fs)"
  obtain f2 where f2: "check_chs_lba env i e f1 = Some f2"
    using check_chs_lba_returns [OF assms(3)] by blast
  define f3 where "f3 = (if 0 < ds \<and> last_lba < ucast (lba_end e)
    then record_finding env (OutOfBounds i (ucast (lba_end e)) last_lba) (446 + 16 * of_nat i) f2
    else f2)"
  let ?start = "ucast (lba_start e) :: u64" and ?off = "lba_to_byte (ucast (lba_start e)) ss"
  obtain r4 f4 where f4: "check_vbr env r i ?start ?off ds f3 = Some (r4, f4)" "good r4"
    using assms(1,2) by (rule check_vbr_returns)
  obtain d r5 f5 where f5: "detect_and_check_fs env r4 i ?off (type_code e) ds f4 = Some (d, r5, f5)"
    "good r5" using assms(1) f4(2) by (rule detect_and_check_fs_returns)
  obtain s c r6 where f6: "partition_volume env r5 ?off ds = Some ((s, c), r6)" "good r6"
    using assms(1) f5(2) by (rule partition_volume_returns)
  note body = scan_entry_def [of env ds last_lba ss i e "(r, fs, sc)",
      unfolded Let_def prod.case entry_offset_eq [OF assms(3)] bind.bind_lunit,
      folded f1_def, unfolded f2 bind.bind_lunit, folded f3_def]
  from False f4 f5 f6 that body show thesis by auto
qed

lemma scan_loop_returns:
  "reader env = ops \<Longrightarrow> good r \<Longrightarrow> \<forall>(i, e) \<in> set es. i < 4 \<Longrightarrow>
   \<exists>r' fs' sc'. scan_loop env ds last_lba ss es (r, fs, sc) = Some (r', fs', sc') \<and> good r'"
proof (induction es arbitrary: r fs sc)
  case (Cons x es)
  obtain i e where x: "x = (i, e)" by force
  with Cons.prems have "i < 4" by simp
  then obtain r1 f1 sc1 where "scan_entry env ds last_lba ss i e (r, fs, sc) = Some (r1, f1, sc1)"
    "good r1" using Cons.prems(1,2) by (metis scan_entry_returns)
  with Cons.IH [OF Cons.prems(1) this(2)] Cons.prems(3) x show ?case by auto
qed simp

lemma scan_primary_entries_returns:
  assumes "reader env = ops" and "good r" and "length (entries m) = 4"
  obtains r' fs' sc where "scan_primary_entries env r m ds last_lba ss fs = Some (r', fs', sc)"
    "good r'"
proof -
  have "\<forall>(i, e) \<in> set (enumerate 0 (entries m)). i < 4"
    using assms(3) by (auto simp: in_set_enumerate_eq)
  from scan_loop_returns [OF assms(1,2) this] that show thesis
    unfolding scan_primary_entries_def by blast
qed

lemma scan_logical_returns:
  assumes "reader env = ops" and "good r" and "ebr_entry_ok ext ss l"
    and "unat (ebr_lba l) < 2 ^ 33" and "unat ss \<le> 2 ^ 30"
  obtains r' fs' sc' where "scan_logical env ds ss l (r, fs, sc) = Some (r', fs', sc')" "good r'"
proof -
  have sl: "length (slack l) = 32" using assms(3) by (simp add: ebr_entry_ok_def)
  have "unat (ebr_offset l) = unat (ebr_lba l) * unat ss"
    using assms(3) by (simp add: ebr_entry_ok_def)
  also have "\<dots> \<le> 2 ^ 33 * 2 ^ 30" using assms(4,5) by (intro mult_le_mono) simp_all
  finally have "checked_add (ebr_offset l) EBR_SLACK_OFFSET = Some (ebr_offset l + EBR_SLACK_OFFSET)"
    by (simp add: checked_add_def EBR_SLACK_OFFSET_def)
  moreover obtain h where "shannon (f64 env) (slack l) = Some h"
    using shannon_returns [of "slack l" "f64 env"] sl by auto
  ultimately obtain f1 where f1: "(if has_slack l
       then do {
         entropy \<leftarrow> shannon (f64 env) (slack l);
         off \<leftarrow> checked_add (ebr_offset l) EBR_SLACK_OFFSET;
         Some (record_finding env (EbrSlackData (ebr_lba l) entropy) off fs)
       }
       else Some fs) = Some f1" by (cases "has_slack l") simp_all
  let ?i = "EBR_INDEX_BASE + length (sc_summaries sc)"
  let ?start = "logical_lba_start l" and ?off = "lba_to_byte (logical_lba_start l) ss"
  obtain r4 f4 where f4: "check_vbr env r ?i ?start ?off ds f1 = Some (r4, f4)" "good r4"
    using assms(1,2) by (rule check_vbr_returns)
  obtain d r5 f5 where f5: "detect_and_check_fs env r4 ?i ?off (type_code (logical l)) ds f4 =
      Some (d, r5, f5)" "good r5"
    using assms(1) f4(2) by (rule detect_and_check_fs_returns)
  obtain s c r6 where f6: "partition_volume env r5 ?off ds = Some ((s, c), r6)" "good r6"
    using assms(1) f5(2) by (rule partition_volume_returns)
  show thesis
    using f4 f5 f6 that
    unfolding scan_logical_def Let_def prod.case f1 bind.bind_lunit by auto
qed

lemma logical_loop_returns:
  "reader env = ops \<Longrightarrow> good r \<Longrightarrow> unat ss \<le> 2 ^ 30 \<Longrightarrow>
   \<forall>l \<in> set ls. ebr_entry_ok ext ss l \<and> unat (ebr_lba l) < 2 ^ 33 \<Longrightarrow>
   \<exists>r' fs' sc'. logical_loop env ds ss ls (r, fs, sc) = Some (r', fs', sc') \<and> good r'"
proof (induction ls arbitrary: r fs sc)
  case (Cons l ls)
  obtain r1 f1 sc1 where "scan_logical env ds ss l (r, fs, sc) = Some (r1, f1, sc1)" "good r1"
    using Cons.prems by (metis list.set_intros(1) scan_logical_returns)
  with Cons.IH [OF Cons.prems(1) this(2) Cons.prems(3)] Cons.prems(4) show ?case by auto
qed simp

lemma walk_extended_returns:
  assumes "reader env = ops" and "good r" and "unat ss \<le> 2 ^ 30"
  obtains chain r' fs' sc' where "walk_extended env r m sc ds ss fs = Some (chain, r', fs', sc')"
    "good r'"
proof (cases "find is_extended (entries m)")
  case None
  with assms that show thesis by (simp add: walk_extended_def)
next
  case (Some ext)
  obtain res r1 where w: "walk_ebr_chain ops r (ucast (lba_start ext)) ss = Some (res, r1)" "good r1"
    using assms(2) by (rule walk_ebr_chain_returns)
  show thesis
  proof (cases res)
    case (Inl err)
    with Some w assms that show thesis by (simp add: walk_extended_def Let_def)
  next
    case (Inr c)
    have ok: "ebr_chain_ok (ucast (lba_start ext)) ss c"
      using w(1) unfolding Inr by (rule walk_ebr_chain_ok)
    then have "\<forall>l \<in> set (links c). ebr_entry_ok (ucast (lba_start ext)) ss l \<and> unat (ebr_lba l) < 2 ^ 33"
      using ebr_chain_ok_lba_bound(1) [OF ok] by (auto simp: ebr_chain_ok_def list_all_iff)
    note logical = logical_loop_returns [OF assms(1) w(2) assms(3) this, of ds _ sc]
    let ?off = "lba_to_byte (ucast (lba_start ext)) ss"
    let ?f0 = "if had_cycle c then record_finding env EbrCycle ?off fs else fs"
    let ?f1 = "if depth_exceeded c
      then record_finding env (EbrExcessiveDepth (length (links c))) ?off ?f0 else ?f0"
    obtain r' fs' sc' where "logical_loop env ds ss (links c) (r1, ?f1, sc) = Some (r', fs', sc')" "good r'"
      using logical [of ?f1] by blast
    with Some w(1) Inr assms(1) show thesis
      by (intro that [of c r' fs' sc']) (simp_all add: walk_extended_def Let_def split del: if_split)
  qed
qed

lemma gap_sample_fits:
  assumes "gap_fits ss g" and "gap_sample_len g \<le> unat (gap_byte_size g)"
  shows "unat (lba_to_byte (gap_lba_start g) ss) + gap_sample_len g < 2 ^ 64"
proof -
  let ?lo = "unat (gap_lba_start g)" and ?hi = "unat (gap_lba_end g)"
  have le: "?lo \<le> ?hi" and bytes: "unat (gap_byte_size g) = (?hi - ?lo + 1) * unat ss"
    and fit: "(?hi + 1) * unat ss < 2 ^ 64"
    using assms(1) by (simp_all add: gap_fits_def gap_ok_def word_le_nat_alt)
  have "unat (lba_to_byte (gap_lba_start g) ss) \<le> ?lo * unat ss"
    by (simp add: lba_to_byte_def rust_arith)
  then have "unat (lba_to_byte (gap_lba_start g) ss) + gap_sample_len g
      \<le> ?lo * unat ss + (?hi - ?lo + 1) * unat ss"
    using assms(2) bytes by linarith
  also have "\<dots> = (?hi + 1) * unat ss"
    using le by (simp add: add_mult_distrib [symmetric])
  finally show ?thesis using fit by linarith
qed

lemma gap_sample_len_le: "gap_sample_len g \<le> unat (gap_byte_size g)"
  by (simp add: gap_sample_len_def word_le_nat_alt [symmetric])

lemma check_gap_content_returns:
  "reader env = ops \<Longrightarrow> good r \<Longrightarrow> \<forall>g \<in> set gaps. gap_fits ss g \<Longrightarrow>
   \<exists>r' fs'. check_gap_content env ss r gaps fs = Some (r', fs') \<and> good r'"
proof (induction gaps arbitrary: r fs)
  case (Cons g gaps)
  let ?off = "lba_to_byte (gap_lba_start g) ss"
  have IH: "\<exists>r' fs'. check_gap_content env ss r1 gaps f1 = Some (r', fs') \<and> good r'"
    if "good r1" for r1 f1
    using Cons that by simp
  note step = check_gap_content.simps(2) [of env ss r g gaps fs, unfolded Let_def,
      folded gap_sample_len_def]
  obtain x r1 where sk: "seek_start ops r ?off = (x, r1)" "good r1"
    using Cons.prems(2) by (rule seek_cases)
  obtain res r2 where rd: "read_exact ops r1 (gap_sample_len g) = Some (res, r2)" "good r2"
    "\<forall>bs. res = Inr bs \<longrightarrow> length bs = gap_sample_len g"
    using sk(2) by (rule read_exact_returns)
  consider "gap_sample_len g = 0" | e where "0 < gap_sample_len g" "x = Inl e"
    | y e where "0 < gap_sample_len g" "x = Inr y" "res = Inl e"
    | y buf where "0 < gap_sample_len g" "x = Inr y" "res = Inr buf"
    by (cases x; cases res) auto
  then show ?case
  proof cases
    case 1
    with step IH Cons.prems(2) show ?thesis by simp
  next
    case 2
    with step IH sk Cons.prems(1) show ?thesis by simp
  next
    case 3
    with step IH sk rd Cons.prems(1) show ?thesis by simp
  next
    case 4
    then have len: "length buf = gap_sample_len g" using rd(3) by simp
    have fits: "unat ?off + length buf < 2 ^ 64"
      unfolding len using Cons.prems(3) by (intro gap_sample_fits gap_sample_len_le) simp
    then have "length buf < 2 ^ 64" by linarith
    then obtain p where p: "classify (f64 env) buf = Some p" using classify_returns by blast
    from step IH sk rd 4 Cons.prems(1) p carve_eq [OF fits] show ?thesis
      by (simp add: Let_def)
  qed
qed simp

text \<open>The stages before the walk of the EBR chain keep the reader's invariant.\<close>

lemma read_mbr_good: "good r \<Longrightarrow> read_mbr ops r = Some (res, r') \<Longrightarrow> good r'"
  by (erule read_mbr_returns) simp

lemma gpt_header_present_good:
  "good r \<Longrightarrow> gpt_header_present ops r ss = Some (hdr, r') \<Longrightarrow> good r'"
  by (erule gpt_header_present_returns [of _ ss]) simp

lemma scan_primary_entries_good:
  assumes "reader env = ops" and "good r" and "length (entries m) = 4"
    and "scan_primary_entries env r m ds last_lba ss fs = Some (r', fs', sc)"
  shows "good r'"
  by (rule scan_primary_entries_returns [OF assms(1-3), of ds last_lba ss fs]) (use assms(4) in simp)

subsection \<open>The pipeline\<close>

lemma analyse_with_options_returns:
  assumes rd: "reader env = ops" and good: "good r"
    and ss: "0 < opt_sector_size opts" "unat (opt_sector_size opts) \<le> 2 ^ 30"
    and gpt: "\<And>r. gpt_analyse env r ds \<noteq> None"
  shows "\<exists>res. analyse_with_options env r ds opts = Some res"
proof -
  let ?ss = "opt_sector_size opts"
  obtain res r1 where mbr: "read_mbr ops r = Some (res, r1)" "good r1"
    using good by (rule read_mbr_returns)
  show ?thesis
  proof (cases res)
    case (Inl e)
    with mbr rd show ?thesis by (simp add: analyse_with_options_def)
  next
    case (Inr m)
    have wf: "length (boot_code m) = 446" "length (entries m) = 4"
      using read_mbr_wf [OF mbr(1) [unfolded Inr]] by (simp_all add: mbr_wf_def)
    let ?bid = "identify (identify_loader env) (boot_code m)"
    obtain hdr r2 where s2: "gpt_header_present ops r1 ?ss = Some (hdr, r2)" "good r2"
      using mbr(2) by (rule gpt_header_present_returns)
    obtain f1 where s3: "check_boot_code env m ?bid (hdr \<and> is_pure_protective_mbr m) [] = Some f1"
      using check_boot_code_returns [OF wf(1)] by blast
    obtain f5 where s5: "check_duplicate_entries env m (check_bootable_flags env m
        (check_reserved env m (check_disk_signature env m ?bid f1))) = Some f5"
      using check_duplicate_entries_returns [OF wf(2)] by blast
    obtain last_lba where s6: "disk_last_lba ds ?ss = Some last_lba"
      "0 < ds \<Longrightarrow> (unat last_lba + 1) * unat ?ss < 2 ^ 64"
      using ss(1) by (rule disk_last_lba_returns) blast
    obtain f6 where s7: "check_gpt env m last_lba hdr ?ss f5 = Some f6"
      using check_gpt_returns [OF wf(2)] by blast
    obtain r7 f7 sc7 where s8: "scan_primary_entries env r2 m ds last_lba ?ss f6 = Some (r7, f7, sc7)"
      "good r7" using rd s2(2) wf(2) by (rule scan_primary_entries_returns)
    obtain chain r8 f8 sc8 where
      s9: "walk_extended env r7 m sc7 ds ?ss f7 = Some (chain, r8, f8, sc8)" "good r8"
      using rd s8(2) ss(2) by (rule walk_extended_returns)
    obtain f9 where s10: "check_overlaps env (sc_overlap_extents sc8) f8 = Some f9"
      using check_overlaps_returns by blast
    obtain gaps f10 where s11: "check_gaps env (sc_extents sc8) ds last_lba ?ss f9 = Some (gaps, f10)"
      and fit: "\<forall>g \<in> set gaps. gap_fits ?ss g"
      using scan_bounded [OF s8(1) wf(2) s9(1)] ss(2) s6(2) by (rule check_gaps_returns)
    obtain r11 f11 where s12: "check_gap_content env ?ss r8 gaps f10 = Some (r11, f11)"
      using check_gap_content_returns [OF rd s9(2) fit] by blast
    obtain g where s13: "(if hdr then gpt_analyse env r11 ds else Some None) = Some g"
      using gpt [of r11] by (cases hdr) auto
    show ?thesis
      unfolding analyse_with_options_def Let_def rd mbr(1) Inr bind.bind_lunit prod.case sum.case
        s2(1) s3 s5 s6(1) s7 s8(1) s9(1) s10 s11 s12 s13 by blast
  qed
qed

end

context image_reader
begin

lemma read_mbr_at:
  assumes "pos r img p"
  obtains r' q where "read_mbr ops r =
      Some (if 512 \<le> length img
            then (if img ! 510 = 0x55 \<and> img ! 511 = 0xAA then Inr (mbr_of_bytes (take 512 img))
                  else Inl (BadSignature (from_be_bytes [img ! 510, img ! 511])))
            else Inl (Io UnexpectedEof), r')"
    "pos r' img q"
proof -
  obtain r1 where sk: "seek_start ops r 0 = (Inr 0, r1)" "pos r1 img 0"
    using seek_at [OF assms, of 0] by auto
  obtain r2 q where rd: "read_exact ops r1 512 =
      Some (if 512 \<le> length img then Inr (take 512 img) else Inl UnexpectedEof, r2)" "pos r2 img q"
    by (rule read_exact_at [OF sk(2), of 512]) simp
  show thesis
    using sk rd by (intro that [of r2 q]) (auto simp: read_mbr_def SECTOR_SIZE_def parse_mbr_sector_eq)
qed

lemma gpt_header_present_at:
  assumes "pos r img p"
  shows "\<exists>r'. gpt_header_present ops r ss =
    Some (unat ss + 512 \<le> length img \<and> take 8 (drop (unat ss) img) = ascii ''EFI PART'', r')"
proof -
  obtain r1 where sk: "seek_start ops r ss = (Inr ss, r1)" "pos r1 img (unat ss)"
    using seek_at [OF assms] by auto
  obtain r2 q where rd: "read_exact ops r1 512 =
      Some (if unat ss + 512 \<le> length img then Inr (take 512 (drop (unat ss) img))
            else Inl UnexpectedEof, r2)" "pos r2 img q"
    by (rule read_exact_at [OF sk(2), of 512]) simp
  have "length GPT_HEADER_MAGIC = 8" by (simp add: GPT_HEADER_MAGIC_def)
  with sk rd show ?thesis
    unfolding GPT_HEADER_MAGIC_def [symmetric]
    by (simp add: gpt_header_present_def read_first_sector_def SECTOR_SIZE_def has_gpt_header_def)
qed

end

subsection \<open>Sample environments\<close>

text \<open>Knowledge bases that recognise nothing, over the two readers of the repository.\<close>

definition sample_env :: "'r reader_ops \<Rightarrow> ('r, unit, unit, unit) env" where
  "sample_env ops = \<lparr>reader = ops, identify_loader = (\<lambda>_. None), detect_name = (\<lambda>_. None),
     type_name = (\<lambda>_. None), bootkit_scan = (\<lambda>_. []), volume_serial_of = (\<lambda>_. None),
     detect_encryption = (\<lambda>_. None), gpt_analyse = (\<lambda>_ _. Some None), f64 = exact_f64\<rparr>"

lemma sample_env_fields [simp]:
  "reader (sample_env ops) = ops" "gpt_analyse (sample_env ops) r ds = Some None"
  by (simp_all add: sample_env_def)

lemma default_sector_size: "0 < opt_sector_size default_options"
  "unat (opt_sector_size default_options) \<le> 2 ^ 30"
  by (simp_all add: default_options_def SECTOR_BYTES_def SECTOR_SIZE_def)

lemma cursor_analysis_returns:
  assumes "reader env = cursor_ops" and "length data < 2 ^ 63"
    and "\<And>r. gpt_analyse env r ds \<noteq> None"
    and "0 < opt_sector_size opts" "unat (opt_sector_size opts) \<le> 2 ^ 30"
  shows "\<exists>res. analyse_with_options env (cursor_new data) ds opts = Some res"
proof -
  have "\<exists>img p. cursor_at (cursor_new data) img p" using cursor_new_at [OF assms(2)] by blast
  from cur.fair.analyse_with_options_returns [OF assms(1) this assms(4,5,3)] show ?thesis .
qed

lemma sample_read_mbr:
  assumes "cursor_at r sample_mbr p"
  obtains m r' where "read_mbr cursor_ops r = Some (Inr m, r')"
proof -
  obtain r' q where "read_mbr cursor_ops r = Some (Inr (mbr_of_bytes (take 512 sample_mbr)), r')"
    by (rule cur.read_mbr_at [OF assms]) (simp add: sample_mbr_def nth_append)
  with that show thesis by blast
qed

subsection \<open>Properties\<close>

text \<open>
  C2 (safety): the analysis never panics and always terminates.  Over every reader that may
  fail, seek out of range, return short reads and be interrupted finitely often in a row, for
  every disk size and every sector size from 1 byte to \<open>2 ^ 30\<close> bytes, \<open>analyse_with_options\<close>
  returns a report or an error, provided the GPT crate's analysis returns.
\<close>
theorem analyse_never_panics:
  assumes "fair_reader (reader env) good retries" and "good r"
    and "0 < opt_sector_size opts" and "unat (opt_sector_size opts) \<le> 2 ^ 30"
    and "\<And>r. gpt_analyse env r disk_size_bytes \<noteq> None"
  shows "\<exists>res. analyse_with_options env r disk_size_bytes opts = Some res"
  by (rule fair_reader.analyse_with_options_returns [OF assms(1) refl assms(2-5)])

theorem analyse_never_panics_witness:
  "fair_reader faulty_ops (\<lambda>_. True) interrupt_reads
   \<and> (\<exists>res. analyse_with_options (sample_env faulty_ops) sample_faulty 512 default_options = Some res)"
  using analyse_never_panics [of "sample_env faulty_ops" "\<lambda>_. True" interrupt_reads sample_faulty
      default_options 512] faulty.fair_reader_axioms default_sector_size by simp

text \<open>
  Further fact (safety): the fuzz target never fails: whatever bytes are analysed as an in-memory disk of
  their own length, the default analysis returns a report or one of the three documented errors.
\<close>
theorem fuzz_forensic_never_panics:
  assumes "reader env = cursor_ops" and "length data < 2 ^ 63"
    and "\<And>r ds. gpt_analyse env r ds \<noteq> None"
  shows "fuzz_forensic env data = Some ()"
proof -
  obtain res where "analyse env (cursor_new data) (of_nat (length data)) = Some res"
    using cursor_analysis_returns [OF assms default_sector_size] unfolding analyse_def by blast
  then show ?thesis by (auto simp: fuzz_forensic_def split: sum.splits error.splits)
qed

theorem fuzz_forensic_never_panics_witness:
  "length sample_mbr < 2 ^ 63 \<and> fuzz_forensic (sample_env cursor_ops) sample_mbr = Some ()"
proof -
  have len: "length sample_mbr < 2 ^ 63" by (simp add: sample_mbr_def)
  with fuzz_forensic_never_panics [of "sample_env cursor_ops", OF _ len] show ?thesis by simp
qed

text \<open>
  Further fact (error): the bound on the sector size is needed below: with a sector size of zero and a
  known disk size, every analysis that gets past the boot record divides by zero.
\<close>
theorem zero_sector_size_panics:
  assumes "read_mbr (reader env) r = Some (Inr m, r')" and "0 < disk_size_bytes"
    and "opt_sector_size opts = 0"
  shows "analyse_with_options env r disk_size_bytes opts = None"
proof -
  have "disk_last_lba disk_size_bytes 0 = None"
    using assms(2) by (simp add: disk_last_lba_def checked_div_def)
  with assms(1,3) show ?thesis
    by (auto simp: analyse_with_options_def Let_def split: Option.bind_splits)
qed

theorem zero_sector_size_panics_witness:
  "analyse_with_options (sample_env cursor_ops) (cursor_new sample_mbr) 512 \<lparr>opt_sector_size = 0\<rparr> = None"
proof -
  have at: "cursor_at (cursor_new sample_mbr) sample_mbr 0"
    by (rule cursor_new_at) (simp add: sample_mbr_def)
  obtain m r' where "read_mbr cursor_ops (cursor_new sample_mbr) = Some (Inr m, r')"
    using at by (rule sample_read_mbr)
  then show ?thesis
    using zero_sector_size_panics [of "sample_env cursor_ops" "cursor_new sample_mbr" m r' 512
        "\<lparr>opt_sector_size = 0\<rparr>"] by simp
qed

end
