(* ===== verification/Report.thy ===== *)
theory Report
  imports Robust
begin

text \<open>
  What an analysis reports (\<open>forensic/src/analyse.rs\<close>): the pipeline taken apart into its
  stages and the exact contribution of each stage to the finished report, with the sample disks of the
  witnesses.
\<close>

subsection \<open>The pipeline taken apart\<close>

lemma analyse_stages:
  assumes "analyse_with_options env r0 ds opts = Some (Inr a)"
  obtains m r1 hdr r2 f1 f4 f5 last_lba f6 r7 f7 sc7 r8 f8 sc8 f9 f10 r11 where
    "read_mbr (reader env) r0 = Some (Inr m, r1)"
    "gpt_header_present (reader env) r1 (opt_sector_size opts) = Some (hdr, r2)"
    "check_boot_code env m (ma_boot_code_id a) (hdr \<and> is_pure_protective_mbr m) [] = Some f1"
    "f4 = check_bootable_flags env m (check_reserved env m
       (check_disk_signature env m (ma_boot_code_id a) f1))"
    "check_duplicate_entries env m f4 = Some f5"
    "disk_last_lba ds (opt_sector_size opts) = Some last_lba"
    "check_gpt env m last_lba hdr (opt_sector_size opts) f5 = Some f6"
    "scan_primary_entries env r2 m ds last_lba (opt_sector_size opts) f6 = Some (r7, f7, sc7)"
    "walk_extended env r7 m sc7 ds (opt_sector_size opts) f7 = Some (ma_ebr_chain a, r8, f8, sc8)"
    "check_overlaps env (sc_overlap_extents sc8) f8 = Some f9"
    "check_gaps env (sc_extents sc8) ds last_lba (opt_sector_size opts) f9 = Some (ma_gaps a, f10)"
    "check_gap_content env (opt_sector_size opts) r8 (ma_gaps a) f10 = Some (r11, ma_anomalies a)"
    "ma_mbr a = m" "ma_partitions a = sc_summaries sc8"
    "ma_boot_code_id a = identify (identify_loader env) (boot_code m)"
    "ma_disk_serial a = disk_serial m"
    "ma_era a = infer_era (first_partition_lba m) (ma_boot_code_id a)"
    "mbr_wf m" "scan_ok sc8"
proof -
  let ?ss = "opt_sector_size opts"
  note body0 = assms [unfolded analyse_with_options_def Let_def]
  obtain res r1 where mbr: "read_mbr (reader env) r0 = Some (res, r1)"
    using body0 by (auto elim!: bind_SomeE)
  note body1 = body0 [unfolded mbr bind.bind_lunit prod.case]
  obtain m where res: "res = Inr m" using body1 by (cases res) auto
  let ?bid = "identify (identify_loader env) (boot_code m)"
  note wf = read_mbr_wf [OF mbr [unfolded res]]
  note b0 = body1 [unfolded res sum.case]
  obtain hdr r2 where s0: "gpt_header_present (reader env) r1 ?ss = Some (hdr, r2)"
    using b0 by (auto elim!: bind_SomeE simp del: if_split)
  note b1 = b0 [unfolded s0 bind.bind_lunit prod.case]
  obtain f1 where s1: "check_boot_code env m ?bid (hdr \<and> is_pure_protective_mbr m) [] = Some f1"
    using b1 by (auto elim!: bind_SomeE simp del: if_split)
  note b2 = b1 [unfolded s1 bind.bind_lunit prod.case]
  obtain f5 where s2: "check_duplicate_entries env m (check_bootable_flags env m (check_reserved env m
      (check_disk_signature env m ?bid f1))) = Some f5"
    using b2 by (auto elim!: bind_SomeE simp del: if_split)
  note b3 = b2 [unfolded s2 bind.bind_lunit prod.case]
  obtain last_lba where s3: "disk_last_lba ds ?ss = Some last_lba"
    using b3 by (auto elim!: bind_SomeE simp del: if_split)
  note b4 = b3 [unfolded s3 bind.bind_lunit prod.case]
  obtain f6 where s4: "check_gpt env m last_lba hdr ?ss f5 = Some f6"
    using b4 by (auto elim!: bind_SomeE simp del: if_split)
  note b5 = b4 [unfolded s4 bind.bind_lunit prod.case]
  obtain r7 f7 sc7 where s5: "scan_primary_entries env r2 m ds last_lba ?ss f6 = Some (r7, f7, sc7)"
    using b5 by (auto elim!: bind_SomeE simp del: if_split)
  note b6 = b5 [unfolded s5 bind.bind_lunit prod.case]
  obtain chain r8 f8 sc8 where s6: "walk_extended env r7 m sc7 ds ?ss f7 = Some (chain, r8, f8, sc8)"
    using b6 by (auto elim!: bind_SomeE simp del: if_split)
  note b7 = b6 [unfolded s6 bind.bind_lunit prod.case]
  obtain f9 where s7: "check_overlaps env (sc_overlap_extents sc8) f8 = Some f9"
    using b7 by (auto elim!: bind_SomeE simp del: if_split)
  note b8 = b7 [unfolded s7 bind.bind_lunit prod.case]
  obtain gaps f10 where s8: "check_gaps env (sc_extents sc8) ds last_lba ?ss f9 = Some (gaps, f10)"
    using b8 by (auto elim!: bind_SomeE simp del: if_split)
  note b9 = b8 [unfolded s8 bind.bind_lunit prod.case]
  obtain r11 f11 where s9: "check_gap_content env ?ss r8 gaps f10 = Some (r11, f11)"
    using b9 by (auto elim!: bind_SomeE simp del: if_split)
  note b10 = b9 [unfolded s9 bind.bind_lunit prod.case]
  obtain gpt where s10: "(if hdr then gpt_analyse env r11 ds else Some None) = Some gpt"
    using b10 by (auto elim!: bind_SomeE simp del: if_split)
  note b11 = b10 [unfolded s10 bind.bind_lunit prod.case]
  have len: "length (entries m) = 4" using wf by (simp add: mbr_wf_def)
  have "scan_ok sc8"
    using walk_extended_scan [OF s6] scan_primary_entries_scan(1) [OF s5 len] by blast
  moreover have a: "ma_mbr a = m" "ma_partitions a = sc_summaries sc8" "ma_ebr_chain a = chain"
    "ma_gaps a = gaps" "ma_boot_code_id a = ?bid" "ma_disk_serial a = disk_serial m"
    "ma_era a = infer_era (first_partition_lba m) ?bid" "ma_anomalies a = f11"
    using b11 by auto
  ultimately show thesis
    using that [OF mbr [unfolded res], of hdr r2 f1 _ f5 last_lba f6 r7 f7 sc7 r8 f8 sc8 f9 f10 r11,
        unfolded a] wf s0 s1 s2 s3 s4 s5 s6 s7 s8 s9 by blast
qed

text \<open>The anomalies after each stage, and the variants that the stages after it can add.\<close>

lemma boot_record_checks_emit:
  assumes "check_boot_code env m bid on_gpt [] = Some f1"
    and "check_duplicate_entries env m (check_bootable_flags env m (check_reserved env m
      (check_disk_signature env m bid f1))) = Some f5"
    and "check_gpt env m last_lba hdr ss f5 = Some f6"
  shows "emits env UNIV [] f6"
proof -
  note up = emits_mono [OF _ subset_UNIV]
  have "emits env UNIV [] f1" by (rule up [OF check_boot_code_emits [OF assms(1)]])
  also have "emits env UNIV f1 (check_disk_signature env m bid f1)" (is "emits _ _ _ ?f2")
    by (rule up [OF check_disk_signature_emits])
  also have "emits env UNIV ?f2 (check_reserved env m ?f2)" (is "emits _ _ _ ?f3")
    by (rule up [OF check_reserved_emits])
  also have "emits env UNIV ?f3 (check_bootable_flags env m ?f3)"
    by (rule up [OF check_bootable_flags_emits])
  also have "emits env UNIV (check_bootable_flags env m ?f3) f5"
    by (rule up [OF check_duplicate_entries_emits [OF assms(2)]])
  also have "emits env UNIV f5 f6" by (rule up [OF check_gpt_emits [OF assms(3)]])
  finally show ?thesis .
qed

lemma layout_checks_emit:
  assumes "check_overlaps env xs f8 = Some f9" and "check_gaps env es ds last_lba ss f9 = Some (gaps, f10)"
    and "check_gap_content env ss r gaps f10 = Some (r', f11)"
  shows "emits env UNIV f8 f11"
proof -
  note up = emits_mono [OF _ subset_UNIV]
  have "emits env UNIV f8 f9" by (rule up [OF check_overlaps_emits [OF assms(1)]])
  also have "emits env UNIV f9 f10" by (rule up [OF check_gaps_emits [OF assms(2)]])
  also have "emits env UNIV f10 f11" by (rule up [OF check_gap_content_emits [OF assms(3)]])
  finally show ?thesis .
qed

lemma analyse_emits:
  assumes "analyse_with_options env r0 ds opts = Some (Inr a)"
  shows "emits env UNIV [] (ma_anomalies a)"
  using assms
proof (cases rule: analyse_stages)
  case (1 m r1 hdr r2 f1 f4 f5 last_lba f6 r7 f7 sc7 r8 f8 sc8 f9 f10 r11)
  note up = emits_mono [OF _ subset_UNIV]
  have "emits env UNIV [] f6" by (rule boot_record_checks_emit [OF 1(3) 1(5) [unfolded 1(4)] 1(7)])
  also have "emits env UNIV f6 f7" by (rule up [OF scan_primary_entries_emits [OF 1(8)]])
  also have "emits env UNIV f7 f8" by (rule up [OF walk_extended_emits [OF 1(9)]])
  also have "emits env UNIV f8 (ma_anomalies a)" by (rule layout_checks_emit [OF 1(10-12)])
  finally show ?thesis .
qed

text \<open>
  A variant is settled by the stage that emits it: the stages before have recorded none of it
  and the stages after add none.
\<close>

lemma analyse_variants:
  assumes "analyse_with_options env r0 ds opts = Some (Inr a)"
  obtains m r1 hdr r2 f1 f4 f5 last_lba f6 r7 f7 sc7 r8 f8 sc8 f9 f10 where
    "read_mbr (reader env) r0 = Some (Inr m, r1)" "mbr_wf m" "ma_mbr a = m" "scan_ok sc8"
    "ma_partitions a = sc_summaries sc8" "disk_last_lba ds (opt_sector_size opts) = Some last_lba"
    "gpt_header_present (reader env) r1 (opt_sector_size opts) = Some (hdr, r2)"
    "check_boot_code env m (ma_boot_code_id a) (hdr \<and> is_pure_protective_mbr m) [] = Some f1"
    "\<And>n. n \<in> {4, 25, 26, 27, 28, 29} \<Longrightarrow> of_variant n (ma_anomalies a) = of_variant n f1"
    "\<And>n. n \<in> {0, 1, 2, 3} \<Longrightarrow> of_variant n (ma_anomalies a) =
       of_variant n (check_bootable_flags env m (check_reserved env m
         (check_disk_signature env m (ma_boot_code_id a) f1)))"
    "\<And>n. n \<in> {0, 1, 2, 3} \<Longrightarrow> of_variant n f1 = {}"
    "check_duplicate_entries env m f4 = Some f5" "of_variant 7 f4 = {}"
    "of_variant 7 (ma_anomalies a) = of_variant 7 f5"
    "check_gpt env m last_lba hdr (opt_sector_size opts) f5 = Some f6"
    "\<And>n. n \<in> {11, 12, 13, 14} \<Longrightarrow> of_variant n f5 = {}"
    "\<And>n. n \<in> {11, 12, 13, 14} \<Longrightarrow> of_variant n (ma_anomalies a) = of_variant n f6"
    "scan_primary_entries env r2 m ds last_lba (opt_sector_size opts) f6 = Some (r7, f7, sc7)"
    "\<And>n. n \<in> {5, 6, 9, 10} \<Longrightarrow> of_variant n f6 = {}"
    "\<And>n. n \<in> {5, 6, 9, 10} \<Longrightarrow> of_variant n (ma_anomalies a) = of_variant n f7"
    "walk_extended env r7 m sc7 ds (opt_sector_size opts) f7 = Some (ma_ebr_chain a, r8, f8, sc8)"
    "\<And>n. n \<in> {15, 16, 17} \<Longrightarrow> of_variant n f7 = {}"
    "\<And>n. n \<in> {15, 16, 17} \<Longrightarrow> of_variant n (ma_anomalies a) = of_variant n f8"
    "check_overlaps env (sc_overlap_extents sc8) f8 = Some f9" "of_variant 8 f8 = {}"
    "of_variant 8 (ma_anomalies a) = of_variant 8 f9"
    "check_gaps env (sc_extents sc8) ds last_lba (opt_sector_size opts) f9 = Some (ma_gaps a, f10)"
    "\<And>n. n \<in> {18, 19, 20} \<Longrightarrow> of_variant n f9 = {}"
    "\<And>n. n \<in> {18, 19, 20} \<Longrightarrow> of_variant n (ma_anomalies a) = of_variant n f10"
  using assms
proof (cases rule: analyse_stages)
  case (1 m r1 hdr r2 f1 f4 f5 last_lba f6 r7 f7 sc7 r8 f8 sc8 f9 f10 r11)
  let ?f2 = "check_disk_signature env m (ma_boot_code_id a) f1" and ?f3 = "check_reserved env m"
  note e1 = emits_of_variant [OF check_boot_code_emits [OF 1(3)]]
  note e2 = emits_of_variant [OF check_disk_signature_emits [of env f1 m "ma_boot_code_id a"]]
  note e3 = emits_of_variant [OF check_reserved_emits [of env ?f2 m]]
  note e4 = emits_of_variant [OF check_bootable_flags_emits [of env "?f3 ?f2" m], folded 1(4)]
  note e5 = emits_of_variant [OF check_duplicate_entries_emits [OF 1(5)]]
  note e6 = emits_of_variant [OF check_gpt_emits [OF 1(7)]]
  note e7 = emits_of_variant [OF scan_primary_entries_emits [OF 1(8)]]
  note e8 = emits_of_variant [OF walk_extended_emits [OF 1(9)]]
  note e9 = emits_of_variant [OF check_overlaps_emits [OF 1(10)]]
  note e10 = emits_of_variant [OF check_gaps_emits [OF 1(11)]]
  note e11 = emits_of_variant [OF check_gap_content_emits [OF 1(12)]]
  note e = e1 e2 e3 e4 e5 e6 e7 e8 e9 e10 e11
  show thesis
    by (rule that [OF 1(1,18,13,19,14,6,2,3) _ _ _ 1(5) _ _ 1(7) _ _ 1(8) _ _ 1(9) _ _ 1(10) _ _ 1(11)])
      (auto simp: e simp flip: 1(4))
qed

subsection \<open>Overlaps\<close>

definition overlap_kind :: "nat \<times> u64 \<times> u64 \<Rightarrow> nat \<times> u64 \<times> u64 \<Rightarrow> anomaly_kind" where
  "overlap_kind x y = OverlappingPartitions (fst x) (fst y) (snd (snd x)) (fst (snd y))"

definition runs_into :: "nat \<times> u64 \<times> u64 \<Rightarrow> nat \<times> u64 \<times> u64 \<Rightarrow> bool" where
  "runs_into x y \<longleftrightarrow> fst (snd y) \<le> snd (snd x)"

lemma variant_overlap_kind [simp]: "variant (overlap_kind x y) = 8"
  by (simp add: overlap_kind_def)

lemma overlap_pairs_kinds:
  assumes "\<forall>p \<in> set ps. length p = 2" and "overlap_pairs env ps fs = Some fs'"
  shows "of_variant 8 fs' = of_variant 8 fs \<union>
    (\<lambda>p. overlap_kind (p ! 0) (p ! 1)) ` {p \<in> set ps. runs_into (p ! 0) (p ! 1)}"
  using assms
proof (induction ps arbitrary: fs)
  case (Cons p ps)
  have idx: "index p 0 = Some (p ! 0)" "index p 1 = Some (p ! 1)" using Cons.prems(1) by simp_all
  note body = Cons.prems(2) [unfolded overlap_pairs.simps idx bind.bind_lunit case_prod_unfold,
      folded runs_into_def overlap_kind_def]
  show ?case
  proof (cases "runs_into (p ! 0) (p ! 1)")
    case True
    then obtain off where
      "overlap_pairs env ps (record_finding env (overlap_kind (p ! 0) (p ! 1)) off fs) = Some fs'"
      using body by (auto elim!: bind_SomeE)
    from Cons.IH [OF _ this] Cons.prems(1) True show ?thesis by auto
  next
    case False
    then have "overlap_pairs env ps fs = Some fs'" using body by simp
    from Cons.IH [OF _ this] Cons.prems(1) False show ?thesis by auto
  qed
qed simp

lemma set_windows_2: "set (windows 2 xs) = (\<lambda>k. [xs ! k, xs ! Suc k]) ` {k. Suc k < length xs}"
proof -
  have "set (windows 2 xs) = (\<lambda>k. windows 2 xs ! k) ` {k. k < length (windows 2 xs)}"
    unfolding set_conv_nth by blast
  also have "\<dots> = (\<lambda>k. [xs ! k, xs ! Suc k]) ` {k. Suc k < length xs}"
    by (rule image_cong) (auto simp: take_2_drop)
  finally show ?thesis .
qed

abbreviation by_start :: "(nat \<times> u64 \<times> u64) list \<Rightarrow> (nat \<times> u64 \<times> u64) list" where
  "by_start xs \<equiv> sort_key (\<lambda>(_, start, _). start) xs"

lemma check_overlaps_kinds:
  assumes "check_overlaps env xs fs = Some fs'" and "of_variant 8 fs = {}"
  shows "of_variant 8 fs' = (\<lambda>k. overlap_kind (by_start xs ! k) (by_start xs ! Suc k)) `
    {k. Suc k < length xs \<and> runs_into (by_start xs ! k) (by_start xs ! Suc k)}"
proof -
  have "\<forall>p \<in> set (windows 2 (by_start xs)). length p = 2" by (auto simp: set_windows_2)
  from overlap_pairs_kinds [OF this assms(1) [unfolded check_overlaps_def]] show ?thesis
    unfolding assms(2) set_windows_2 Compr_image_eq by (simp add: image_image)
qed

text \<open>Adjacent comparisons of sorted extents find a shared sector if there is one.\<close>

definition claims :: "nat \<Rightarrow> nat \<times> u64 \<times> u64 \<Rightarrow> bool" where
  "claims lba = (\<lambda>(_, s, e). unat s \<le> lba \<and> lba \<le> unat e)"

lemma adjacent_overlap_iff:
  assumes srt: "sorted (map (\<lambda>(_, s, _). s) ys)" and wf: "\<forall>(_, s, e) \<in> set ys. s \<le> e"
  shows "(\<exists>k. Suc k < length ys \<and> runs_into (ys ! k) (ys ! Suc k)) \<longleftrightarrow>
    (\<exists>lba. 2 \<le> length (filter (claims lba) ys))"
  unfolding runs_into_def
proof
  assume "\<exists>k. Suc k < length ys \<and> fst (snd (ys ! Suc k)) \<le> snd (snd (ys ! k))"
  then obtain k where k: "Suc k < length ys" "fst (snd (ys ! Suc k)) \<le> snd (snd (ys ! k))" by blast
  define lba where "lba = unat (fst (snd (ys ! Suc k)))"
  have "fst (snd (ys ! k)) \<le> fst (snd (ys ! Suc k))"
    using sorted_nth_mono [OF srt, of k "Suc k"] k(1) by (simp add: case_prod_unfold)
  moreover have "fst (snd (ys ! Suc k)) \<le> snd (snd (ys ! Suc k))"
    using wf nth_mem [OF k(1)] by (auto simp: case_prod_unfold)
  ultimately have both: "claims lba (ys ! k)" "claims lba (ys ! Suc k)"
    using k(2) by (auto simp: claims_def lba_def case_prod_unfold word_le_nat_alt)
  have "ys = take k ys @ [ys ! k, ys ! Suc k] @ drop (Suc (Suc k)) ys"
    using k(1) by (metis Cons_nth_drop_Suc Suc_lessD append_Cons append_Nil append_take_drop_id)
  then have "length (filter (claims lba) ys) =
      length (filter (claims lba) (take k ys @ [ys ! k, ys ! Suc k] @ drop (Suc (Suc k)) ys))"
    by simp
  with both show "\<exists>lba. 2 \<le> length (filter (claims lba) ys)"
    by (intro exI [of _ lba]) simp
next
  assume "\<exists>lba. 2 \<le> length (filter (claims lba) ys)"
  then obtain lba where two: "2 \<le> length (filter (claims lba) ys)" by blast
  let ?R = "\<lambda>x y :: nat \<times> u64 \<times> u64. fst (snd x) \<le> snd (snd x) \<and> snd (snd x) < fst (snd y)
     \<and> fst (snd y) \<le> snd (snd y)"
  show "\<exists>k. Suc k < length ys \<and> fst (snd (ys ! Suc k)) \<le> snd (snd (ys ! k))"
  proof (rule ccontr)
    assume "\<not> (\<exists>k. Suc k < length ys \<and> fst (snd (ys ! Suc k)) \<le> snd (snd (ys ! k)))"
    then have adj: "\<forall>k. Suc k < length ys \<longrightarrow> ?R (ys ! k) (ys ! Suc k)"
      using wf by (fastforce simp: case_prod_unfold)
    have "transp ?R" by (auto intro!: transpI)
    then have "sorted_wrt ?R ys" using adj by (simp add: sorted_wrt_iff_nth_Suc_transp)
    then have "sorted_wrt ?R (filter (claims lba) ys)" by (rule sorted_wrt_filter)
    then have "?R (filter (claims lba) ys ! 0) (filter (claims lba) ys ! 1)"
      using two sorted_wrt_nth_less [of ?R "filter (claims lba) ys" 0 1] by simp
    moreover have "claims lba (filter (claims lba) ys ! n)" if "n < 2" for n
    proof -
      have "n < length (filter (claims lba) ys)" using two that by linarith
      from nth_mem [OF this] show ?thesis by simp
    qed
    note this [of 0] this [of 1]
    ultimately show False by (auto simp: claims_def case_prod_unfold word_less_nat_alt)
  qed
qed

lemma length_filter_mset: "mset xs = mset ys \<Longrightarrow> length (filter P xs) = length (filter P ys)"
  by (metis mset_filter size_mset)

subsection \<open>The inventory and the gaps\<close>

lemma analyse_inventory:
  assumes "analyse_with_options env r ds opts = Some (Inr a)"
  shows "\<exists>prims logs. ma_partitions a = prims @ logs
    \<and> list_all2 (primary_summary (opt_sector_size opts))
         (used_slots (enumerate 0 (entries (ma_mbr a)))) prims
    \<and> list_all2 (logical_summary (opt_sector_size opts))
         (enumerate (4 + length prims) (links (ma_ebr_chain a))) logs"
  using assms
proof (cases rule: analyse_stages)
  case (1 m r1 hdr r2 f1 f4 f5 last_lba f6 r7 f7 sc7 r8 f8 sc8 f9 f10 r11)
  have "length (entries m) = 4" using 1(18) by (simp add: mbr_wf_def)
  note prim = scan_primary_entries_scan [OF 1(8) this]
  from walk_extended_scan [OF 1(9) prim(1)] prim(2) show ?thesis
    unfolding 1(13,14) by blast
qed

lemma analyse_gaps:
  assumes run: "analyse_with_options env r ds opts = Some (Inr a)"
    and ss: "0 < opt_sector_size opts" "unat (opt_sector_size opts) \<le> 2 ^ 30" and ds: "0 < ds"
  shows "(\<forall>lba. (\<exists>g \<in> set (ma_gaps a). in_gap lba g) \<longleftrightarrow>
      1 \<le> lba \<and> \<not> covered (map extent_of (ma_partitions a)) lba
      \<and> (lba \<le> unat ds div unat (opt_sector_size opts) - 1
         \<or> before_some (map extent_of (ma_partitions a)) lba))
    \<and> sorted_wrt apart (ma_gaps a) \<and> (\<forall>g \<in> set (ma_gaps a). gap_ok (opt_sector_size opts) g)
    \<and> ((\<forall>p \<in> set (ma_partitions a). ps_lba_start p \<le> ps_lba_end p)
       \<longrightarrow> sorted_wrt separated (ma_gaps a))"
  using run
proof (cases rule: analyse_stages)
  case (1 m r1 hdr r2 f1 f4 f5 last_lba f6 r7 f7 sc7 r8 f8 sc8 f9 f10 r11)
  let ?ss = "opt_sector_size opts"
  have len: "length (entries m) = 4" using 1(18) by (simp add: mbr_wf_def)
  obtain last' where "disk_last_lba ds ?ss = Some last'"
    "0 < ds \<Longrightarrow> (unat last' + 1) * unat ?ss < 2 ^ 64"
    "0 < ds \<Longrightarrow> unat last' = unat ds div unat ?ss - 1"
    by (rule disk_last_lba_returns [OF ss(1), of ds]) blast
  with 1(6) ds have disk: "(unat last_lba + 1) * unat ?ss < 2 ^ 64"
    and last: "unat last_lba = unat ds div unat ?ss - 1" by simp_all
  let ?xs = "sc_extents sc8" and ?ys = "remdups_adj (sort_key fst (sc_extents sc8))"
  have ext: "extents_ok ?ss ?ys"
    by (rule extents_ok_sorted [OF scan_bounded [OF 1(8) len 1(9)] ss(2)])
  have gaps: "compute_gaps ?ys 1 last_lba ?ss = Some (ma_gaps a)"
    using 1(11) ds unfolding check_gaps_def Let_def by (auto split: if_splits elim!: bind_SomeE)
  have set: "set ?ys = set (map extent_of (ma_partitions a))"
    using 1(14,19) by (simp add: scan_ok_def)
  have "covered ?ys = covered (map extent_of (ma_partitions a))"
    "before_some ?ys = before_some (map extent_of (ma_partitions a))"
    by (rule HOL.ext, simp only: covered_def before_some_def set)+
  moreover have "\<forall>(s, e) \<in> set ?ys. s \<le> e" if "\<forall>p \<in> set (ma_partitions a). ps_lba_start p \<le> ps_lba_end p"
    using that unfolding set by (auto simp: extent_of_def)
  ultimately show ?thesis using compute_gaps_exact [OF ext disk, of 1] gaps last by auto
qed

subsection \<open>The slots of the primary table\<close>

definition slot_kinds :: "u64 \<Rightarrow> u64 \<Rightarrow> nat \<times> partition_entry \<Rightarrow> anomaly_kind set" where
  "slot_kinds ds last_lba = (\<lambda>(i, e).
     if type_is_empty (type_code e)
     then (if is_empty e then {} else {ResidualEntry i (lba_start e) (lba_count e)})
     else (if status e \<in> {0x00, 0x80} then {} else {InvalidPartitionStatus i (status e)})
       \<union> (if chs_consistency (chs_first e) (lba_start e) STD_HEADS_PER_CYL STD_SECTORS_PER_TRACK =
                Some Inconsistent
            \<or> chs_consistency (chs_last e) (lba_end e) STD_HEADS_PER_CYL STD_SECTORS_PER_TRACK =
                Some Inconsistent
          then {ChsLbaInconsistency i} else {})
       \<union> (if 0 < ds \<and> last_lba < ucast (lba_end e)
          then {OutOfBounds i (ucast (lba_end e)) last_lba} else {}))"

lemma of_variant_if:
  "of_variant n (if c then record_finding env k off fs else fs) =
     of_variant n fs \<union> {x \<in> (if c then {k} else {}). variant x = n}"
  by auto

lemma check_chs_lba_kinds:
  assumes "check_chs_lba env i e fs = Some fs'"
  shows "of_variant n fs' = of_variant n fs \<union> {k. variant k = n \<and> k = ChsLbaInconsistency i
    \<and> (chs_consistency (chs_first e) (lba_start e) STD_HEADS_PER_CYL STD_SECTORS_PER_TRACK =
         Some Inconsistent
       \<or> chs_consistency (chs_last e) (lba_end e) STD_HEADS_PER_CYL STD_SECTORS_PER_TRACK =
         Some Inconsistent)}"
  using assms by (auto simp: check_chs_lba_def elim!: bind_SomeE split: if_splits)

lemma scan_entry_kinds:
  assumes "scan_entry env ds last_lba ss i e (r, fs, sc) = Some (r', fs', sc')" and "n \<in> {5, 6, 9, 10}"
  shows "of_variant n fs' = of_variant n fs \<union> {k \<in> slot_kinds ds last_lba (i, e). variant k = n}"
  using assms(1)
proof (cases rule: scan_entry_cases)
  case (used off f1 f2 f3 r4 f4 d r5 serial enc)
  have "of_variant n fs' = of_variant n f4"
    using assms(2) by (intro emits_of_variant [OF detect_and_check_fs_emits [OF used(8)]]) auto
  also have "\<dots> = of_variant n f3"
    using assms(2) by (intro emits_of_variant [OF check_vbr_emits [OF used(7)]]) auto
  finally have fs': "of_variant n fs' = of_variant n f3" .
  define B where "B \<longleftrightarrow>
      chs_consistency (chs_first e) (lba_start e) STD_HEADS_PER_CYL STD_SECTORS_PER_TRACK =
         Some Inconsistent
    \<or> chs_consistency (chs_last e) (lba_end e) STD_HEADS_PER_CYL STD_SECTORS_PER_TRACK =
         Some Inconsistent"
  define C where "C \<longleftrightarrow> 0 < ds \<and> last_lba < ucast (lba_end e)"
  define S where "S = (if status e \<noteq> 0x00 \<and> status e \<noteq> 0x80 then {InvalidPartitionStatus i (status e)} else {})"
  define T where "T = (if B then {ChsLbaInconsistency i} else {})"
  define U where "U = (if C then {OutOfBounds i (ucast (lba_end e)) last_lba} else {})"
  have f1: "of_variant n f1 = of_variant n fs \<union> {k \<in> S. variant k = n}"
    unfolding used(4) S_def by (rule of_variant_if)
  have f2: "of_variant n f2 = of_variant n f1 \<union> {k \<in> T. variant k = n}"
    unfolding check_chs_lba_kinds [OF used(5)] B_def [symmetric] T_def by (cases B) auto
  have f3: "of_variant n f3 = of_variant n f2 \<union> {k \<in> U. variant k = n}"
    unfolding used(6) C_def [symmetric] U_def by (rule of_variant_if)
  have "slot_kinds ds last_lba (i, e) = S \<union> T \<union> U"
    using used(1) by (simp add: slot_kinds_def B_def C_def S_def T_def U_def)
  then show ?thesis unfolding fs' f3 f2 f1 by blast
qed (auto simp: slot_kinds_def is_empty_def)

lemma scan_loop_kinds:
  assumes "n \<in> {5, 6, 9, 10}"
  shows "scan_loop env ds last_lba ss es (r, fs, sc) = Some (r', fs', sc') \<Longrightarrow>
    of_variant n fs' = of_variant n fs \<union> {k. variant k = n \<and> (\<exists>x \<in> set es. k \<in> slot_kinds ds last_lba x)}"
proof (induction es arbitrary: r fs sc)
  case (Cons x es)
  obtain i e where x: "x = (i, e)" by force
  obtain r1 f1 sc1 where 1: "scan_entry env ds last_lba ss i e (r, fs, sc) = Some (r1, f1, sc1)"
    and 2: "scan_loop env ds last_lba ss es (r1, f1, sc1) = Some (r', fs', sc')"
    using Cons.prems x by (auto split: Option.bind_splits)
  show ?case unfolding Cons.IH [OF 2] scan_entry_kinds [OF 1 assms] x by auto
qed simp

lemma set_enumerate_0: "set (enumerate 0 xs) = (\<lambda>i. (i, xs ! i)) ` {i. i < length xs}"
  by (auto simp: in_set_enumerate_eq image_iff)

lemma scan_primary_entries_kinds:
  assumes "scan_primary_entries env r m ds last_lba ss fs = Some (r', fs', sc)"
    and "n \<in> {5, 6, 9, 10}" and "of_variant n fs = {}"
  shows "of_variant n fs' = {k. variant k = n
    \<and> (\<exists>i < length (entries m). k \<in> slot_kinds ds last_lba (i, entries m ! i))}"
  using scan_loop_kinds [OF assms(2) assms(1) [unfolded scan_primary_entries_def]] assms(3)
  by (simp add: set_enumerate_0)

definition same_extent :: "partition_entry list \<Rightarrow> nat \<Rightarrow> nat \<Rightarrow> bool" where
  "same_extent es a b \<longleftrightarrow> \<not> is_empty (es ! b)
     \<and> lba_start (es ! a) = lba_start (es ! b) \<and> lba_count (es ! a) = lba_count (es ! b)"

lemma duplicates_of_kinds:
  "duplicates_of env es a bs fs = Some fs' \<Longrightarrow>
     of_variant 7 fs' = of_variant 7 fs \<union> DuplicatePartitionEntry a ` {b \<in> set bs. same_extent es a b}"
proof (induction bs arbitrary: fs)
  case (Cons b bs)
  have idx: "index es a = Some (es ! a)" "index es b = Some (es ! b)"
    using Cons.prems by (auto simp: index_def elim!: bind_SomeE split: if_splits)
  note body = Cons.prems [unfolded duplicates_of.simps idx bind.bind_lunit, folded same_extent_def]
  show ?case
  proof (cases "same_extent es a b")
    case True
    then obtain off where
      "duplicates_of env es a bs (record_finding env (DuplicatePartitionEntry a b) off fs) = Some fs'"
      using body by (auto elim!: bind_SomeE)
    from Cons.IH [OF this] True show ?thesis by auto
  next
    case False
    then have "duplicates_of env es a bs fs = Some fs'" using body by simp
    from Cons.IH [OF this] False show ?thesis by auto
  qed
qed simp

lemma duplicates_loop_kinds:
  "duplicates_loop env es as fs = Some fs' \<Longrightarrow>
     of_variant 7 fs' = of_variant 7 fs \<union> {DuplicatePartitionEntry a b |a b. a \<in> set as \<and> a < b
       \<and> b < length es \<and> \<not> is_empty (es ! a) \<and> same_extent es a b}"
proof (induction as arbitrary: fs)
  case (Cons a as)
  have idx: "index es a = Some (es ! a)"
    using Cons.prems by (auto simp: index_def elim!: bind_SomeE split: if_splits)
  note body = Cons.prems [unfolded duplicates_loop.simps idx bind.bind_lunit]
  show ?case
  proof (cases "is_empty (es ! a)")
    case True
    then have "duplicates_loop env es as fs = Some fs'" using body by simp
    from Cons.IH [OF this] True show ?thesis by auto
  next
    case False
    then obtain f1 where 1: "duplicates_of env es a [a + 1..<length es] fs = Some f1"
      and 2: "duplicates_loop env es as f1 = Some fs'"
      using body by (auto elim!: bind_SomeE)
    show ?thesis unfolding Cons.IH [OF 2] duplicates_of_kinds [OF 1] using False by auto
  qed
qed simp

subsection \<open>The extended partition\<close>

definition slack_kinds :: "('r, 'vs, 'enc, 'gpt) env \<Rightarrow> ebr_entry \<Rightarrow> anomaly_kind set" where
  "slack_kinds env l =
     {EbrSlackData (ebr_lba l) h |h. has_slack l \<and> shannon (f64 env) (slack l) = Some h}"

lemma scan_logical_kinds:
  assumes "scan_logical env ds ss l (r, fs, sc) = Some (r', fs', sc')"
  shows "of_variant 17 fs' = of_variant 17 fs \<union> slack_kinds env l"
  using assms
proof (rule scan_logical_cases)
  fix f1 i r4 f4 d r5
  assume f1: "has_slack l \<longrightarrow> (\<exists>h off. shannon (f64 env) (slack l) = Some h
       \<and> f1 = record_finding env (EbrSlackData (ebr_lba l) h) off fs)" "\<not> has_slack l \<longrightarrow> f1 = fs"
    and f4: "check_vbr env r i (logical_lba_start l) (lba_to_byte (logical_lba_start l) ss) ds f1 =
      Some (r4, f4)"
    and f5: "detect_and_check_fs env r4 i (lba_to_byte (logical_lba_start l) ss)
      (type_code (logical l)) ds f4 = Some (d, r5, fs')"
  have f4': "of_variant 17 f4 = of_variant 17 f1"
    by (rule emits_of_variant [OF check_vbr_emits [OF f4]]) simp
  have fs': "of_variant 17 fs' = of_variant 17 f4"
    by (rule emits_of_variant [OF detect_and_check_fs_emits [OF f5]]) simp
  show ?thesis
  proof (cases "has_slack l")
    case True
    then obtain h off where h: "shannon (f64 env) (slack l) = Some h"
      "f1 = record_finding env (EbrSlackData (ebr_lba l) h) off fs" using f1(1) by blast
    have "slack_kinds env l = {EbrSlackData (ebr_lba l) h}" using True h(1) by (simp add: slack_kinds_def)
    then show ?thesis unfolding fs' f4' h(2) by simp
  next
    case False
    then show ?thesis unfolding fs' f4' using f1(2) by (simp add: slack_kinds_def)
  qed
qed

lemma logical_loop_kinds:
  "logical_loop env ds ss ls (r, fs, sc) = Some (r', fs', sc') \<Longrightarrow>
     of_variant 17 fs' = of_variant 17 fs \<union> (\<Union>l \<in> set ls. slack_kinds env l)"
proof (induction ls arbitrary: r fs sc)
  case (Cons l ls)
  obtain r1 f1 sc1 where 1: "scan_logical env ds ss l (r, fs, sc) = Some (r1, f1, sc1)"
    and 2: "logical_loop env ds ss ls (r1, f1, sc1) = Some (r', fs', sc')"
    using Cons.prems by (auto split: Option.bind_splits)
  show ?case unfolding Cons.IH [OF 2] scan_logical_kinds [OF 1] by auto
qed simp

lemma walk_extended_kinds:
  assumes "walk_extended env r m sc ds ss fs = Some (chain, r', fs', sc')"
    and none: "\<And>n. n \<in> {15, 16, 17} \<Longrightarrow> of_variant n fs = {}"
  shows "of_variant 15 fs' = (if had_cycle chain then {EbrCycle} else {})"
    and "of_variant 16 fs' =
      (if depth_exceeded chain then {EbrExcessiveDepth (length (links chain))} else {})"
    and "of_variant 17 fs' = (\<Union>l \<in> set (links chain). slack_kinds env l)"
proof -
  have "of_variant 15 fs' = (if had_cycle chain then {EbrCycle} else {})
    \<and> of_variant 16 fs' =
      (if depth_exceeded chain then {EbrExcessiveDepth (length (links chain))} else {})
    \<and> of_variant 17 fs' = (\<Union>l \<in> set (links chain). slack_kinds env l)"
    using assms(1)
  proof (cases rule: walk_extended_cases)
    case none
    with assms(2) show ?thesis by (simp add: ebr_chain_empty_def)
  next
    case (walked ext r1 off f0 f1)
    have "of_variant n fs' = of_variant n f1" if "n \<in> {15, 16}" for n
      using that by (intro emits_of_variant [OF logical_loop_emits [OF walked(5)]]) auto
    with logical_loop_kinds [OF walked(5)] assms(2) show ?thesis
      unfolding walked(3,4) by (simp split del: if_split) (simp split: if_split)
  qed
  then show "of_variant 15 fs' = (if had_cycle chain then {EbrCycle} else {})"
    "of_variant 16 fs' =
      (if depth_exceeded chain then {EbrExcessiveDepth (length (links chain))} else {})"
    "of_variant 17 fs' = (\<Union>l \<in> set (links chain). slack_kinds env l)" by blast+
qed

subsection \<open>Boot code and GPT\<close>

definition boot_code_kinds :: "u8 list \<Rightarrow> boot_code_id \<Rightarrow> bool \<Rightarrow> anomaly_kind set" where
  "boot_code_kinds code bid gpt =
     (case bid of
        BcAllZeros \<Rightarrow> {if gpt then EmptyProtectiveBootCode else WipedBootCode}
      | BcAllOnes \<Rightarrow> {ErasedBootCode}
      | BcUnknown \<Rightarrow> {UnknownBootCode (boot_code_head_hex code)}
      | _ \<Rightarrow> {})"

lemma check_boot_code_kinds:
  assumes "check_boot_code env m bid gpt [] = Some fs"
  obtains E where "E \<subseteq> range (HighEntropySlack 0)"
    "kinds fs = boot_code_kinds (boot_code m) bid gpt \<union> E
       \<union> KnownBootkit ` set (bootkit_scan env (boot_code m))"
proof -
  define f0 where "f0 = (case (case bid of
         BcAllZeros \<Rightarrow> if gpt then Some EmptyProtectiveBootCode else Some WipedBootCode
       | BcAllOnes \<Rightarrow> Some ErasedBootCode
       | BcUnknown \<Rightarrow> Some (UnknownBootCode (boot_code_head_hex (boot_code m)))
       | _ \<Rightarrow> None) of Some kind \<Rightarrow> record_finding env kind 0 [] | None \<Rightarrow> [])"
  have k0: "kinds f0 = boot_code_kinds (boot_code m) bid gpt"
    by (simp add: f0_def boot_code_kinds_def split: boot_code_id.splits)
  obtain f1 where f1: "f1 = f0 \<or> (\<exists>h. f1 = record_finding env (HighEntropySlack 0 h) 0 f0)"
    and fs: "fs = foldl (\<lambda>fs name. record_finding env (KnownBootkit name) 0 fs) f1
      (bootkit_scan env (boot_code m))"
    using assms unfolding check_boot_code_def Let_def f0_def [symmetric]
    by (auto elim!: bind_SomeE split: if_splits) blast+
  have "\<exists>E. E \<subseteq> range (HighEntropySlack 0) \<and> kinds f1 = kinds f0 \<union> E"
    using f1
  proof (elim disjE exE)
    fix h assume "f1 = record_finding env (HighEntropySlack 0 h) 0 f0"
    then show ?thesis by (intro exI [of _ "{HighEntropySlack 0 h}"]) simp
  qed (intro exI [of _ "{}"], simp)
  then obtain E where "E \<subseteq> range (HighEntropySlack 0)" "kinds f1 = kinds f0 \<union> E" by blast
  then show thesis by (intro that [of E]) (simp_all add: fs kinds_foldl k0)
qed

lemma position_None: "position P xs = None \<longleftrightarrow> \<not> (\<exists>x \<in> set xs. P x)"
  by (induction xs) auto

lemma find_position: "find P xs = map_option ((!) xs) (position P xs)"
  by (induction xs) (auto simp: option.map_comp comp_def)

abbreviation protective :: "partition_entry \<Rightarrow> bool" where
  "protective e \<equiv> \<not> is_empty e \<and> type_byte (type_code e) = PROTECTIVE_TYPE_CODE"

definition gpt_kinds :: "mbr_sector \<Rightarrow> u64 \<Rightarrow> bool \<Rightarrow> anomaly_kind set" where
  "gpt_kinds m last_lba hdr =
     (case find protective (entries m) of
        None \<Rightarrow> if hdr then {HiddenGpt} else {}
      | Some ee \<Rightarrow>
          if \<not> hdr then {SpoofedProtectiveMbr}
          else (let extra = length (filter (\<lambda>e. \<not> is_empty e
                  \<and> type_byte (type_code e) \<noteq> PROTECTIVE_TYPE_CODE) (entries m)) in
                if extra = 0 then {} else {HybridMbr extra})
            \<union> (if last_lba \<noteq> - 1 \<and> lba_count ee \<noteq> - 1
                   \<and> unat (lba_end ee) + 2048 < unat last_lba
               then {ProtectiveMbrUndersized (ucast (lba_end ee)) last_lba} else {}))"

lemma check_gpt_kinds:
  assumes "check_gpt env m last_lba hdr ss fs = Some fs'" and "n \<in> {11, 12, 13, 14}"
    and "of_variant n fs = {}"
  shows "of_variant n fs' = {k \<in> gpt_kinds m last_lba hdr. variant k = n}"
proof -
  have under: "PROTECTIVE_UNDERSIZE_TOLERANCE < saturating_sub last_lba (ucast (lba_end ee)) \<longleftrightarrow>
      unat (lba_end ee) + 2048 < unat last_lba" for ee
    by (auto simp: word_less_nat_alt rust_arith PROTECTIVE_UNDERSIZE_TOLERANCE_def)
  show ?thesis
  proof (cases "position protective (entries m)")
    case None
    then show ?thesis
      using assms by (auto simp: check_gpt_def gpt_kinds_def find_position)
  next
    case (Some i)
    note found = this
    obtain off where off: "entry_offset i = Some off"
      using assms(1) found by (auto simp: check_gpt_def elim!: bind_SomeE)
    have find: "find protective (entries m) = Some (entries m ! i)"
      using found by (simp add: find_position)
    show ?thesis
    proof (cases hdr)
      case False
      then show ?thesis using assms found off find by (auto simp: check_gpt_def gpt_kinds_def)
    next
      case True
      have "index (entries m) i = Some (entries m ! i)"
        using position_Some [OF found] by simp
      with True found off find assms show ?thesis
        by (simp add: check_gpt_def gpt_kinds_def Let_def under) auto
    qed
  qed
qed

subsection \<open>Errors and samples\<close>

lemma analyse_boot_code:
  assumes "analyse_with_options env r ds opts = Some (Inr a)"
  shows "\<exists>r1 hdr r2. read_mbr (reader env) r = Some (Inr (ma_mbr a), r1)
    \<and> gpt_header_present (reader env) r1 (opt_sector_size opts) = Some (hdr, r2)
    \<and> {k \<in> kinds (ma_anomalies a). variant k \<in> {25, 26, 27, 28}} =
        boot_code_kinds (boot_code (ma_mbr a)) (identify (identify_loader env) (boot_code (ma_mbr a)))
          (hdr \<and> is_pure_protective_mbr (ma_mbr a))"
  using assms
proof (cases rule: analyse_variants)
  case (1 m r1 hdr r2 f1 f4 f5 last_lba f6 r7 f7 sc7 r8 f8 sc8 f9 f10)
  have bid: "ma_boot_code_id a = identify (identify_loader env) (boot_code m)"
    using assms by (rule analyse_stages) (simp add: 1(3))
  obtain E where E: "E \<subseteq> range (HighEntropySlack 0)" and k: "kinds f1 =
      boot_code_kinds (boot_code m) (ma_boot_code_id a) (hdr \<and> is_pure_protective_mbr m) \<union> E
       \<union> KnownBootkit ` set (bootkit_scan env (boot_code m))"
    using 1(8) by (rule check_boot_code_kinds)
  have "{k \<in> kinds (ma_anomalies a). variant k \<in> {25, 26, 27, 28}} =
      (\<Union>n \<in> {25, 26, 27, 28}. of_variant n (ma_anomalies a))" by (auto simp: of_variant_def)
  also have "\<dots> = (\<Union>n \<in> {25, 26, 27, 28}. of_variant n f1)"
    using 1(9) by (intro SUP_cong) auto
  also have "\<dots> = {k \<in> kinds f1. variant k \<in> {25, 26, 27, 28}}" by (auto simp: of_variant_def)
  also have "\<dots> = boot_code_kinds (boot_code m) (ma_boot_code_id a) (hdr \<and> is_pure_protective_mbr m)"
    unfolding k using E by (auto simp: boot_code_kinds_def split: boot_code_id.splits)
  finally show ?thesis using 1(1,7) unfolding 1(3) bid by blast
qed

lemma analyse_no_extended:
  assumes "analyse_with_options env r ds opts = Some (Inr a)"
    and "find is_extended (entries (ma_mbr a)) = None"
  shows "links (ma_ebr_chain a) = [] \<and> \<not> had_cycle (ma_ebr_chain a)"
  using assms(1)
proof (cases rule: analyse_stages)
  case (1 m r1 hdr r2 f1 f4 f5 last_lba f6 r7 f7 sc7 r8 f8 sc8 f9 f10 r11)
  have "ma_ebr_chain a = ebr_chain_empty"
    using 1(9) assms(2) unfolding 1(13) by (simp add: walk_extended_def)
  then show ?thesis by (simp add: ebr_chain_empty_def)
qed

lemma analyse_error_iff:
  "analyse_with_options env r ds opts = Some (Inl e) \<longleftrightarrow>
     (\<exists>r'. read_mbr (reader env) r = Some (Inl e, r'))"
proof
  assume "analyse_with_options env r ds opts = Some (Inl e)"
  then show "\<exists>r'. read_mbr (reader env) r = Some (Inl e, r')"
    by (auto simp: analyse_with_options_def Let_def split: Option.bind_splits sum.splits)
next
  assume "\<exists>r'. read_mbr (reader env) r = Some (Inl e, r')"
  then show "analyse_with_options env r ds opts = Some (Inl e)"
    by (auto simp: analyse_with_options_def Let_def)
qed

lemma wf_analysis:
  assumes "mbr_wf m" and "length rest < 2 ^ 62"
  obtains a where "analyse_with_options (sample_env cursor_ops) (cursor_new (mbr_to_bytes m @ rest))
      ds default_options = Some (Inr a)" "ma_mbr a = m"
proof -
  let ?img = "mbr_to_bytes m @ rest" and ?env = "sample_env cursor_ops"
  have len: "length (mbr_to_bytes m) = 512" by (rule length_mbr_to_bytes [OF assms(1)])
  have sig: "?img ! 510 = 0x55" "?img ! 511 = 0xAA"
    using mbr_to_bytes_signature [OF assms(1)] len by (simp_all add: nth_append)
  have "cursor_at (cursor_new ?img) ?img 0" using assms(2) by (intro cursor_new_at) (simp add: len)
  then obtain r1 where
    rd: "read_mbr cursor_ops (cursor_new ?img) = Some (Inr (mbr_of_bytes (mbr_to_bytes m)), r1)"
    by (rule cur.read_mbr_at) (simp add: len sig)
  obtain res where res: "analyse_with_options ?env (cursor_new ?img) ds default_options = Some res"
    using cursor_analysis_returns [of ?env ?img ds default_options] default_sector_size len assms(2)
    by auto
  then obtain a where a: "res = Inr a"
    using analyse_error_iff [of ?env "cursor_new ?img" ds default_options] rd by (cases res) auto
  have "ma_mbr a = mbr_of_bytes (mbr_to_bytes m)"
    using res [unfolded a] by (rule analyse_stages) (use rd in simp)
  with res a that mbr_of_bytes_to_bytes [OF assms(1)] show thesis by simp
qed

lemmas sample_analysis = wf_analysis [OF sample_disk_wf, of "[]" 16384, simplified]

lemma analyse_ebr_kinds:
  assumes "analyse_with_options env r ds opts = Some (Inr a)"
  shows "(EbrCycle \<in> kinds (ma_anomalies a) \<longleftrightarrow> had_cycle (ma_ebr_chain a))
    \<and> (\<forall>d. EbrExcessiveDepth d \<in> kinds (ma_anomalies a) \<longleftrightarrow> depth_exceeded (ma_ebr_chain a) \<and> d = 64)
    \<and> (\<forall>lba h. EbrSlackData lba h \<in> kinds (ma_anomalies a) \<longleftrightarrow>
         (\<exists>l \<in> set (links (ma_ebr_chain a)). ebr_lba l = lba \<and> (\<exists>b \<in> set (slack l). b \<noteq> 0)
            \<and> shannon (f64 env) (slack l) = Some h))"
  using assms
proof (cases rule: analyse_variants)
  case (1 m r1 hdr r2 f1 f4 f5 last_lba f6 r7 f7 sc7 r8 f8 sc8 f9 f10)
  note kinds = walk_extended_kinds [OF 1(21) 1(22)]
  obtain ext :: u32 where ok: "ebr_chain_ok (ucast ext) (opt_sector_size opts) (ma_ebr_chain a)"
    using walk_extended_chain_ok [OF 1(21)] by blast
  have slack: "has_slack l \<longleftrightarrow> (\<exists>b \<in> set (slack l). b \<noteq> 0)" if "l \<in> set (links (ma_ebr_chain a))" for l
    using ok that by (auto simp: ebr_chain_ok_def ebr_entry_ok_def list_all_iff)
  have v: "of_variant n (ma_anomalies a) = of_variant n f8" if "n \<in> {15, 16, 17}" for n
    by (rule 1(23) [OF that])
  show ?thesis
  proof (intro conjI allI)
    show "EbrCycle \<in> kinds (ma_anomalies a) \<longleftrightarrow> had_cycle (ma_ebr_chain a)"
      using in_of_variant [of EbrCycle 15 "ma_anomalies a"] v [of 15] kinds(1) by (simp split: if_splits)
    show "EbrExcessiveDepth d \<in> kinds (ma_anomalies a) \<longleftrightarrow> depth_exceeded (ma_ebr_chain a) \<and> d = 64" for d
      using in_of_variant [of "EbrExcessiveDepth d" 16 "ma_anomalies a"] v [of 16] kinds(2) ok
      by (auto simp: ebr_chain_ok_def split: if_splits)
    show "EbrSlackData lba h \<in> kinds (ma_anomalies a) \<longleftrightarrow>
         (\<exists>l \<in> set (links (ma_ebr_chain a)). ebr_lba l = lba \<and> (\<exists>b \<in> set (slack l). b \<noteq> 0)
            \<and> shannon (f64 env) (slack l) = Some h)" for lba h
    proof -
      have "EbrSlackData lba h \<in> kinds (ma_anomalies a) \<longleftrightarrow>
          (\<exists>l \<in> set (links (ma_ebr_chain a)). EbrSlackData lba h \<in> slack_kinds env l)"
        using in_of_variant [of "EbrSlackData lba h" 17 "ma_anomalies a"] v [of 17] kinds(3) by simp
      also have "\<dots> \<longleftrightarrow> (\<exists>l \<in> set (links (ma_ebr_chain a)). ebr_lba l = lba \<and> has_slack l
            \<and> shannon (f64 env) (slack l) = Some h)"
        by (intro bex_cong refl) (auto simp: slack_kinds_def)
      also have "\<dots> \<longleftrightarrow> (\<exists>l \<in> set (links (ma_ebr_chain a)). ebr_lba l = lba \<and> (\<exists>b \<in> set (slack l). b \<noteq> 0)
            \<and> shannon (f64 env) (slack l) = Some h)"
        using slack by (intro bex_cong refl) simp
      finally show ?thesis .
    qed
  qed
qed

lemma analyse_chain_at:
  assumes img: "image_reader (reader env) pos retries" and at: "pos r img p"
    and run: "analyse_with_options env r ds opts = Some (Inr a)"
    and ext: "find is_extended (entries (ma_mbr a)) = Some ext"
  shows "ebr_run img (ucast (lba_start ext)) (opt_sector_size opts) [] (ucast (lba_start ext))
    (ma_ebr_chain a)"
  using run
proof (cases rule: analyse_stages)
  case (1 m r1 hdr r2 f1 f4 f5 last_lba f6 r7 f7 sc7 r8 f8 sc8 f9 f10 r11)
  let ?ss = "opt_sector_size opts" and ?good = "\<lambda>r. \<exists>p. pos r img p"
  note fair = image_reader.fair_on_image [OF img, of img]
  have "?good r" using at by blast
  then have "?good r1" using 1(1) by (rule fair_reader.read_mbr_good [OF fair])
  then have "?good r2" using 1(2) by (rule fair_reader.gpt_header_present_good [OF fair])
  moreover have "length (entries m) = 4" using 1(18) by (simp add: mbr_wf_def)
  ultimately have "?good r7"
    using 1(8) by (rule fair_reader.scan_primary_entries_good [OF fair refl])
  then obtain c r' where w: "walk_ebr_chain (reader env) r7 (ucast (lba_start ext)) ?ss = Some (Inr c, r')"
    "ebr_run img (ucast (lba_start ext)) ?ss [] (ucast (lba_start ext)) c"
    using image_reader.walk_loop_at [OF img, of r7 img _ "ucast (lba_start ext)" ?ss "[]"]
    unfolding walk_ebr_chain_def by fastforce
  have "ma_ebr_chain a = c"
    using 1(9) w(1) ext unfolding 1(13) by (auto simp: walk_extended_def Let_def elim!: bind_SomeE)
  with w(2) show ?thesis by simp
qed

text \<open>A disk whose extended partition starts at sector 1 with one EBR that has slack.\<close>

definition sample_ext_table :: mbr_sector where
  "sample_ext_table = sample_disk\<lparr>entries :=
     [(sample_slot 1 10)\<lparr>type_code := TypeCode 0x05\<rparr>, unused_slot, unused_slot, unused_slot]\<rparr>"

definition sample_ebr :: "u8 list" where
  "sample_ebr = replicate 478 0 @ [1] @ replicate 31 0 @ [0x55, 0xAA]"

definition sample_ext_image :: "u8 list" where
  "sample_ext_image = mbr_to_bytes sample_ext_table @ sample_ebr"

lemma sample_ext_table_wf: "mbr_wf sample_ext_table"
  using sample_disk_wf
  by (simp add: mbr_wf_def sample_ext_table_def sample_disk_def sample_slot_def unused_slot_def
      entry_wf_def chs_wf_def)

lemma sample_ext_ebr:
  obtains e p where "image_ebr sample_ext_image 512 1 = Some (e, p)" "lba_start p = 0"
    "ebr_lba e = 1" "slack e = 1 # replicate 31 0"
proof -
  have len: "length (mbr_to_bytes sample_ext_table) = 512"
    by (rule length_mbr_to_bytes [OF sample_ext_table_wf])
  have sec: "take 512 (drop 512 sample_ext_image) = sample_ebr" and l: "length sample_ext_image = 1024"
    by (simp_all add: sample_ext_image_def len sample_ebr_def)
  have sig: "sample_ext_image ! 1022 = 0x55" "sample_ext_image ! 1023 = 0xAA"
    by (simp_all add: sample_ext_image_def nth_append len sample_ebr_def)
  have zero: "take 16 (drop 462 sample_ebr) = replicate 16 0" by (simp add: sample_ebr_def)
  have sl: "take 32 (drop 478 sample_ebr) = 1 # replicate 31 0" by (simp add: sample_ebr_def)
  have "length sample_ebr = 512" by (simp add: sample_ebr_def)
  note dec = decode_ebr_sector_eq [OF this, of 512 1, unfolded zero sl Let_def]
  have "image_ebr sample_ext_image 512 1 = decode_ebr_sector 512 1 sample_ebr"
    using l sig unfolding sec [symmetric] by (simp add: image_ebr_def Let_def)
  from that [OF this [unfolded dec]] show thesis
    by (simp add: entry_from_bytes_def from_le_bytes_def)
qed

lemma sample_ext_analysis:
  obtains a where "analyse_with_options (sample_env cursor_ops) (cursor_new sample_ext_image)
      1024 default_options = Some (Inr a)" "ma_mbr a = sample_ext_table"
  using sample_ext_table_wf unfolding sample_ext_image_def
  by (rule wf_analysis [of _ sample_ebr]) (simp add: sample_ebr_def)

lemma sample_ext_facts:
  "image_reader (reader (sample_env cursor_ops)) cursor_at (\<lambda>_. 0)"
  "cursor_at (cursor_new sample_ext_image) sample_ext_image 0"
  "find is_extended (entries sample_ext_table) =
     Some ((sample_slot 1 10)\<lparr>type_code := TypeCode 0x05\<rparr>)"
proof -
  show "cursor_at (cursor_new sample_ext_image) sample_ext_image 0"
    using length_mbr_to_bytes [OF sample_ext_table_wf]
    by (intro cursor_new_at) (simp add: sample_ext_image_def sample_ebr_def)
qed (simp_all add: cur.image_reader_axioms sample_ext_table_def is_extended_def type_is_extended_def)

lemma sample_ext_slack:
  obtains a x lba h where "analyse_with_options (sample_env cursor_ops) (cursor_new sample_ext_image)
      1024 default_options = Some (Inr a)" "x \<in> set (ma_anomalies a)" "an_kind x = EbrSlackData lba h"
proof -
  obtain a where a: "analyse_with_options (sample_env cursor_ops) (cursor_new sample_ext_image)
      1024 default_options = Some (Inr a)" "ma_mbr a = sample_ext_table"
    by (rule sample_ext_analysis)
  have run: "ebr_run sample_ext_image 1 512 [] 1 (ma_ebr_chain a)"
    using analyse_chain_at [OF sample_ext_facts(1,2) a(1), unfolded a(2), OF sample_ext_facts(3)]
    by (simp add: sample_slot_def default_options_def SECTOR_BYTES_def SECTOR_SIZE_def)
  obtain e p where e: "image_ebr sample_ext_image 512 1 = Some (e, p)" "lba_start p = 0"
    "ebr_lba e = 1" "slack e = 1 # replicate 31 0" by (rule sample_ext_ebr)
  have "ebr_run sample_ext_image 1 512 [] 1 \<lparr>links = [] @ [e], had_cycle = False, depth_exceeded = False\<rparr>"
    using e by (intro ebr_run.last_link [of _ _ _ _ e p]) (simp_all add: next_link_def)
  then have chain: "links (ma_ebr_chain a) = [e]" using run ebr_run_deterministic by fastforce
  obtain h where "shannon exact_f64 (slack e) = Some h" using shannon_returns [of "slack e"] e(4) by auto
  then have "EbrSlackData 1 h \<in> kinds (ma_anomalies a)"
    using analyse_ebr_kinds [OF a(1)] e(3,4) by (simp add: chain sample_env_def)
  then obtain x where x: "x \<in> set (ma_anomalies a)" "an_kind x = EbrSlackData 1 h"
    unfolding kinds_def by auto
  from that [OF a(1) x] show thesis .
qed

lemma overlap_variant:
  "(\<exists>i j e s. OverlappingPartitions i j e s \<in> kinds fs) \<longleftrightarrow> of_variant 8 fs \<noteq> {}"
proof
  assume "of_variant 8 fs \<noteq> {}"
  then obtain k where "k \<in> kinds fs" "variant k = 8" by (auto simp: of_variant_def)
  then show "\<exists>i j e s. OverlappingPartitions i j e s \<in> kinds fs" by (cases k) auto
qed (auto simp: of_variant_def)

text \<open>
  What the report says of overlaps: the data partitions in the order of their starts, and the
  positions in that order whose extent reaches the start of the next.
\<close>

definition data_extents :: "('vs, 'enc, 'gpt) mbr_analysis \<Rightarrow> (nat \<times> u64 \<times> u64) list" where
  "data_extents a = by_start (map overlap_extent_of (filter data_partition (ma_partitions a)))"

lemma data_extents_sorted: "sorted (map (\<lambda>(_, s, _). s) (data_extents a))"
  by (simp add: data_extents_def)

lemma analyse_overlap_kinds:
  assumes "analyse_with_options env r ds opts = Some (Inr a)"
  shows "of_variant 8 (ma_anomalies a) = (\<lambda>k. overlap_kind (data_extents a ! k) (data_extents a ! Suc k)) `
    {k. Suc k < length (data_extents a) \<and> runs_into (data_extents a ! k) (data_extents a ! Suc k)}"
  using assms
proof (cases rule: analyse_variants)
  case (1 m r1 hdr r2 f1 f4 f5 last_lba f6 r7 f7 sc7 r8 f8 sc8 f9 f10)
  have "by_start (sc_overlap_extents sc8) = data_extents a"
    using 1(4,5) by (simp add: scan_ok_def data_extents_def)
  moreover from this have "length (sc_overlap_extents sc8) = length (data_extents a)"
    by (metis length_sort)
  ultimately show ?thesis using check_overlaps_kinds [OF 1(24,25)] unfolding 1(26) by simp
qed

lemma analyse_overlap_iff:
  assumes "analyse_with_options env r ds opts = Some (Inr a)"
    and "\<forall>p \<in> set (ma_partitions a). data_partition p \<longrightarrow> ps_lba_start p \<le> ps_lba_end p"
  shows "(\<exists>i j e s. OverlappingPartitions i j e s \<in> kinds (ma_anomalies a)) \<longleftrightarrow>
    (\<exists>lba. 2 \<le> length (filter (\<lambda>p. data_partition p
       \<and> unat (ps_lba_start p) \<le> lba \<and> lba \<le> unat (ps_lba_end p)) (ma_partitions a)))"
proof -
  let ?xs = "map overlap_extent_of (filter data_partition (ma_partitions a))"
  have wf: "\<forall>(_, s, e) \<in> set (data_extents a). s \<le> e"
    using assms(2) by (auto simp: data_extents_def overlap_extent_of_def)
  have "length (filter (claims lba) (data_extents a)) = length (filter (claims lba) ?xs)" for lba
    by (rule length_filter_mset) (simp add: data_extents_def)
  also have "length (filter (claims lba) ?xs) = length (filter (\<lambda>p. data_partition p
       \<and> unat (ps_lba_start p) \<le> lba \<and> lba \<le> unat (ps_lba_end p)) (ma_partitions a))" for lba
    by (simp add: filter_map comp_def claims_def overlap_extent_of_def conj_commute)
  finally show ?thesis
    using adjacent_overlap_iff [OF data_extents_sorted wf]
    unfolding overlap_variant analyse_overlap_kinds [OF assms(1)] by simp
qed

lemma analyse_overlap_neighbours:
  assumes "analyse_with_options env r ds opts = Some (Inr a)"
  shows "OverlappingPartitions i j e s \<in> kinds (ma_anomalies a) \<longleftrightarrow>
    (\<exists>k s' e'. Suc k < length (data_extents a) \<and> data_extents a ! k = (i, s', e)
       \<and> data_extents a ! Suc k = (j, s, e') \<and> s \<le> e)"
proof -
  have "OverlappingPartitions i j e s \<in> kinds (ma_anomalies a) \<longleftrightarrow>
      OverlappingPartitions i j e s \<in> of_variant 8 (ma_anomalies a)"
    by (simp add: of_variant_def)
  also have "\<dots> \<longleftrightarrow> (\<exists>k. Suc k < length (data_extents a)
      \<and> runs_into (data_extents a ! k) (data_extents a ! Suc k)
      \<and> overlap_kind (data_extents a ! k) (data_extents a ! Suc k) = OverlappingPartitions i j e s)"
    unfolding analyse_overlap_kinds [OF assms] by (auto simp: image_iff eq_commute)
  also have "\<dots> \<longleftrightarrow> (\<exists>k s' e'. Suc k < length (data_extents a) \<and> data_extents a ! k = (i, s', e)
       \<and> data_extents a ! Suc k = (j, s, e') \<and> s \<le> e)"
    by (intro ex_cong1) (auto simp: overlap_kind_def runs_into_def prod_eq_iff)
  finally show ?thesis .
qed

lemma analyse_duplicates:
  assumes "analyse_with_options env r ds opts = Some (Inr a)"
  shows "DuplicatePartitionEntry i j \<in> kinds (ma_anomalies a) \<longleftrightarrow>
    (let es = entries (ma_mbr a) in i < j \<and> j < 4 \<and> \<not> is_empty (es ! i) \<and> \<not> is_empty (es ! j)
       \<and> lba_start (es ! i) = lba_start (es ! j) \<and> lba_count (es ! i) = lba_count (es ! j))"
  using assms
proof (cases rule: analyse_variants)
  case (1 m r1 hdr r2 f1 f4 f5 last_lba f6 r7 f7 sc7 r8 f8 sc8 f9 f10)
  have len: "length (entries m) = 4" using 1(2) by (simp add: mbr_wf_def)
  have "DuplicatePartitionEntry i j \<in> kinds (ma_anomalies a) \<longleftrightarrow>
      DuplicatePartitionEntry i j \<in> of_variant 7 f5"
    using in_of_variant [of "DuplicatePartitionEntry i j" 7 "ma_anomalies a"] unfolding 1(14) by simp
  also have "\<dots> \<longleftrightarrow> i < j \<and> j < 4 \<and> \<not> is_empty (entries m ! i) \<and> same_extent (entries m) i j"
    unfolding duplicates_loop_kinds [OF 1(12) [unfolded check_duplicate_entries_def]] 1(13) len by auto
  finally show ?thesis unfolding 1(3) Let_def same_extent_def by blast
qed

lemma sample_wiped:
  assumes "analyse_with_options (sample_env cursor_ops) r ds default_options = Some (Inr a)"
    and "ma_mbr a = sample_disk"
  shows "WipedBootCode \<in> kinds (ma_anomalies a)"
proof -
  have "identify il (boot_code sample_disk) = BcAllZeros" for il
    by (simp add: identify_AllZeros_iff sample_disk_def)
  moreover have "\<not> is_pure_protective_mbr sample_disk"
    by (simp add: is_pure_protective_mbr_def sample_disk_def sample_slot_def unused_slot_def
        is_empty_def type_is_empty_def)
  ultimately show ?thesis
    using analyse_boot_code [OF assms(1)] assms(2)
    by (auto simp: boot_code_kinds_def)
qed

lemma sample_slots: "used_slots (enumerate 0 (entries sample_disk)) =
    [(0, sample_slot 10 10), (1, sample_slot 15 10)]"
  by (simp add: sample_disk_def used_slots_def sample_slot_def unused_slot_def type_is_empty_def)

lemma sample_partitions:
  assumes "analyse_with_options env r ds default_options = Some (Inr a)"
    and "ma_mbr a = sample_disk"
  obtains p q where "ma_partitions a = [p, q]" "data_partition p" "data_partition q"
    "extent_of p = (10, 19)" "extent_of q = (15, 24)"
proof -
  have "find is_extended (entries sample_disk) = None"
    by (simp add: sample_disk_def sample_slot_def unused_slot_def is_extended_def type_is_extended_def)
  then have "links (ma_ebr_chain a) = []" using analyse_no_extended [OF assms(1)] assms(2) by simp
  with analyse_inventory [OF assms(1)] obtain ps where ps: "ma_partitions a = ps"
    "list_all2 (primary_summary (opt_sector_size default_options))
       [(0, sample_slot 10 10), (1, sample_slot 15 10)] ps"
    unfolding assms(2) sample_slots by auto
  then obtain p q where pq: "ps = [p, q]" "primary_summary 512 (0, sample_slot 10 10) p"
    "primary_summary 512 (1, sample_slot 15 10) q"
    by (auto simp: list_all2_Cons1 default_options_def SECTOR_BYTES_def SECTOR_SIZE_def)
  have "lba_end (sample_slot 10 10) = 19" "lba_end (sample_slot 15 10) = 24"
    by (simp_all add: sample_slot_def lba_end_def saturating_add_def saturating_sub_def checked_add_def)
  with pq ps that show thesis
    by (auto simp: primary_summary_def data_partition_def extent_of_def sample_slot_def
        type_is_extended_def)
qed

lemma sample_shared_sector:
  assumes "analyse_with_options env r ds default_options = Some (Inr a)" and "ma_mbr a = sample_disk"
  shows "\<forall>x \<in> set (ma_partitions a). data_partition x \<longrightarrow> ps_lba_start x \<le> ps_lba_end x"
    and "2 \<le> length (filter (\<lambda>x. data_partition x
      \<and> unat (ps_lba_start x) \<le> 15 \<and> 15 \<le> unat (ps_lba_end x)) (ma_partitions a))"
proof -
  obtain p q where ps: "ma_partitions a = [p, q]" and pq: "data_partition p" "data_partition q"
    "extent_of p = (10, 19)" "extent_of q = (15, 24)"
    using assms by (rule sample_partitions)
  show "\<forall>x \<in> set (ma_partitions a). data_partition x \<longrightarrow> ps_lba_start x \<le> ps_lba_end x"
    using pq by (simp add: ps extent_of_def)
  show "2 \<le> length (filter (\<lambda>x. data_partition x
      \<and> unat (ps_lba_start x) \<le> 15 \<and> 15 \<le> unat (ps_lba_end x)) (ma_partitions a))"
    using pq by (simp add: ps extent_of_def)
qed

end
