(* ===== verification/Rounding.thy ===== *)
theory Rounding
  imports Entropy
begin

text \<open>
  The entropy of \<open>forensic/src/entropy.rs\<close> under rounding.  What is assumed of the floating-point
  arithmetic is the standard model with a generous unit: every operation and the logarithm err
  by at most \<open>2 ^ -50\<close> relative to the result, plus an underflow term.  The computed value is then
  within \<open>2 ^ -35\<close> of the entropy of the empirical distribution.
\<close>

definition unit_err :: real where
  "unit_err = 1 / 2 ^ 50"

definition near_exact :: "f64_env \<Rightarrow> bool" where
  "near_exact fl \<longleftrightarrow>
     (\<forall>x. \<bar>x\<bar> \<le> 2 ^ 1000 \<longrightarrow> \<bar>rnd fl x - x\<bar> \<le> unit_err * (\<bar>x\<bar> + 1 / 2 ^ 100))
     \<and> (\<forall>x > 0. \<bar>flog2 fl x - log 2 x\<bar> \<le> unit_err * (\<bar>log 2 x\<bar> + 1 / 2 ^ 100))"

lemma near_exact_exact: "near_exact exact_f64"
  by (simp add: near_exact_def exact_f64_def unit_err_def)

subsection \<open>One operation\<close>

lemma rnd_coarse:
  assumes "near_exact fl" and "\<bar>x\<bar> \<le> 2 ^ 1000" and "1 / 2 ^ 100 \<le> \<bar>x\<bar>"
  shows "\<bar>rnd fl x - x\<bar> \<le> 2 * unit_err * \<bar>x\<bar>"
proof -
  have "\<bar>rnd fl x - x\<bar> \<le> unit_err * (\<bar>x\<bar> + 1 / 2 ^ 100)" using assms(1,2) by (simp add: near_exact_def)
  also have "\<dots> \<le> unit_err * (2 * \<bar>x\<bar>)" using assms(3) by (intro mult_left_mono) (simp_all add: unit_err_def)
  finally show ?thesis by simp
qed

lemma log2_one_plus:
  assumes "\<bar>d\<bar> \<le> 1 / 2" shows "\<bar>log 2 (1 + d)\<bar> \<le> 4 * \<bar>d\<bar>"
proof -
  have "\<bar>ln (1 + d) - d\<bar> \<le> 2 * d\<^sup>2" using assms by (rule abs_ln_one_plus_x_minus_x_bound)
  also have "2 * d\<^sup>2 \<le> \<bar>d\<bar>"
  proof -
    have "2 * d\<^sup>2 = 2 * \<bar>d\<bar> * \<bar>d\<bar>" by (simp add: power2_eq_square)
    also have "\<dots> \<le> 1 * \<bar>d\<bar>" using assms by (intro mult_right_mono) auto
    finally show ?thesis by simp
  qed
  finally have "\<bar>ln (1 + d)\<bar> \<le> 2 * \<bar>d\<bar>" by linarith
  moreover have "1 / 2 \<le> ln (2 :: real)" using ln_le_minus_one [of "1 / 2 :: real"] by (simp add: ln_div)
  ultimately have "\<bar>ln (1 + d)\<bar> / ln 2 \<le> 2 * \<bar>d\<bar> / (1 / 2)" by (intro frac_le) auto
  moreover have "\<bar>log 2 (1 + d)\<bar> = \<bar>ln (1 + d)\<bar> / ln 2" unfolding log_def by (simp add: abs_divide)
  ultimately show ?thesis by simp
qed

lemma unit_err_small: "0 < unit_err" "unit_err \<le> 1 / 1000000"
  by (simp_all add: unit_err_def)

text \<open>The rounded quotient of two rounded counts.\<close>

lemma rounded_quotient:
  assumes fl: "near_exact fl" and c: "1 \<le> c" "c \<le> n" and n: "n \<le> 2 ^ 64"
  shows "\<bar>rnd fl (rnd fl c / rnd fl n) - c / n\<bar> \<le> 8 * unit_err * (c / n)"
proof -
  let ?u = unit_err
  note u = unit_err_small
  have big: "(2 :: real) ^ 64 \<le> 2 ^ 1000" by (rule power_increasing) auto
  have C: "\<bar>rnd fl c - c\<bar> \<le> 2 * ?u * c" and N: "\<bar>rnd fl n - n\<bar> \<le> 2 * ?u * n"
    using rnd_coarse [OF fl, of c] rnd_coarse [OF fl, of n] c n big by auto
  obtain a where a: "rnd fl c = c * (1 + a)" "\<bar>a\<bar> \<le> 2 * ?u"
  proof
    show "rnd fl c = c * (1 + (rnd fl c - c) / c)" using c by (simp add: field_simps)
    show "\<bar>(rnd fl c - c) / c\<bar> \<le> 2 * ?u" using C c by (simp add: divide_le_eq)
  qed
  obtain b where b: "rnd fl n = n * (1 + b)" "\<bar>b\<bar> \<le> 2 * ?u"
  proof
    show "rnd fl n = n * (1 + (rnd fl n - n) / n)" using c by (simp add: field_simps)
    show "\<bar>(rnd fl n - n) / n\<bar> \<le> 2 * ?u" using N c by (simp add: divide_le_eq)
  qed
  define p where "p = c / n"
  define q where "q = rnd fl c / rnd fl n"
  have p: "0 < p" "p \<le> 1" "1 / 2 ^ 64 \<le> p" using c n by (auto simp: p_def field_simps)
  have b1: "1 / 2 \<le> 1 + b" using b(2) u by linarith
  have "q = p * ((1 + a) / (1 + b))" by (simp add: p_def q_def a(1) b(1))
  also have "(1 + a) / (1 + b) = 1 + (a - b) / (1 + b)" using b1 by (simp add: field_simps)
  finally have diff: "q - p = p * ((a - b) / (1 + b))" by (simp add: distrib_left)
  have rel: "\<bar>(a - b) / (1 + b)\<bar> \<le> 5 * ?u"
  proof -
    have "\<bar>a - b\<bar> \<le> 4 * ?u" using a(2) b(2) by linarith
    also have "\<dots> \<le> 5 * ?u * (1 + b)"
    proof -
      have "4 / 5 \<le> 1 + b" using b(2) u by linarith
      then have "5 * ?u * (4 / 5) \<le> 5 * ?u * (1 + b)" using u(1) by (intro mult_left_mono) auto
      then show ?thesis by simp
    qed
    finally show ?thesis using b1 by (simp add: divide_le_eq)
  qed
  have "\<bar>q - p\<bar> = p * \<bar>(a - b) / (1 + b)\<bar>" unfolding diff using p(1) by (simp only: abs_mult abs_of_pos)
  also have "\<dots> \<le> p * (5 * ?u)" using rel p(1) by (intro mult_left_mono) auto
  finally have q: "\<bar>q - p\<bar> \<le> 5 * ?u * p" by (simp add: mult.commute)
  have up: "?u * p \<le> p / 1000000" using mult_right_mono [OF u(2), of p] p(1) by simp
  then have q2: "p / 2 \<le> q" "q \<le> 11 / 10 * p" using q p(1) by linarith+
  have "1 / 2 ^ 100 \<le> (1 / 2 ^ 64) / (2 :: real)" by simp
  also have "\<dots> \<le> p / 2" using p(3) by (rule divide_right_mono) simp
  also note q2(1)
  finally have q0: "1 / 2 ^ 100 \<le> q" .
  have q1: "0 < q" using q2(1) p(1) by linarith
  have "q \<le> 2 ^ 1000"
  proof -
    have "q \<le> 2" using q2(2) p(2) by linarith
    also have "(2 :: real) \<le> 2 ^ 1000" by (rule self_le_power) auto
    finally show ?thesis .
  qed
  then have "\<bar>rnd fl q - q\<bar> \<le> 2 * ?u * q" using rnd_coarse [OF fl, of q] q0 q1 by simp
  also have "\<dots> \<le> 2 * ?u * (11 / 10 * p)" using q2(2) u(1) by (intro mult_left_mono) auto
  finally have "\<bar>rnd fl q - q\<bar> \<le> 22 / 10 * (?u * p)" by simp
  moreover have "\<bar>q - p\<bar> \<le> 5 * (?u * p)" using q by simp
  moreover have "0 \<le> ?u * p" using u(1) p(1) by simp
  ultimately have "\<bar>rnd fl q - p\<bar> \<le> 8 * (?u * p)" by linarith
  then show ?thesis by (simp add: p_def q_def)
qed

subsection \<open>One term and the sum\<close>

lemma scaled_down: "0 \<le> a \<Longrightarrow> 0 \<le> b \<Longrightarrow> 1 / 1000000 * (10 * a + 68 * b) \<le> a + (b :: real)"
  by (simp add: field_simps)

lemma abs_near: "\<bar>x - a\<bar> \<le> a + b \<Longrightarrow> 0 \<le> a \<Longrightarrow> \<bar>x\<bar> \<le> 2 * a + (b :: real)"
  by linarith

lemma rounded_term:
  assumes fl: "near_exact fl" and c: "1 \<le> unat c" "unat c \<le> n" and n: "n \<le> 2 ^ 64"
  defines "p \<equiv> real (unat c) / real n"
  shows "\<bar>entropy_term fl (rnd fl (real n)) c - (- p * log 2 p)\<bar> \<le> unit_err * (12 * (- p * log 2 p) + 70 * p)"
proof -
  let ?u = unit_err and ?l = "- log 2 p"
  note u = unit_err_small
  have n': "real n \<le> 2 ^ 64" using n by (metis of_nat_le_iff of_nat_numeral of_nat_power)
  have c': "1 \<le> real (unat c)" "real (unat c) \<le> real n"
    using of_nat_mono [OF c(1), where 'a = real] of_nat_mono [OF c(2), where 'a = real] by simp_all
  then have p: "0 < p" "p \<le> 1" and pmin: "1 / 2 ^ 64 \<le> p" using n' by (auto simp: p_def field_simps)
  have l: "0 \<le> ?l" using p by simp
  define q where "q = rnd fl (rnd fl (real (unat c)) / rnd fl (real n))"
  have q: "\<bar>q - p\<bar> \<le> 8 * ?u * p"
    unfolding q_def p_def using c' n' by (intro rounded_quotient [OF fl]) auto
  define d where "d = (q - p) / p"
  have d: "\<bar>d\<bar> \<le> 8 * ?u" "q = p * (1 + d)" using q p by (simp_all add: d_def divide_le_eq field_simps)
  have d1: "\<bar>d\<bar> \<le> 1 / 1000" "0 < 1 + d" using d(1) u by linarith+
  have log_q: "log 2 q = - ?l + log 2 (1 + d)" using d(2) d1 p by (simp add: log_mult)
  have log_d: "\<bar>log 2 (1 + d)\<bar> \<le> 32 * ?u" using log2_one_plus [of d] d(1) d1(1) by linarith
  have "0 < q" using d(2) d1 p by simp
  then have "\<bar>flog2 fl q - log 2 q\<bar> \<le> ?u * (\<bar>log 2 q\<bar> + 1 / 2 ^ 100)" using fl by (simp add: near_exact_def)
  also have "\<dots> \<le> ?u * (?l + 2)"
  proof (rule mult_left_mono)
    have "(1 :: real) / 2 ^ 100 \<le> 1" by simp
    then show "\<bar>log 2 q\<bar> + 1 / 2 ^ 100 \<le> ?l + 2" using log_q log_d l u by linarith
  qed (use u in simp)
  finally have "\<bar>flog2 fl q + ?l\<bar> \<le> ?u * (?l + 2) + 32 * ?u" using log_q log_d by linarith
  then have lq: "\<bar>flog2 fl q + ?l\<bar> \<le> ?u * (?l + 34)" by (simp add: algebra_simps)
  define x where "x = - q * flog2 fl q"
  have "x - p * ?l = q * (- flog2 fl q - ?l) + (q - p) * ?l" by (simp add: x_def algebra_simps)
  then have "\<bar>x - p * ?l\<bar> \<le> \<bar>q\<bar> * \<bar>flog2 fl q + ?l\<bar> + \<bar>q - p\<bar> * ?l"
    using abs_triangle_ineq [of "q * (- flog2 fl q - ?l)" "(q - p) * ?l"] l
    by (simp add: abs_mult abs_minus_commute add.commute)
  also have "\<dots> \<le> 2 * p * (?u * (?l + 34)) + 8 * ?u * p * ?l"
  proof (rule add_mono)
    have "\<bar>q\<bar> \<le> 2 * p" using q mult_right_mono [OF u(2), of p] p by linarith
    then show "\<bar>q\<bar> * \<bar>flog2 fl q + ?l\<bar> \<le> 2 * p * (?u * (?l + 34))"
      using lq p by (intro mult_mono) auto
    show "\<bar>q - p\<bar> * ?l \<le> 8 * ?u * p * ?l" using q l by (rule mult_right_mono)
  qed
  also have "\<dots> = ?u * (10 * (p * ?l) + 68 * p)" by (simp add: algebra_simps)
  finally have x: "\<bar>x - p * ?l\<bar> \<le> ?u * (10 * (p * ?l) + 68 * p)" .
  have T: "0 \<le> p * ?l" by (rule mult_nonneg_nonneg) (use p l in auto)
  have "?u * (10 * (p * ?l) + 68 * p) \<le> 1 / 1000000 * (10 * (p * ?l) + 68 * p)"
    by (rule mult_right_mono) (use u(2) p T in linarith)+
  with x have "\<bar>x - p * ?l\<bar> \<le> 1 / 1000000 * (10 * (p * ?l) + 68 * p)" by (rule order_trans)
  also have "1 / 1000000 * (10 * (p * ?l) + 68 * p) \<le> (p * ?l) + p"
    using T p(1) by (intro scaled_down) auto
  finally have x2: "\<bar>x\<bar> \<le> 2 * (p * ?l) + p" using T p by (intro abs_near) auto
  have "p * ?l \<le> 1 * 64"
  proof (rule mult_mono)
    have "log 2 (1 / 2 ^ 64) \<le> log 2 p" using pmin p by (subst log_le_cancel_iff) auto
    moreover have "log 2 (1 / 2 ^ 64 :: real) = - 64" using log_nat_power [of 2 2 64] by (simp add: log_divide)
    ultimately show "?l \<le> 64" by linarith
  qed (use p l in auto)
  then have "\<bar>x\<bar> \<le> 2 ^ 8" using x2 p by simp
  also have "(2 :: real) ^ 8 \<le> 2 ^ 1000" by (rule power_increasing) auto
  finally have "\<bar>rnd fl x - x\<bar> \<le> ?u * (\<bar>x\<bar> + 1 / 2 ^ 100)" using fl by (simp add: near_exact_def)
  also have "\<dots> \<le> ?u * (2 * (p * ?l) + 2 * p)"
  proof (rule mult_left_mono)
    have "(1 :: real) / 2 ^ 100 \<le> 1 / 2 ^ 64" by simp
    then show "\<bar>x\<bar> + 1 / 2 ^ 100 \<le> 2 * (p * ?l) + 2 * p" using x2 pmin by linarith
  qed (use u in simp)
  finally have "\<bar>rnd fl x - p * ?l\<bar> \<le> ?u * (10 * (p * ?l) + 68 * p) + ?u * (2 * (p * ?l) + 2 * p)"
    using x by linarith
  also have "\<dots> = ?u * (12 * (p * ?l) + 70 * p)" by (simp add: algebra_simps)
  finally have "\<bar>rnd fl x - p * ?l\<bar> \<le> ?u * (12 * (p * ?l) + 70 * p)" .
  moreover have "entropy_term fl (rnd fl (real n)) c = rnd fl x"
    unfolding entropy_term_def Let_def q_def x_def by (rule refl)
  ultimately show ?thesis by simp
qed

lemma rounded_sum:
  assumes fl: "near_exact fl"
    and "\<bar>a\<bar> + (\<Sum>x\<leftarrow>xs. \<bar>x\<bar>) + 64 * unit_err * length xs \<le> 32"
  shows "\<bar>foldl (\<lambda>acc x. rnd fl (acc + x)) a xs - (a + sum_list xs)\<bar> \<le> 64 * unit_err * length xs"
  using assms(2)
proof (induction xs arbitrary: a)
  case (Cons x xs)
  let ?u = unit_err
  note u = unit_err_small
  have nonneg: "0 \<le> (\<Sum>x\<leftarrow>xs. \<bar>x\<bar>)" by (rule sum_list_nonneg) auto
  have len: "0 \<le> 64 * ?u * length xs" using u(1) by simp
  have bound: "\<bar>a\<bar> + \<bar>x\<bar> + (\<Sum>x\<leftarrow>xs. \<bar>x\<bar>) + 64 * ?u * length xs + 64 * ?u \<le> 32"
    using Cons.prems by (simp add: algebra_simps)
  have ax: "\<bar>a + x\<bar> \<le> 32" using bound nonneg len u(1) by linarith
  have "(32 :: real) \<le> 2 ^ 5" by simp
  also have "(2 :: real) ^ 5 \<le> 2 ^ 1000" by (rule power_increasing) auto
  finally have "\<bar>a + x\<bar> \<le> 2 ^ 1000" using ax by linarith
  then have "\<bar>rnd fl (a + x) - (a + x)\<bar> \<le> ?u * (\<bar>a + x\<bar> + 1 / 2 ^ 100)"
    using fl by (simp add: near_exact_def)
  also have "\<dots> \<le> ?u * 64"
  proof (rule mult_left_mono)
    have "(1 :: real) / 2 ^ 100 \<le> 1" by simp
    then show "\<bar>a + x\<bar> + 1 / 2 ^ 100 \<le> 64" using ax by linarith
  qed (use u in simp)
  finally have step: "\<bar>rnd fl (a + x) - (a + x)\<bar> \<le> 64 * ?u" by simp
  have "\<bar>rnd fl (a + x)\<bar> + (\<Sum>x\<leftarrow>xs. \<bar>x\<bar>) + 64 * ?u * length xs \<le> 32"
    using step bound by linarith
  from Cons.IH [OF this] step show ?case by (simp add: algebra_simps)
qed simp

lemma shannon_rounded:
  assumes fl: "near_exact fl" and ne: "data \<noteq> []" and len: "length data < 2 ^ 64"
  shows "\<exists>h. shannon fl data = Some h \<and> \<bar>h - empirical_entropy data\<bar> \<le> 1 / 2 ^ 35"
proof -
  let ?u = unit_err and ?H = "empirical_entropy data"
  note u = unit_err_small
  obtain cs where cs: "count_bytes data (replicate 256 0) = Some cs" "length cs = 256"
    "\<forall>c \<in> set cs. unat c \<le> length data"
    and sums: "\<And>f. (\<Sum>c\<leftarrow>filter (\<lambda>c. 0 < c) cs. f (real (unat c) / length data)) =
      (\<Sum>b \<in> set data. f (freq data b) :: real)"
    using counted_frequencies [OF len] by blast
  define ks where "ks = filter (\<lambda>c. 0 < c) cs"
  define p where "p c = real (unat c) / length data" for c :: u64
  define T where "T c = - p c * log 2 (p c)" for c
  define t where "t c = entropy_term fl (rnd fl (real (length data))) c" for c
  have ks: "1 \<le> unat c \<and> unat c \<le> length data" if "c \<in> set ks" for c
    using that cs(3) by (auto simp: ks_def word_less_nat_alt)
  have err: "\<bar>t c - T c\<bar> \<le> ?u * (12 * T c + 70 * p c)" if "c \<in> set ks" for c
    unfolding t_def T_def p_def using ks [OF that] len by (intro rounded_term [OF fl]) auto
  have sum_p: "(\<Sum>c\<leftarrow>ks. p c) = 1"
    using sums [of "\<lambda>x. x"] sum_freq [OF ne] by (simp add: ks_def p_def)
  have sum_T: "(\<Sum>c\<leftarrow>ks. T c) = ?H"
    using sums [of "\<lambda>x. - x * log 2 x"] by (simp add: ks_def p_def T_def empirical_entropy_def)
  have H: "0 \<le> ?H" "?H \<le> 8" using entropy_nonneg entropy_le_8 [OF ne] by auto
  have sum_err: "(\<Sum>c\<leftarrow>ks. \<bar>t c - T c\<bar>) \<le> ?u * 166"
  proof -
    have "(\<Sum>c\<leftarrow>ks. \<bar>t c - T c\<bar>) \<le> (\<Sum>c\<leftarrow>ks. ?u * (12 * T c + 70 * p c))" using err by (rule sum_list_mono)
    also have "\<dots> = ?u * (12 * ?H + 70)"
      by (simp add: sum_list_const_mult sum_list_addf sum_T sum_p flip: sum_T)
    also have "\<dots> \<le> ?u * 166" using u(1) H by (intro mult_left_mono) auto
    finally show ?thesis .
  qed
  have T0: "0 \<le> T c" if "c \<in> set ks" for c
  proof -
    have "1 \<le> real (unat c)" "real (unat c) \<le> real (length data)"
      using ks [OF that] of_nat_mono [of 1 "unat c", where 'a = real]
        of_nat_mono [of "unat c" "length data", where 'a = real] by simp_all
    then have "0 < p c" "p c \<le> 1" using ne by (auto simp: p_def divide_le_eq intro!: divide_pos_pos)
    then show ?thesis by (simp add: T_def mult_nonneg_nonpos)
  qed
  have "(\<Sum>c\<leftarrow>ks. \<bar>t c\<bar>) \<le> (\<Sum>c\<leftarrow>ks. \<bar>t c - T c\<bar> + T c)"
    by (rule sum_list_mono) (use T0 in fastforce)
  also have "\<dots> \<le> ?u * 166 + 8" using sum_err H by (simp add: sum_list_addf sum_T)
  finally have abs: "(\<Sum>c\<leftarrow>ks. \<bar>t c\<bar>) \<le> 9" using u by linarith
  have n: "length ks \<le> 256" unfolding ks_def using length_filter_le [of _ cs] cs(2) by metis
  have nu: "64 * ?u * length ks \<le> 64 * ?u * 256" using n u(1) by (intro mult_left_mono) auto
  let ?h = "foldl (\<lambda>acc x. rnd fl (acc + x)) 0 (map t ks)"
  have "64 * ?u * 256 \<le> 1" using u(2) by linarith
  with nu abs have "(\<Sum>c\<leftarrow>ks. \<bar>t c\<bar>) + 64 * ?u * length ks \<le> 32" by linarith
  then have "\<bar>?h - (0 + sum_list (map t ks))\<bar> \<le> 64 * ?u * length (map t ks)"
    by (intro rounded_sum [OF fl]) (simp add: comp_def)
  moreover have "\<bar>sum_list (map t ks) - ?H\<bar> \<le> ?u * 166"
  proof -
    have "sum_list (map t ks) - ?H = (\<Sum>c\<leftarrow>ks. t c - T c)" by (simp add: sum_list_subtractf sum_T)
    also have "\<bar>\<dots>\<bar> \<le> (\<Sum>c\<leftarrow>ks. \<bar>t c - T c\<bar>)"
      using sum_list_abs [of "map (\<lambda>c. t c - T c) ks"] by (simp add: comp_def)
    finally show ?thesis using sum_err by linarith
  qed
  ultimately have "\<bar>?h - ?H\<bar> \<le> 64 * ?u * 256 + ?u * 166" using nu by simp
  also have "\<dots> \<le> 1 / 2 ^ 35" by (simp add: unit_err_def)
  finally have "\<bar>?h - ?H\<bar> \<le> 1 / 2 ^ 35" .
  moreover have "shannon fl data = Some ?h"
    using ne cs(1) by (simp add: shannon_def Let_def ks_def t_def [abs_def])
  ultimately show ?thesis by blast
qed

text \<open>A region of at most 32 bytes stays below the threshold of 6 bits under every such arithmetic.\<close>

lemma short_entropy_rounded:
  assumes "near_exact fl" and "length data \<le> 32" and "shannon fl data = Some h"
  shows "h \<le> HIGH_ENTROPY_THRESHOLD"
proof (cases "data = []")
  case False
  have "0 < card (set data)" "card (set data) \<le> 32"
    using False card_length [of data] assms(2) by (auto simp: card_gt_0_iff)
  then have "log 2 (card (set data)) \<le> log 2 32" by (intro log_mono) auto
  moreover have "log 2 (32 :: real) = 5" using log_nat_power [of 2 2 5] by simp
  ultimately have "empirical_entropy data \<le> 5" using entropy_le_log_card [OF False] by simp
  moreover have "\<bar>h - empirical_entropy data\<bar> \<le> 1 / 2 ^ 35"
    using shannon_rounded [OF assms(1) False] assms(2,3) by auto
  moreover have "(1 :: real) / 2 ^ 35 \<le> 1" by simp
  ultimately show ?thesis unfolding HIGH_ENTROPY_THRESHOLD_def by linarith
qed (use assms in \<open>simp add: shannon_def HIGH_ENTROPY_THRESHOLD_def\<close>)

subsection \<open>Properties\<close>

text \<open>
  C36 (bounds): the computed entropy is accurate.  Under every floating-point arithmetic whose
  operations and logarithm err by at most \<open>2 ^ -50\<close> relative to their result (plus underflow), the
  function returns for every non-empty slice below \<open>2 ^ 64\<close> bytes a value within \<open>2 ^ -35\<close> of the
  entropy of the byte frequencies; that entropy lies between 0 and the smaller of 8 and the
  logarithm of the length, and is 0 exactly for the slices that \<open>is_uniform\<close> accepts.
\<close>
theorem shannon_accuracy:
  assumes "near_exact fl" and "data \<noteq> []" and "length data < 2 ^ 64"
  shows "(\<exists>h. shannon fl data = Some h \<and> \<bar>h - empirical_entropy data\<bar> \<le> 1 / 2 ^ 35)
    \<and> 0 \<le> empirical_entropy data \<and> empirical_entropy data \<le> min 8 (log 2 (length data))
    \<and> (empirical_entropy data = 0 \<longleftrightarrow> is_uniform data)"
proof -
  have "card (set data) \<le> length data" "0 < card (set data)"
    using card_length assms(2) by (auto simp: card_gt_0_iff)
  then have "log 2 (card (set data)) \<le> log 2 (length data)" by (intro log_mono) auto
  then have "empirical_entropy data \<le> log 2 (length data)"
    using entropy_le_log_card [OF assms(2)] by linarith
  with shannon_rounded [OF assms] entropy_le_8 [OF assms(2)] show ?thesis
    using entropy_zero_iff card_set_1_iff assms(2) by (auto simp: entropy_nonneg)
qed

theorem shannon_accuracy_witness:
  "near_exact exact_f64 \<and> ([7, 7] :: u8 list) \<noteq> []
   \<and> (\<exists>h. shannon exact_f64 [7, 7] = Some h \<and> \<bar>h\<bar> \<le> 1 / 2 ^ 35)"
proof -
  have "is_uniform [7, 7]"
    unfolding is_uniform_iff by (rule exI [of _ 2]) (simp add: numeral_2_eq_2)
  with shannon_accuracy [OF near_exact_exact, of "[7, 7]"] near_exact_exact show ?thesis by auto
qed

end
