(* ===== verification/Guarantees.thy ===== *)
theory Guarantees
  imports Report Rounding
begin

text \<open>
  The properties of the finished report.  Unless they speak of an image, they hold for every
  reader, every environment and every sector size: only that the analysis returned a report is
  assumed.
\<close>

subsection \<open>The report\<close>

text \<open>
  C6 (invariant): every anomaly of a report is self-describing: its severity, its stable code
  and its note are those derived from its kind.  No stage can record one that drifted.
\<close>
theorem anomalies_derived_from_kind:
  assumes "analyse_with_options env r disk_size_bytes opts = Some (Inr a)"
    and "x \<in> set (ma_anomalies a)"
  shows "an_severity x = kind_severity (an_kind x) \<and> an_code x = kind_code (an_kind x)
    \<and> an_note x = kind_note (type_name env) (an_kind x)"
proof -
  have "x = anomaly_new (type_name env) (an_kind x) (an_offset x)"
    using emits_genuine [OF analyse_emits [OF assms(1)] assms(2)] unfolding genuine_def .
  then obtain k off where "x = anomaly_new (type_name env) k off" by blast
  then show ?thesis by (simp add: anomaly_new_def)
qed

theorem anomalies_derived_from_kind_witness:
  "\<exists>a x. analyse_with_options (sample_env cursor_ops) (cursor_new (mbr_to_bytes sample_disk)) 16384
      default_options = Some (Inr a) \<and> x \<in> set (ma_anomalies a)
    \<and> an_kind x = WipedBootCode \<and> an_severity x = High"
proof -
  obtain a where a: "analyse_with_options (sample_env cursor_ops)
      (cursor_new (mbr_to_bytes sample_disk)) 16384 default_options = Some (Inr a)" "ma_mbr a = sample_disk"
    by (rule sample_analysis)
  have "WipedBootCode \<in> kinds (ma_anomalies a)" using a by (rule sample_wiped)
  then obtain x where "x \<in> set (ma_anomalies a)" "an_kind x = WipedBootCode"
    by (auto simp: kinds_def)
  with anomalies_derived_from_kind [OF a(1) this(1)] a show ?thesis by (intro exI [of _ a] exI [of _ x]) simp
qed

text \<open>
  C3 (functional): the partition inventory is complete and exact.  It lists, in table order,
  one summary per primary slot with a non-zero type (a residual entry is not a partition), then
  one per link of the EBR chain; every summary carries the slot's type, extent, byte offset and
  byte size, and the logical partitions are numbered consecutively from four plus the number of
  primary ones.
\<close>
theorem partition_inventory:
  assumes "analyse_with_options env r disk_size_bytes opts = Some (Inr a)"
  shows "\<exists>prims logs. ma_partitions a = prims @ logs
    \<and> list_all2 (primary_summary (opt_sector_size opts))
         (used_slots (enumerate 0 (entries (ma_mbr a)))) prims
    \<and> list_all2 (logical_summary (opt_sector_size opts))
         (enumerate (4 + length prims) (links (ma_ebr_chain a))) logs"
  using assms by (rule analyse_inventory)

theorem partition_inventory_witness:
  "\<exists>a. analyse_with_options (sample_env cursor_ops) (cursor_new (mbr_to_bytes sample_disk)) 16384
      default_options = Some (Inr a) \<and> 2 \<le> length (ma_partitions a)"
proof -
  obtain a where a: "analyse_with_options (sample_env cursor_ops)
      (cursor_new (mbr_to_bytes sample_disk)) 16384 default_options = Some (Inr a)" "ma_mbr a = sample_disk"
    by (rule sample_analysis)
  from partition_inventory [OF a(1)] have "2 \<le> length (ma_partitions a)"
    unfolding a(2) by (auto simp: sample_slots dest!: list_all2_lengthD)
  with a show ?thesis by blast
qed

text \<open>
  C4 (functional): what a report says of overlaps.  Sort the data partitions (logical, or primary
  and not extended) by their starts: the overlap anomalies of a report are exactly the neighbours of
  that order where the second starts no later than the first ends, with the first's end and the second's
  start.  When moreover no data partition has length zero, comparing neighbours is sound and complete:
  an overlap anomaly is reported exactly when some sector is claimed by two data partitions.
\<close>
theorem overlap_reported_iff:
  assumes "analyse_with_options env r disk_size_bytes opts = Some (Inr a)"
  shows "(\<forall>i j e s. OverlappingPartitions i j e s \<in> kinds (ma_anomalies a) \<longleftrightarrow>
      (\<exists>k s' e'. Suc k < length (data_extents a) \<and> data_extents a ! k = (i, s', e)
         \<and> data_extents a ! Suc k = (j, s, e') \<and> s \<le> e))
    \<and> ((\<forall>p \<in> set (ma_partitions a). data_partition p \<longrightarrow> ps_lba_start p \<le> ps_lba_end p)
      \<longrightarrow> ((\<exists>i j e s. OverlappingPartitions i j e s \<in> kinds (ma_anomalies a)) \<longleftrightarrow>
           (\<exists>lba. 2 \<le> length (filter (\<lambda>p. data_partition p
              \<and> unat (ps_lba_start p) \<le> lba \<and> lba \<le> unat (ps_lba_end p)) (ma_partitions a)))))"
  using analyse_overlap_neighbours [OF assms] analyse_overlap_iff [OF assms] by blast

theorem overlap_reported_iff_witness:
  "\<exists>a. analyse_with_options (sample_env cursor_ops) (cursor_new (mbr_to_bytes sample_disk)) 16384
      default_options = Some (Inr a)
    \<and> (\<exists>i j e s. OverlappingPartitions i j e s \<in> kinds (ma_anomalies a))"
proof -
  obtain a where a: "analyse_with_options (sample_env cursor_ops)
      (cursor_new (mbr_to_bytes sample_disk)) 16384 default_options = Some (Inr a)" "ma_mbr a = sample_disk"
    by (rule sample_analysis)
  have wf: "\<forall>x \<in> set (ma_partitions a). data_partition x \<longrightarrow> ps_lba_start x \<le> ps_lba_end x"
    and two: "2 \<le> length (filter (\<lambda>x. data_partition x
      \<and> unat (ps_lba_start x) \<le> 15 \<and> 15 \<le> unat (ps_lba_end x)) (ma_partitions a))"
    using a by (rule sample_shared_sector)+
  from two overlap_reported_iff [OF a(1)] wf a(1) show ?thesis by blast
qed

text \<open>
  C5 (refinement): the reported gaps are the complement of the inventory.  With a known disk
  size and a sector size up to \<open>2 ^ 30\<close>, a sector from 1 on lies in a gap exactly when no listed
  partition covers it and it is on the disk or in front of some partition; gaps are disjoint,
  ascending, non-empty and carry their exact byte size.  When no listed partition has length zero they
  are maximal runs: two gaps are never adjacent.
\<close>
theorem gaps_complement_partitions:
  assumes "analyse_with_options env r disk_size_bytes opts = Some (Inr a)"
    and "0 < opt_sector_size opts" and "unat (opt_sector_size opts) \<le> 2 ^ 30"
    and "0 < disk_size_bytes"
  shows "(\<forall>lba. (\<exists>g \<in> set (ma_gaps a). in_gap lba g) \<longleftrightarrow>
      1 \<le> lba \<and> \<not> covered (map extent_of (ma_partitions a)) lba
      \<and> (lba \<le> unat disk_size_bytes div unat (opt_sector_size opts) - 1
         \<or> before_some (map extent_of (ma_partitions a)) lba))
    \<and> sorted_wrt apart (ma_gaps a) \<and> (\<forall>g \<in> set (ma_gaps a). gap_ok (opt_sector_size opts) g)
    \<and> ((\<forall>p \<in> set (ma_partitions a). ps_lba_start p \<le> ps_lba_end p)
       \<longrightarrow> sorted_wrt separated (ma_gaps a))"
  using assms by (rule analyse_gaps)

theorem gaps_complement_partitions_witness:
  "\<exists>a. analyse_with_options (sample_env cursor_ops) (cursor_new (mbr_to_bytes sample_disk)) 16384
      default_options = Some (Inr a)
    \<and> (\<exists>g \<in> set (ma_gaps a). in_gap 30 g) \<and> \<not> (\<exists>g \<in> set (ma_gaps a). in_gap 12 g)
    \<and> sorted_wrt separated (ma_gaps a)"
proof -
  obtain a where a: "analyse_with_options (sample_env cursor_ops)
      (cursor_new (mbr_to_bytes sample_disk)) 16384 default_options = Some (Inr a)" "ma_mbr a = sample_disk"
    by (rule sample_analysis)
  obtain p q where ps: "ma_partitions a = [p, q]" "extent_of p = (10, 19)" "extent_of q = (15, 24)"
    using a by (rule sample_partitions)
  from gaps_complement_partitions [OF a(1) default_sector_size]
  have "(\<exists>g \<in> set (ma_gaps a). in_gap 30 g)" "\<not> (\<exists>g \<in> set (ma_gaps a). in_gap 12 g)"
    "sorted_wrt separated (ma_gaps a)"
    using ps(2,3) by (simp_all add: ps covered_def default_options_def SECTOR_BYTES_def SECTOR_SIZE_def
        extent_of_def)
  with a(1) show ?thesis by blast
qed

text \<open>
  Further fact (functional): one anomaly per gap and no other gap anomaly: the gap findings of a report
  are the images of its gaps under the classification by position.
\<close>
theorem gap_findings:
  assumes "analyse_with_options env r disk_size_bytes opts = Some (Inr a)"
  shows "{k \<in> kinds (ma_anomalies a). variant k \<in> {18, 19, 20}} = gap_anomaly_kind ` set (ma_gaps a)"
  using assms
proof (cases rule: analyse_variants)
  case (1 m r1 hdr r2 f1 f4 f5 last_lba f6 r7 f7 sc7 r8 f8 sc8 f9 f10)
  have "kinds f10 = kinds f9 \<union> gap_anomaly_kind ` set (ma_gaps a)"
    using 1(27) unfolding check_gaps_def Let_def
    by (auto simp: kinds_foldl split: if_splits elim!: bind_SomeE)
  then have "of_variant n (ma_anomalies a) = {k \<in> gap_anomaly_kind ` set (ma_gaps a). variant k = n}"
    if "n \<in> {18, 19, 20}" for n
    using 1(28,29) [OF that] by (auto simp: of_variant_def)
  then have "(\<Union>n \<in> {18, 19, 20}. of_variant n (ma_anomalies a)) =
      (\<Union>n \<in> {18, 19, 20}. {k \<in> gap_anomaly_kind ` set (ma_gaps a). variant k = n})"
    by (intro SUP_cong) auto
  then show ?thesis using variant_gap_kind by (auto simp: of_variant_def)
qed

theorem gap_findings_witness:
  "\<exists>a. analyse_with_options (sample_env cursor_ops) (cursor_new (mbr_to_bytes sample_disk)) 16384
      default_options = Some (Inr a)
    \<and> gap_anomaly_kind ` set (ma_gaps a) \<subseteq> kinds (ma_anomalies a)"
proof -
  obtain a where a: "analyse_with_options (sample_env cursor_ops)
      (cursor_new (mbr_to_bytes sample_disk)) 16384 default_options = Some (Inr a)" "ma_mbr a = sample_disk"
    by (rule sample_analysis)
  with gap_findings [OF a(1)] show ?thesis by blast
qed

text \<open>
  C7 (functional): the findings on the four primary slots are exact: a residual entry, an
  invalid status byte, a CHS address that contradicts its LBA and an end beyond the disk are
  reported for a slot exactly when the slot has that defect, with the slot's own values.
\<close>
theorem primary_slot_findings:
  assumes "analyse_with_options env r disk_size_bytes opts = Some (Inr a)"
  shows "\<exists>last_lba. disk_last_lba disk_size_bytes (opt_sector_size opts) = Some last_lba
    \<and> {k \<in> kinds (ma_anomalies a). variant k \<in> {5, 6, 9, 10}} =
        (\<Union>i < 4. slot_kinds disk_size_bytes last_lba (i, entries (ma_mbr a) ! i))"
  using assms
proof (cases rule: analyse_variants)
  case (1 m r1 hdr r2 f1 f4 f5 last_lba f6 r7 f7 sc7 r8 f8 sc8 f9 f10)
  have len: "length (entries m) = 4" using 1(2) by (simp add: mbr_wf_def)
  let ?K = "\<Union>i < 4. slot_kinds disk_size_bytes last_lba (i, entries m ! i)"
  have "of_variant n (ma_anomalies a) = {k \<in> ?K. variant k = n}" if "n \<in> {5, 6, 9, 10}" for n
    unfolding 1(20) [OF that] scan_primary_entries_kinds [OF 1(18) that 1(19) [OF that]] len by blast
  then have "(\<Union>n \<in> {5, 6, 9, 10}. of_variant n (ma_anomalies a)) =
      (\<Union>n \<in> {5, 6, 9, 10}. {k \<in> ?K. variant k = n})"
    by (intro SUP_cong) auto
  moreover have "variant k \<in> {5, 6, 9, 10}" if "k \<in> ?K" for k
    using that by (auto simp: slot_kinds_def split: if_splits)
  ultimately have "{k \<in> kinds (ma_anomalies a). variant k \<in> {5, 6, 9, 10}} = ?K"
    by (auto simp: of_variant_def)
  with 1(3,6) show ?thesis by blast
qed

theorem primary_slot_findings_witness:
  "\<exists>a. analyse_with_options (sample_env cursor_ops) (cursor_new (mbr_to_bytes sample_disk)) 16384
      default_options = Some (Inr a)
    \<and> (\<forall>i s n. ResidualEntry i s n \<notin> kinds (ma_anomalies a))"
proof -
  obtain a where a: "analyse_with_options (sample_env cursor_ops)
      (cursor_new (mbr_to_bytes sample_disk)) 16384 default_options = Some (Inr a)" "ma_mbr a = sample_disk"
    by (rule sample_analysis)
  from primary_slot_findings [OF a(1)] obtain last_lba where
    k: "{k \<in> kinds (ma_anomalies a). variant k \<in> {5, 6, 9, 10}} =
        (\<Union>i < 4. slot_kinds 16384 last_lba (i, entries sample_disk ! i))" unfolding a(2) by blast
  have "ResidualEntry j s n \<notin> slot_kinds 16384 last_lba (i, entries sample_disk ! i)" if "i < 4" for i j s n
  proof -
    have "entries sample_disk ! i \<in> {sample_slot 10 10, sample_slot 15 10, unused_slot}"
      using that nth_mem [of i "entries sample_disk"] by (auto simp: sample_disk_def)
    then show ?thesis
      by (auto simp: slot_kinds_def sample_slot_def unused_slot_def is_empty_def type_is_empty_def)
  qed
  then have none: "ResidualEntry j s n \<notin> (\<Union>i < 4. slot_kinds 16384 last_lba (i, entries sample_disk ! i))"
    for j s n by blast
  have "ResidualEntry j s n \<notin> kinds (ma_anomalies a)" for j s n
  proof
    assume "ResidualEntry j s n \<in> kinds (ma_anomalies a)"
    then have "ResidualEntry j s n \<in> {k \<in> kinds (ma_anomalies a). variant k \<in> {5, 6, 9, 10}}" by simp
    with none show False unfolding k by blast
  qed
  with a(1) show ?thesis by blast
qed

text \<open>
  C21 (functional): duplicate detection is exact: the pair (i, j) is reported exactly when i and
  j are slots in ascending order, both non-empty, with the same start and the same length.
\<close>
theorem duplicate_findings:
  assumes "analyse_with_options env r disk_size_bytes opts = Some (Inr a)"
  shows "DuplicatePartitionEntry i j \<in> kinds (ma_anomalies a) \<longleftrightarrow>
    (let es = entries (ma_mbr a) in i < j \<and> j < 4 \<and> \<not> is_empty (es ! i) \<and> \<not> is_empty (es ! j)
       \<and> lba_start (es ! i) = lba_start (es ! j) \<and> lba_count (es ! i) = lba_count (es ! j))"
  using assms by (rule analyse_duplicates)

theorem duplicate_findings_witness:
  "\<exists>a. analyse_with_options (sample_env cursor_ops) (cursor_new (mbr_to_bytes sample_disk)) 16384
      default_options = Some (Inr a)
    \<and> DuplicatePartitionEntry 0 1 \<notin> kinds (ma_anomalies a)"
proof -
  obtain a where a: "analyse_with_options (sample_env cursor_ops)
      (cursor_new (mbr_to_bytes sample_disk)) 16384 default_options = Some (Inr a)" "ma_mbr a = sample_disk"
    by (rule sample_analysis)
  from duplicate_findings [OF a(1), of 0 1] show ?thesis
    using a by (simp add: sample_disk_def sample_slot_def Let_def)
qed

text \<open>
  C22 (functional): the verdict on the boot code is exact: all-zero code is benign on a genuine
  GPT disk (a header at LBA 1 and a protective entry alone in the table) and reported as wiped on
  every other, all-ones code is erased, and code of neither fill that no known loader matches is
  reported with the hex of its first sixteen bytes.
\<close>
theorem boot_code_findings:
  assumes "analyse_with_options env r disk_size_bytes opts = Some (Inr a)"
  shows "\<exists>r1 hdr r2. read_mbr (reader env) r = Some (Inr (ma_mbr a), r1)
    \<and> gpt_header_present (reader env) r1 (opt_sector_size opts) = Some (hdr, r2)
    \<and> {k \<in> kinds (ma_anomalies a). variant k \<in> {25, 26, 27, 28}} =
        (let code = boot_code (ma_mbr a) in
         if \<forall>b \<in> set code. b = 0
         then {if hdr \<and> is_pure_protective_mbr (ma_mbr a) then EmptyProtectiveBootCode else WipedBootCode}
         else if \<forall>b \<in> set code. b = 0xFF then {ErasedBootCode}
         else if identify (identify_loader env) code = BcUnknown
         then {UnknownBootCode (boot_code_head_hex code)} else {})"
proof -
  obtain m r1 where "read_mbr (reader env) r = Some (Inr m, r1)" "mbr_wf m" "ma_mbr a = m"
    using assms by (rule analyse_stages)
  then have ne: "boot_code (ma_mbr a) \<noteq> []" by (auto simp: mbr_wf_def)
  let ?code = "boot_code (ma_mbr a)" and ?bid = "identify (identify_loader env) (boot_code (ma_mbr a))"
  have zeros: "?bid = BcAllZeros \<longleftrightarrow> (\<forall>b \<in> set ?code. b = 0)" by (rule identify_AllZeros_iff)
  have ones: "?bid = BcAllOnes \<longleftrightarrow> (\<forall>b \<in> set ?code. b = 0xFF)" using ne by (rule identify_AllOnes_iff)
  have "boot_code_kinds ?code ?bid gpt =
      (if \<forall>b \<in> set ?code. b = 0 then {if gpt then EmptyProtectiveBootCode else WipedBootCode}
       else if \<forall>b \<in> set ?code. b = 0xFF then {ErasedBootCode}
       else if ?bid = BcUnknown then {UnknownBootCode (boot_code_head_hex ?code)} else {})" for gpt
    unfolding zeros [symmetric] ones [symmetric]
    by (cases ?bid) (simp_all add: boot_code_kinds_def)
  with analyse_boot_code [OF assms] show ?thesis unfolding Let_def by simp
qed

theorem boot_code_findings_witness:
  "\<exists>a. analyse_with_options (sample_env cursor_ops) (cursor_new (mbr_to_bytes sample_disk)) 16384
      default_options = Some (Inr a)
    \<and> WipedBootCode \<in> kinds (ma_anomalies a)"
proof -
  obtain a where a: "analyse_with_options (sample_env cursor_ops)
      (cursor_new (mbr_to_bytes sample_disk)) 16384 default_options = Some (Inr a)" "ma_mbr a = sample_disk"
    by (rule sample_analysis)
  have zeros: "\<forall>b \<in> set (boot_code sample_disk). b = 0" by (simp add: sample_disk_def)
  have "\<not> is_pure_protective_mbr sample_disk"
    by (simp add: is_pure_protective_mbr_def sample_disk_def sample_slot_def unused_slot_def
        is_empty_def type_is_empty_def)
  with boot_code_findings [OF a(1)] zeros
  have "{k \<in> kinds (ma_anomalies a). variant k \<in> {25, 26, 27, 28}} = {WipedBootCode}"
    unfolding a(2) Let_def by auto
  with a(1) show ?thesis by blast
qed

text \<open>
  C23 (functional): the reconciliation of the table with the GPT is exact.  A header without a
  protective entry is a hidden GPT; a protective entry without a header is spoofed; with both,
  further non-empty entries make a hybrid of that many, and a first protective entry that is not
  the rest-of-disk marker and ends more than 2048 sectors before the disk is undersized.
\<close>
theorem gpt_findings:
  assumes "analyse_with_options env r disk_size_bytes opts = Some (Inr a)"
  shows "\<exists>r1 hdr r2 last_lba. read_mbr (reader env) r = Some (Inr (ma_mbr a), r1)
    \<and> gpt_header_present (reader env) r1 (opt_sector_size opts) = Some (hdr, r2)
    \<and> disk_last_lba disk_size_bytes (opt_sector_size opts) = Some last_lba
    \<and> {k \<in> kinds (ma_anomalies a). variant k \<in> {11, 12, 13, 14}} = gpt_kinds (ma_mbr a) last_lba hdr"
  using assms
proof (cases rule: analyse_variants)
  case (1 m r1 hdr r2 f1 f4 f5 last_lba f6 r7 f7 sc7 r8 f8 sc8 f9 f10)
  let ?K = "gpt_kinds m last_lba hdr"
  have "of_variant n (ma_anomalies a) = {k \<in> ?K. variant k = n}" if "n \<in> {11, 12, 13, 14}" for n
    unfolding 1(17) [OF that] by (rule check_gpt_kinds [OF 1(15) that 1(16) [OF that]])
  then have "(\<Union>n \<in> {11, 12, 13, 14}. of_variant n (ma_anomalies a)) =
      (\<Union>n \<in> {11, 12, 13, 14}. {k \<in> ?K. variant k = n})"
    by (intro SUP_cong) auto
  moreover have "variant k \<in> {11, 12, 13, 14}" if "k \<in> ?K" for k
    using that by (auto simp: gpt_kinds_def Let_def split: if_splits option.splits)
  ultimately have "{k \<in> kinds (ma_anomalies a). variant k \<in> {11, 12, 13, 14}} = ?K"
    by (auto simp: of_variant_def)
  with 1(1,3,6,7) show ?thesis by blast
qed

theorem gpt_findings_witness:
  "\<exists>a. analyse_with_options (sample_env cursor_ops) (cursor_new (mbr_to_bytes sample_disk)) 16384
      default_options = Some (Inr a)
    \<and> SpoofedProtectiveMbr \<notin> kinds (ma_anomalies a)"
proof -
  obtain a where a: "analyse_with_options (sample_env cursor_ops)
      (cursor_new (mbr_to_bytes sample_disk)) 16384 default_options = Some (Inr a)" "ma_mbr a = sample_disk"
    by (rule sample_analysis)
  have "find protective (entries sample_disk) = None"
    by (simp add: sample_disk_def sample_slot_def unused_slot_def PROTECTIVE_TYPE_CODE_def)
  then have "SpoofedProtectiveMbr \<notin> gpt_kinds sample_disk l hdr" for l hdr
    by (simp add: gpt_kinds_def)
  moreover have "SpoofedProtectiveMbr \<in> kinds (ma_anomalies a) \<longleftrightarrow>
      SpoofedProtectiveMbr \<in> {k \<in> kinds (ma_anomalies a). variant k \<in> {11, 12, 13, 14}}" by simp
  ultimately show ?thesis using gpt_findings [OF a(1)] a unfolding a(2) by metis
qed

text \<open>
  C24 (functional): the findings on the EBR chain are exact: a cycle is reported exactly when the
  walk met one, excessive depth exactly when the walk was cut at 64 links and then with 64, and
  slack exactly for the links whose bytes 478 to 509 are not all zero, with their entropy.
\<close>
theorem ebr_findings:
  assumes "analyse_with_options env r disk_size_bytes opts = Some (Inr a)"
  shows "(EbrCycle \<in> kinds (ma_anomalies a) \<longleftrightarrow> had_cycle (ma_ebr_chain a))
    \<and> (\<forall>d. EbrExcessiveDepth d \<in> kinds (ma_anomalies a) \<longleftrightarrow> depth_exceeded (ma_ebr_chain a) \<and> d = 64)
    \<and> (\<forall>lba h. EbrSlackData lba h \<in> kinds (ma_anomalies a) \<longleftrightarrow>
         (\<exists>l \<in> set (links (ma_ebr_chain a)). ebr_lba l = lba \<and> (\<exists>b \<in> set (slack l). b \<noteq> 0)
            \<and> shannon (f64 env) (slack l) = Some h))"
  using assms by (rule analyse_ebr_kinds)

theorem ebr_findings_witness:
  "\<exists>a. analyse_with_options (sample_env cursor_ops) (cursor_new (mbr_to_bytes sample_disk)) 16384
      default_options = Some (Inr a)
    \<and> EbrCycle \<notin> kinds (ma_anomalies a)"
proof -
  obtain a where a: "analyse_with_options (sample_env cursor_ops)
      (cursor_new (mbr_to_bytes sample_disk)) 16384 default_options = Some (Inr a)" "ma_mbr a = sample_disk"
    by (rule sample_analysis)
  have "find is_extended (entries sample_disk) = None"
    by (simp add: sample_disk_def sample_slot_def unused_slot_def is_extended_def type_is_extended_def)
  then have "\<not> had_cycle (ma_ebr_chain a)" using analyse_no_extended [OF a(1)] a(2) by simp
  with ebr_findings [OF a(1)] a(1) show ?thesis by blast
qed

text \<open>
  C25 (bounds): an EBR-slack anomaly is always of medium severity, under every
  floating-point arithmetic within \<open>2 ^ -50\<close> of the exact one: the region has 32 bytes, so its entropy
  is at most 5 bits and never exceeds the threshold of 6 above which the severity model would make it
  high.
\<close>
theorem ebr_slack_always_medium:
  assumes "analyse_with_options env r disk_size_bytes opts = Some (Inr a)"
    and "near_exact (f64 env)"
    and "x \<in> set (ma_anomalies a)" and "an_kind x = EbrSlackData lba h"
  shows "an_severity x = Medium"
  using assms(1)
proof (cases rule: analyse_variants)
  case (1 m r1 hdr r2 f1 f4 f5 last_lba f6 r7 f7 sc7 r8 f8 sc8 f9 f10)
  obtain ext :: u32 where ok: "ebr_chain_ok (ucast ext) (opt_sector_size opts) (ma_ebr_chain a)"
    using walk_extended_chain_ok [OF 1(21)] by blast
  have "EbrSlackData lba h \<in> of_variant 17 (ma_anomalies a)"
    using assms(3,4) by (simp add: of_variant_def kinds_def) (metis image_eqI)
  moreover have "of_variant 17 (ma_anomalies a) = of_variant 17 f8" by (rule 1(23)) simp
  moreover have "of_variant 17 f8 = (\<Union>l \<in> set (links (ma_ebr_chain a)). slack_kinds env l)"
    by (rule walk_extended_kinds(3) [OF 1(21) 1(22)])
  ultimately obtain l where l: "l \<in> set (links (ma_ebr_chain a))" "shannon (f64 env) (slack l) = Some h"
    by (auto simp: slack_kinds_def)
  then have "length (slack l) \<le> 32" using ok by (auto simp: ebr_chain_ok_def ebr_entry_ok_def list_all_iff)
  then have "h \<le> HIGH_ENTROPY_THRESHOLD" using l(2) by (rule short_entropy_rounded [OF assms(2)])
  moreover have "an_severity x = kind_severity (EbrSlackData lba h)"
    using emits_genuine [OF analyse_emits [OF assms(1)] assms(3)] assms(4)
    by (metis anomaly.select_convs(1) anomaly_new_def genuine_def)
  ultimately show ?thesis by simp
qed

theorem ebr_slack_always_medium_witness:
  "\<exists>a x lba h. analyse_with_options (sample_env cursor_ops) (cursor_new sample_ext_image) 1024
      default_options = Some (Inr a)
    \<and> x \<in> set (ma_anomalies a) \<and> an_kind x = EbrSlackData lba h \<and> an_severity x = Medium"
proof -
  obtain a x lba h where a: "analyse_with_options (sample_env cursor_ops) (cursor_new sample_ext_image)
      1024 default_options = Some (Inr a)" "x \<in> set (ma_anomalies a)" "an_kind x = EbrSlackData lba h"
    by (rule sample_ext_slack)
  have "near_exact (f64 (sample_env cursor_ops))" by (simp add: sample_env_def near_exact_exact)
  from ebr_slack_always_medium [OF a(1) this a(2,3)] a show ?thesis by blast
qed

text \<open>
  C26 (functional): the findings on the table as a whole are exact: non-zero reserved bytes are
  reported with their values, more than one bootable entry with their number, none although an
  entry is in use as such, and a zero disk signature only under a recognised Windows loader.
\<close>
theorem table_findings:
  assumes "analyse_with_options env r disk_size_bytes opts = Some (Inr a)"
  shows "{k \<in> kinds (ma_anomalies a). variant k \<in> {0, 1, 2, 3}} =
    (let m = ma_mbr a; bootable = length (filter is_bootable (entries m)) in
     (if reserved m = [0, 0] then {} else {NonZeroReserved (reserved m)})
     \<union> (if 1 < bootable then {MultipleBootable bootable} else {})
     \<union> (if bootable = 0 \<and> (\<exists>e \<in> set (entries m). \<not> is_empty e) then {NoBootablePartition} else {})
     \<union> (if disk_serial m = 0 \<and> ma_boot_code_id a \<in> {WindowsVista, Windows7Plus}
        then {ZeroDiskSignature} else {}))" (is "?L = ?R")
  using assms
proof (cases rule: analyse_variants)
  case (1 m r1 hdr r2 f1 f4 f5 last_lba f6 r7 f7 sc7 r8 f8 sc8 f9 f10)
  have active: "0 < length (filter (\<lambda>e. \<not> is_empty e) (entries m)) \<longleftrightarrow> (\<exists>e \<in> set (entries m). \<not> is_empty e)"
    by (auto simp: filter_empty_conv)
  let ?fs = "check_bootable_flags env m (check_reserved env m
     (check_disk_signature env m (ma_boot_code_id a) f1))"
  have kinds: "kinds ?fs = kinds f1 \<union> ?R"
    unfolding 1(3) Let_def check_bootable_flags_def check_reserved_def check_disk_signature_def active
    by (auto split: if_splits)
  have none: "k \<notin> kinds f1" if "variant k \<in> {0, 1, 2, 3}" for k
    using 1(11) [OF that] by (auto simp: of_variant_def)
  have "?L = (\<Union>n \<in> {0, 1, 2, 3}. of_variant n (ma_anomalies a))" by (auto simp: of_variant_def)
  also have "\<dots> = (\<Union>n \<in> {0, 1, 2, 3}. of_variant n ?fs)" using 1(10) by (intro SUP_cong) auto
  also have "\<dots> = {k \<in> kinds f1 \<union> ?R. variant k \<in> {0, 1, 2, 3}}"
    unfolding of_variant_def kinds by blast
  also have "\<dots> = {k \<in> ?R. variant k \<in> {0, 1, 2, 3}}" using none by blast
  also have "\<dots> = ?R" by (auto simp: Let_def split: if_splits)
  finally show ?thesis .
qed

theorem table_findings_witness:
  "\<exists>a. analyse_with_options (sample_env cursor_ops) (cursor_new (mbr_to_bytes sample_disk)) 16384
      default_options = Some (Inr a)
    \<and> NoBootablePartition \<in> kinds (ma_anomalies a)"
proof -
  obtain a where a: "analyse_with_options (sample_env cursor_ops)
      (cursor_new (mbr_to_bytes sample_disk)) 16384 default_options = Some (Inr a)" "ma_mbr a = sample_disk"
    by (rule sample_analysis)
  from table_findings [OF a(1)] have "NoBootablePartition \<in>
      {k \<in> kinds (ma_anomalies a). variant k \<in> {0, 1, 2, 3}}"
    unfolding a(2) by (simp add: sample_disk_def sample_slot_def unused_slot_def is_bootable_def
        is_empty_def type_is_empty_def Let_def)
  with a(1) show ?thesis by blast
qed

text \<open>
  C18 (error): the only errors of an analysis are those of its boot record: it returns an error
  exactly when seeking to, reading or parsing the first 512 bytes returns that error.  Failures of
  every later read degrade to missing findings.
\<close>
theorem analysis_errors_are_boot_record_errors:
  "analyse_with_options env r disk_size_bytes opts = Some (Inl err) \<longleftrightarrow>
     (\<exists>r'. read_mbr (reader env) r = Some (Inl err, r'))"
  by (rule analyse_error_iff)

text \<open>
  C17 (refinement): over a reader of a fixed image, the chain in the report is the chain that
  the image's own next pointers describe from the first extended slot of the table, whatever the
  stages before have read and wherever they left the reader.
\<close>
theorem reported_chain_is_image_chain:
  assumes "image_reader (reader env) pos retries" and "pos r img p"
    and "analyse_with_options env r disk_size_bytes opts = Some (Inr a)"
    and "find is_extended (entries (ma_mbr a)) = Some ext"
  shows "ebr_run img (ucast (lba_start ext)) (opt_sector_size opts) [] (ucast (lba_start ext)) c
    \<longleftrightarrow> c = ma_ebr_chain a"
  using analyse_chain_at [OF assms] ebr_run_deterministic by blast

theorem reported_chain_is_image_chain_witness:
  "\<exists>a. analyse_with_options (sample_env cursor_ops) (cursor_new sample_ext_image) 1024
      default_options = Some (Inr a) \<and> ebr_run sample_ext_image 1 512 [] 1 (ma_ebr_chain a)"
proof -
  obtain a where a: "analyse_with_options (sample_env cursor_ops) (cursor_new sample_ext_image)
      1024 default_options = Some (Inr a)" "ma_mbr a = sample_ext_table"
    by (rule sample_ext_analysis)
  note facts = sample_ext_facts
  from reported_chain_is_image_chain [OF facts(1,2) a(1), unfolded a(2), OF facts(3)] a(1)
  show ?thesis
    by (auto simp: sample_slot_def default_options_def SECTOR_BYTES_def SECTOR_SIZE_def)
qed

text \<open>
  Further fact (functional): over a reader of a fixed image, the GPT check of an analysis sees exactly
  whether a whole sector at byte offset \<open>sector_size\<close> of the image starts with the bytes
  ``EFI PART''; a truncated image counts as having no header.
\<close>
theorem gpt_header_on_image:
  assumes "image_reader ops pos retries" and "pos r img p"
  shows "\<exists>r'. gpt_header_present ops r sector_size =
    Some (unat sector_size + 512 \<le> length img
          \<and> take 8 (drop (unat sector_size) img) = ascii ''EFI PART'', r')"
  using assms by (rule image_reader.gpt_header_present_at)

theorem gpt_header_on_image_witness:
  "\<exists>r'. gpt_header_present cursor_ops (cursor_new sample_ext_image) 512 =
     Some (False, r')"
proof -
  have "take 8 (drop 512 sample_ext_image) = replicate 8 0"
    using length_mbr_to_bytes [OF sample_ext_table_wf] by (simp add: sample_ext_image_def sample_ebr_def)
  moreover have "hd (replicate 8 (0 :: u8)) \<noteq> hd (ascii ''EFI PART'')" by (simp add: ascii_def)
  ultimately have "take 8 (drop 512 sample_ext_image) \<noteq> ascii ''EFI PART''" by metis
  with gpt_header_on_image [OF cur.image_reader_axioms sample_ext_facts(2), of 512] show ?thesis by simp
qed

lemma unat_Min: "finite S \<Longrightarrow> S \<noteq> {} \<Longrightarrow> unat (Min S) = Min (unat ` S)" for S :: "u64 set"
  by (rule mono_Min_commute) (simp_all add: mono_def word_le_nat_alt)

lemma infer_era_first_partition:
  defines "starts m \<equiv> (\<lambda>e. unat (lba_start e)) ` {e \<in> set (entries m). \<not> is_empty e \<and> \<not> is_extended e
       \<and> type_byte (type_code e) \<noteq> 0xEE}"
  shows "infer_era (first_partition_lba m) boot =
    (if starts m \<noteq> {} \<and> Min (starts m) \<noteq> 0 \<and> 2048 dvd Min (starts m) then Modern
     else if starts m \<noteq> {} \<and> Min (starts m) = 63 then LegacyCylinder else era_from_boot_code boot)"
proof -
  define S where "S = (\<lambda>e. ucast (lba_start e) :: u64) ` {e \<in> set (entries m). \<not> is_empty e
       \<and> \<not> is_extended e \<and> type_byte (type_code e) \<noteq> 0xEE}"
  have "unat ` S = starts m" by (simp add: starts_def S_def image_image)
  then have Min: "starts m = {} \<longleftrightarrow> S = {}" "S \<noteq> {} \<Longrightarrow> unat (Min S) = Min (starts m)"
    using unat_Min [of S] by (auto simp: S_def)
  have first: "first_partition_lba m = (if S = {} then None else Some (Min S))"
    by (auto simp: S_def first_partition_lba_def iter_min_eq PROTECTIVE_TYPE_CODE_def filter_empty_conv)
  show ?thesis
  proof (cases "S = {}")
    case True
    with first Min(1) show ?thesis by (simp add: infer_era_def)
  next
    case False
    have "Min S = 0 \<longleftrightarrow> Min (starts m) = 0" "Min S = 63 \<longleftrightarrow> Min (starts m) = 63"
      using Min(2) [OF False] unat_inject [of "Min S" 0] unat_inject [of "Min S" 63] by simp_all
    with False first Min show ?thesis
      by (simp add: infer_era_def classify_alignment_def unat_mod_2048)
  qed
qed

text \<open>
  C40 (functional): the provenance data of a report are those of its boot record: the disk
  serial, the identity of the boot code, and the era, which the lowest start among the non-empty
  slots that are neither extended nor protective decides when it is a positive multiple of 2048
  or 63, and the boot code otherwise.
\<close>
theorem report_provenance:
  assumes "analyse_with_options env r disk_size_bytes opts = Some (Inr a)"
  shows "ma_disk_serial a = disk_serial (ma_mbr a)
    \<and> ma_boot_code_id a = identify (identify_loader env) (boot_code (ma_mbr a))
    \<and> ma_era a =
      (let starts = (\<lambda>e. unat (lba_start e)) ` {e \<in> set (entries (ma_mbr a)). \<not> is_empty e
           \<and> \<not> is_extended e \<and> type_byte (type_code e) \<noteq> 0xEE} in
       if starts \<noteq> {} \<and> Min starts \<noteq> 0 \<and> 2048 dvd Min starts then Modern
       else if starts \<noteq> {} \<and> Min starts = 63 then LegacyCylinder
       else era_from_boot_code (ma_boot_code_id a))"
  using assms
proof (cases rule: analyse_stages)
  case (1 m r1 hdr r2 f1 f4 f5 last_lba f6 r7 f7 sc7 r8 f8 sc8 f9 f10 r11)
  then show ?thesis using infer_era_first_partition [of m "ma_boot_code_id a"] by (simp add: Let_def)
qed

theorem report_provenance_witness:
  "\<exists>a. analyse_with_options (sample_env cursor_ops) (cursor_new (mbr_to_bytes sample_disk)) 16384
      default_options = Some (Inr a) \<and> ma_boot_code_id a = BcAllZeros \<and> ma_era a = EraUnknown"
proof -
  obtain a where a: "analyse_with_options (sample_env cursor_ops)
      (cursor_new (mbr_to_bytes sample_disk)) 16384 default_options = Some (Inr a)" "ma_mbr a = sample_disk"
    by (rule sample_analysis)
  have bid: "identify il (boot_code sample_disk) = BcAllZeros" for il
    by (simp add: identify_AllZeros_iff sample_disk_def)
  have starts: "(\<lambda>e. unat (lba_start e)) ` {e \<in> set (entries sample_disk). \<not> is_empty e
      \<and> \<not> is_extended e \<and> type_byte (type_code e) \<noteq> 0xEE} = {10, 15}"
  proof -
    have "{e \<in> set (entries sample_disk). \<not> is_empty e \<and> \<not> is_extended e
        \<and> type_byte (type_code e) \<noteq> 0xEE} = {sample_slot 10 10, sample_slot 15 10}"
      by (auto simp: sample_disk_def sample_slot_def unused_slot_def is_empty_def type_is_empty_def
          is_extended_def type_is_extended_def)
    then show ?thesis by (simp add: sample_slot_def)
  qed
  from report_provenance [OF a(1)] have "ma_boot_code_id a = BcAllZeros \<and> ma_era a = EraUnknown"
    unfolding a(2) starts Let_def by (simp add: bid era_from_boot_code_def)
  with a(1) show ?thesis by blast
qed

subsection \<open>Discovery order\<close>

text \<open>The phase of the pipeline that records a variant.\<close>

definition phase :: "nat \<Rightarrow> nat" where
  "phase n = (if n \<in> {4, 25, 26, 27, 28, 29} then 0 else if n = 3 then 1 else if n = 0 then 2
     else if n \<in> {1, 2} then 3 else if n = 7 then 4 else if n \<in> {11, 12, 13, 14} then 5
     else if n \<in> {5, 6, 9, 10, 15, 16, 17, 23, 24} then 6 else if n = 8 then 7
     else if n \<in> {18, 19, 20} then 8 else 9)"

definition in_order :: "nat \<Rightarrow> anomaly list \<Rightarrow> bool" where
  "in_order k fs \<longleftrightarrow> sorted (map (\<lambda>x. phase (variant (an_kind x))) fs)
     \<and> (\<forall>x \<in> set fs. phase (variant (an_kind x)) \<le> k)"

lemma in_order_emits:
  assumes "in_order k fs" and "emits env S fs fs'" and "k \<le> k'" and "phase ` S \<subseteq> {k'}"
  shows "in_order k' fs'"
proof -
  obtain new where new: "fs' = fs @ new" "\<forall>x \<in> set new. phase (variant (an_kind x)) = k'"
    using assms(2,4) by (fastforce simp: emits_def)
  have "sorted (map (\<lambda>x. phase (variant (an_kind x))) new)"
    using new(2) by (intro sorted_wrt_mono_rel [OF _ sorted_wrt_true, of _ "(\<le>)"]) auto
  with assms(1,3) new show ?thesis by (fastforce simp: in_order_def sorted_append)
qed

text \<open>
  C27 (invariant): the anomalies of a report stand in the order of the pipeline: boot code,
  disk signature, reserved bytes, bootable flags, duplicates, GPT, partitions and EBR chain, overlaps,
  gaps, contents of gaps.
\<close>
theorem anomalies_in_pipeline_order:
  assumes "analyse_with_options env r disk_size_bytes opts = Some (Inr a)"
  shows "sorted (map (\<lambda>x. phase (variant (an_kind x))) (ma_anomalies a))"
  using assms
proof (cases rule: analyse_stages)
  case (1 m r1 hdr r2 f1 f4 f5 last_lba f6 r7 f7 sc7 r8 f8 sc8 f9 f10 r11)
  let ?f2 = "check_disk_signature env m (ma_boot_code_id a) f1"
  have "in_order 0 []" by (simp add: in_order_def)
  then have "in_order 0 f1" by (rule in_order_emits [OF _ check_boot_code_emits [OF 1(3)]]) (simp_all add: phase_def)
  then have "in_order 1 ?f2" by (rule in_order_emits [OF _ check_disk_signature_emits]) (simp_all add: phase_def)
  then have "in_order 2 (check_reserved env m ?f2)"
    by (rule in_order_emits [OF _ check_reserved_emits]) (simp_all add: phase_def)
  then have "in_order 3 f4"
    unfolding 1(4) by (rule in_order_emits [OF _ check_bootable_flags_emits]) (simp_all add: phase_def)
  then have "in_order 4 f5"
    by (rule in_order_emits [OF _ check_duplicate_entries_emits [OF 1(5)]]) (simp_all add: phase_def)
  then have "in_order 5 f6" by (rule in_order_emits [OF _ check_gpt_emits [OF 1(7)]]) (simp_all add: phase_def)
  then have "in_order 6 f7"
    by (rule in_order_emits [OF _ scan_primary_entries_emits [OF 1(8)]]) (simp_all add: phase_def)
  then have "in_order 6 f8" by (rule in_order_emits [OF _ walk_extended_emits [OF 1(9)]]) (simp_all add: phase_def)
  then have "in_order 7 f9" by (rule in_order_emits [OF _ check_overlaps_emits [OF 1(10)]]) (simp_all add: phase_def)
  then have "in_order 8 f10" by (rule in_order_emits [OF _ check_gaps_emits [OF 1(11)]]) (simp_all add: phase_def)
  then have "in_order 9 (ma_anomalies a)"
    by (rule in_order_emits [OF _ check_gap_content_emits [OF 1(12)]]) (simp_all add: phase_def)
  then show ?thesis by (simp add: in_order_def)
qed

theorem anomalies_in_pipeline_order_witness:
  "\<exists>a. analyse_with_options (sample_env cursor_ops) (cursor_new (mbr_to_bytes sample_disk)) 16384
      default_options = Some (Inr a)
    \<and> sorted (map (\<lambda>x. phase (variant (an_kind x))) (ma_anomalies a))"
proof -
  obtain a where a: "analyse_with_options (sample_env cursor_ops)
      (cursor_new (mbr_to_bytes sample_disk)) 16384 default_options = Some (Inr a)" "ma_mbr a = sample_disk"
    by (rule sample_analysis)
  from a(1) anomalies_in_pipeline_order [OF a(1)] show ?thesis by blast
qed

end
