(* ===== verification/ImageRuns.thy ===== *)
theory ImageRuns
  imports Robust
begin

text \<open>
  The analysis as a function of the image.  Two readers of the same image, which may chop their
  reads differently, interrupt them and stand at different positions, are related; every stage of
  \<open>forensic/src/analyse.rs\<close> maps related readers to equal findings and related readers, so the
  whole report depends on nothing but the bytes.
\<close>

subsection \<open>Related runs\<close>

lemma rel_option_bind:
  assumes "rel_option A x y" and "\<And>a b. A a b \<Longrightarrow> rel_option B (f a) (g b)"
  shows "rel_option B (x \<bind> f) (y \<bind> g)"
  using assms by (cases x; cases y) auto

lemma rel_option_bind_same:
  "(\<And>a. rel_option B (f a) (g a)) \<Longrightarrow> rel_option B (x \<bind> f) (x \<bind> g)"
  by (cases x) auto

definition same_image ::
  "('r \<Rightarrow> u8 list \<Rightarrow> nat \<Rightarrow> bool) \<Rightarrow> ('s \<Rightarrow> u8 list \<Rightarrow> nat \<Rightarrow> bool) \<Rightarrow> u8 list \<Rightarrow> 'r \<Rightarrow> 's \<Rightarrow> bool" where
  "same_image pos pos' img r s \<longleftrightarrow> (\<exists>p. pos r img p) \<and> (\<exists>q. pos' s img q)"

lemma same_imageI: "pos r img p \<Longrightarrow> pos' s img q \<Longrightarrow> same_image pos pos' img r s"
  by (auto simp: same_image_def)

text \<open>The same environment over another reader, with that reader's GPT analysis.\<close>

definition retarget ::
  "'s reader_ops \<Rightarrow> ('s \<Rightarrow> u64 \<Rightarrow> 'gpt option option) \<Rightarrow> ('r, 'vs, 'enc, 'gpt) env
     \<Rightarrow> ('s, 'vs, 'enc, 'gpt) env" where
  "retarget ops gpt env = \<lparr>reader = ops, identify_loader = identify_loader env,
     detect_name = detect_name env, type_name = type_name env, bootkit_scan = bootkit_scan env,
     volume_serial_of = volume_serial_of env, detect_encryption = detect_encryption env,
     gpt_analyse = gpt, f64 = f64 env\<rparr>"

lemma retarget_sel [simp]:
  "reader (retarget ops gpt env) = ops"
  "identify_loader (retarget ops gpt env) = identify_loader env"
  "detect_name (retarget ops gpt env) = detect_name env"
  "type_name (retarget ops gpt env) = type_name env"
  "bootkit_scan (retarget ops gpt env) = bootkit_scan env"
  "volume_serial_of (retarget ops gpt env) = volume_serial_of env"
  "detect_encryption (retarget ops gpt env) = detect_encryption env"
  "gpt_analyse (retarget ops gpt env) = gpt"
  "f64 (retarget ops gpt env) = f64 env"
  by (simp_all add: retarget_def)

text \<open>The checks that do not read are the same functions in both environments.\<close>

lemma record_finding_retarget [simp]:
  "record_finding (retarget ops gpt env) = record_finding env"
  by (simp add: record_finding_def fun_eq_iff)

lemma boot_record_checks_retarget [simp]:
  "check_boot_code (retarget ops gpt env) = check_boot_code env"
  "check_disk_signature (retarget ops gpt env) = check_disk_signature env"
  "check_reserved (retarget ops gpt env) = check_reserved env"
  "check_bootable_flags (retarget ops gpt env) = check_bootable_flags env"
  "check_gpt (retarget ops gpt env) = check_gpt env"
  "check_chs_lba (retarget ops gpt env) = check_chs_lba env"
  "check_gaps (retarget ops gpt env) = check_gaps env"
  unfolding fun_eq_iff check_boot_code_def check_disk_signature_def check_reserved_def
    check_bootable_flags_def check_gpt_def check_chs_lba_def check_gaps_def
    record_finding_retarget retarget_sel
  by simp_all

lemma duplicates_of_retarget [simp]:
  "duplicates_of (retarget ops gpt env) es a bs = duplicates_of env es a bs"
  by (induction bs) (simp_all add: fun_eq_iff cong: if_cong Option.bind_cong)

lemma duplicates_loop_retarget [simp]:
  "duplicates_loop (retarget ops gpt env) es as = duplicates_loop env es as"
  by (induction as) (simp_all add: fun_eq_iff cong: if_cong Option.bind_cong)

lemma overlap_pairs_retarget [simp]:
  "overlap_pairs (retarget ops gpt env) ps = overlap_pairs env ps"
  by (induction ps) (simp_all add: fun_eq_iff cong: if_cong Option.bind_cong)

lemma layout_checks_retarget [simp]:
  "check_duplicate_entries (retarget ops gpt env) = check_duplicate_entries env"
  "check_overlaps (retarget ops gpt env) = check_overlaps env"
  by (simp_all add: fun_eq_iff check_duplicate_entries_def check_overlaps_def)

subsection \<open>Fingerprint windows of an image\<close>

context image_reader
begin

lemma fingerprint_loop_at:
  "pos r img p \<Longrightarrow> \<exists>r' q. fingerprint_loop ops r n acc = Some (Inr (acc @ take n (drop p img)), r')
     \<and> pos r' img q"
proof (induction n r acc arbitrary: p rule: retry_induct)
  case (step n r acc)
  show ?case
  proof (cases "n = 0")
    case True
    with step.prems show ?thesis by (auto simp: fingerprint_loop.simps)
  next
    case False
    then have "0 < n" by simp
    with step.prems show ?thesis
    proof (cases rule: read_cases)
      case (again r')
      with step.IH [of n r' p acc] False show ?thesis by (subst fingerprint_loop.simps) simp
    next
      case (eof r')
      with False show ?thesis by (subst fingerprint_loop.simps) auto
    next
      case (bytes k r')
      then have len: "length (take k (drop p img)) = k" and ne: "take k (drop p img) \<noteq> []"
        and all: "take n (take k (drop p img)) = take k (drop p img)" by (auto simp: min_def)
      have "n - k < n" using bytes(2) False by simp
      with step.IH [of "n - k" r' "p + k" "acc @ take k (drop p img)"] bytes(5) obtain r'' q where
        "fingerprint_loop ops r' (n - k) (acc @ take k (drop p img)) =
          Some (Inr (acc @ take k (drop p img) @ take (n - k) (drop (p + k) img)), r'')" "pos r'' img q"
        by (simp only: append_assoc) blast
      with bytes False len ne all take_split [OF bytes(3), of p img] show ?thesis
        by (subst fingerprint_loop.simps) auto
    qed
  qed
qed

lemma read_fingerprint_at:
  assumes "pos r img p"
  obtains r' q where "read_fingerprint ops r off n = Some (Inr (take n (drop (unat off) img)), r')"
    "pos r' img q"
proof -
  obtain r1 where sk: "seek_start ops r off = (Inr off, r1)" "pos r1 img (unat off)"
    using seek_at [OF assms, of off] by auto
  from fingerprint_loop_at [OF this(2), of n "[]"] sk that show thesis
    by (auto simp: read_fingerprint_def)
qed

lemma read_first_sector_at:
  assumes "pos r img p"
  obtains r' q where "read_first_sector ops r off =
      Some (if unat off + 512 \<le> length img then Inr (take 512 (drop (unat off) img))
            else Inl (Io UnexpectedEof), r')" "pos r' img q"
proof -
  obtain r1 where sk: "seek_start ops r off = (Inr off, r1)" "pos r1 img (unat off)"
    using seek_at [OF assms, of off] by auto
  obtain r2 q where "read_exact ops r1 512 = Some (if unat off + 512 \<le> length img
      then Inr (take 512 (drop (unat off) img)) else Inl UnexpectedEof, r2)" "pos r2 img q"
    by (rule read_exact_at [OF sk(2), of 512]) simp
  with sk(1) that show thesis by (auto simp: read_first_sector_def SECTOR_SIZE_def)
qed

end

subsection \<open>Two readers of one image\<close>

locale reader_pair =
  one: image_reader ops pos retries + two: image_reader ops' pos' retries'
  for ops :: "'r reader_ops" and pos and retries and ops' :: "'s reader_ops" and pos' and retries' +
  fixes img :: "u8 list"
begin

lemma seek_read_pair:
  assumes "same_image pos pos' img r s"
  obtains r1 s1 x r2 s2 where
    "seek_start ops r off = (Inr off, r1)" "seek_start ops' s off = (Inr off, s1)"
    "read_exact ops r1 n = Some (x, r2)" "read_exact ops' s1 n = Some (x, s2)"
    "same_image pos pos' img r2 s2"
proof -
  obtain p q where pq: "pos r img p" "pos' s img q" using assms by (auto simp: same_image_def)
  obtain r1 where r1: "seek_start ops r off = (Inr off, r1)" "pos r1 img (unat off)"
    using one.seek_at [OF pq(1), of off] by auto
  obtain s1 where s1: "seek_start ops' s off = (Inr off, s1)" "pos' s1 img (unat off)"
    using two.seek_at [OF pq(2), of off] by auto
  let ?x = "if unat off + n \<le> length img \<or> n = 0 then Inr (take n (drop (unat off) img))
            else Inl UnexpectedEof"
  obtain r2 p2 where "read_exact ops r1 n = Some (?x, r2)" "pos r2 img p2"
    by (rule one.read_exact_at [OF r1(2)])
  moreover obtain s2 q2 where "read_exact ops' s1 n = Some (?x, s2)" "pos' s2 img q2"
    by (rule two.read_exact_at [OF s1(2)])
  ultimately show thesis using r1(1) s1(1) that same_imageI by metis
qed

lemma read_first_sector_pair:
  assumes "same_image pos pos' img r s"
  shows "rel_option (rel_prod (=) (same_image pos pos' img))
    (read_first_sector ops r off) (read_first_sector ops' s off)"
  by (rule seek_read_pair [OF assms, of off SECTOR_SIZE])
    (auto simp: read_first_sector_def split: sum.splits)

lemma read_fingerprint_pair:
  assumes "same_image pos pos' img r s"
  shows "rel_option (rel_prod (=) (same_image pos pos' img))
    (read_fingerprint ops r off n) (read_fingerprint ops' s off n)"
proof -
  obtain p q where pq: "pos r img p" "pos' s img q" using assms by (auto simp: same_image_def)
  obtain r' p' where "read_fingerprint ops r off n = Some (Inr (take n (drop (unat off) img)), r')"
    "pos r' img p'" by (rule one.read_fingerprint_at [OF pq(1)])
  moreover obtain s' q' where
    "read_fingerprint ops' s off n = Some (Inr (take n (drop (unat off) img)), s')"
    "pos' s' img q'" by (rule two.read_fingerprint_at [OF pq(2)])
  ultimately show ?thesis using same_imageI [of pos r' img p' pos' s' q'] by simp
qed

lemma read_mbr_pair:
  assumes "same_image pos pos' img r s"
  shows "rel_option (rel_prod (=) (same_image pos pos' img)) (read_mbr ops r) (read_mbr ops' s)"
  by (rule seek_read_pair [OF assms, of 0 SECTOR_SIZE])
    (auto simp: read_mbr_def parse_mbr_sector_eq split: sum.splits)

lemma gpt_header_present_pair:
  assumes "same_image pos pos' img r s"
  shows "rel_option (rel_prod (=) (same_image pos pos' img))
    (gpt_header_present ops r ss) (gpt_header_present ops' s ss)"
  unfolding gpt_header_present_def
  by (rule rel_option_bind [OF read_first_sector_pair [OF assms]]) (auto split: sum.splits)

lemma ebr_iteration_pair:
  assumes "same_image pos pos' img r s"
  shows "rel_option (rel_prod (=) (same_image pos pos' img))
    (ebr_iteration ops ext ss r es v n) (ebr_iteration ops' ext ss s es v n)"
proof (cases "checked_mul n ss")
  case None
  with assms show ?thesis by (simp add: ebr_iteration_def)
next
  case (Some off)
  obtain r1 s1 x r2 s2 where
    io: "seek_start ops r off = (Inr off, r1)" "seek_start ops' s off = (Inr off, s1)"
    "read_exact ops r1 SECTOR_LEN = Some (x, r2)" "read_exact ops' s1 SECTOR_LEN = Some (x, s2)"
    and same: "same_image pos pos' img r2 s2"
    by (rule seek_read_pair [OF assms])
  show ?thesis
    using assms same
    by (auto simp: ebr_iteration_def Some io Let_def split: sum.splits option.splits
        intro!: rel_option_bind_same)
qed

lemma walk_loop_pair:
  assumes "same_image pos pos' img r s"
  shows "rel_option (rel_prod (=) (same_image pos pos' img))
    (walk_loop ops ext ss r es v n) (walk_loop ops' ext ss s es v n)"
  using assms
proof (induction "MAX_DEPTH - length es" arbitrary: r s es v n rule: less_induct)
  case less
  note step = ebr_iteration_pair [OF less.prems, of ext ss es v n]
  show ?case
  proof (cases "ebr_iteration ops ext ss r es v n")
    case None
    with step show ?thesis by (simp add: walk_loop.simps)
  next
    case (Some z)
    with step obtain o1 r' s' where it: "ebr_iteration ops ext ss r es v n = Some (o1, r')"
      "ebr_iteration ops' ext ss s es v n = Some (o1, s')" and same: "same_image pos pos' img r' s'"
      by (cases z) (auto simp: option_rel_Some1 rel_prod_sel)
    show ?thesis
    proof (cases o1)
      case (Link e m)
      with ebr_iteration_Link_depth it(1) have "MAX_DEPTH - length (es @ [e]) < MAX_DEPTH - length es"
        by fastforce
      from less.hyps [OF this same, of "insert n v" m] it Link show ?thesis
        by (simp add: walk_loop.simps [of _ _ _ r] walk_loop.simps [of _ _ _ s])
    qed (use it same in \<open>simp_all add: walk_loop.simps\<close>)
  qed
qed

text \<open>The stages of the pipeline, in an environment over the first reader and its copy over the second.\<close>

lemma detect_and_check_fs_pair:
  assumes "same_image pos pos' img r s" and "reader env = ops"
  shows "rel_option (rel_prod (=) (rel_prod (same_image pos pos' img) (=)))
    (detect_and_check_fs env r i off c ds fs) (detect_and_check_fs (retarget ops' gpt env) s i off c ds fs)"
proof -
  have "rel_option (rel_prod (=) (same_image pos pos' img))
      (detect_partition_fs env r off ds) (detect_partition_fs (retarget ops' gpt env) s off ds)"
    unfolding detect_partition_fs_def retarget_sel assms(2)
    by (auto simp: assms(1) split: sum.splits
        intro!: rel_option_bind [OF read_fingerprint_pair [OF assms(1)]] rel_option_bind_same)
  then show ?thesis
    unfolding detect_and_check_fs_def record_finding_retarget
    by (rule rel_option_bind) auto
qed

lemma partition_volume_pair:
  assumes "same_image pos pos' img r s" and "reader env = ops"
  shows "rel_option (rel_prod (=) (same_image pos pos' img))
    (partition_volume env r off ds) (partition_volume (retarget ops' gpt env) s off ds)"
  unfolding partition_volume_def retarget_sel assms(2)
  by (auto simp: assms(1) split: sum.splits
      intro!: rel_option_bind [OF read_fingerprint_pair [OF assms(1)]])

lemma check_vbr_pair:
  assumes "same_image pos pos' img r s" and "reader env = ops"
  shows "rel_option (rel_prod (same_image pos pos' img) (=))
    (check_vbr env r i st off ds fs) (check_vbr (retarget ops' gpt env) s i st off ds fs)"
  unfolding check_vbr_def retarget_sel assms(2) record_finding_retarget
  by (auto simp: assms(1) split: sum.splits option.splits
      intro!: rel_option_bind [OF read_first_sector_pair [OF assms(1)]] rel_option_bind_same)

lemma partition_stages_pair:
  assumes "same_image pos pos' img r s" and "reader env = ops"
  shows "rel_option (rel_prod (same_image pos pos' img) (=))
    (do {
       (r, fs) \<leftarrow> check_vbr env r i st off ds fs;
       (d, r, fs) \<leftarrow> detect_and_check_fs env r i off c ds fs;
       ((v, e), r) \<leftarrow> partition_volume env r off ds;
       Some (r, fs, F d v e)
     })
    (do {
       (r, fs) \<leftarrow> check_vbr (retarget ops' gpt env) s i st off ds fs;
       (d, r, fs) \<leftarrow> detect_and_check_fs (retarget ops' gpt env) r i off c ds fs;
       ((v, e), r) \<leftarrow> partition_volume (retarget ops' gpt env) r off ds;
       Some (r, fs, F d v e)
     })"
  by (rule rel_option_bind [OF check_vbr_pair [OF assms]])
    (auto intro!: rel_option_bind [OF detect_and_check_fs_pair [OF _ assms(2)]]
      rel_option_bind [OF partition_volume_pair [OF _ assms(2)]])

lemma scan_entry_pair:
  assumes "same_image pos pos' img r s" and "reader env = ops"
  shows "rel_option (rel_prod (same_image pos pos' img) (=))
    (scan_entry env ds la ss i e (r, fs, sc)) (scan_entry (retarget ops' gpt env) ds la ss i e (s, fs, sc))"
  unfolding scan_entry_def record_finding_retarget boot_record_checks_retarget Let_def prod.case
  by (intro rel_option_bind_same)
    (auto simp: assms(1) intro!: rel_option_bind_same partition_stages_pair [OF assms])

lemma scan_logical_pair:
  assumes "same_image pos pos' img r s" and "reader env = ops"
  shows "rel_option (rel_prod (same_image pos pos' img) (=))
    (scan_logical env ds ss l (r, fs, sc)) (scan_logical (retarget ops' gpt env) ds ss l (s, fs, sc))"
  unfolding scan_logical_def record_finding_retarget retarget_sel Let_def prod.case
  by (intro rel_option_bind_same partition_stages_pair [OF assms])

lemma scan_loop_pair:
  assumes "same_image pos pos' img r s" and "reader env = ops"
  shows "rel_option (rel_prod (same_image pos pos' img) (=))
    (scan_loop env ds la ss es (r, fs, sc)) (scan_loop (retarget ops' gpt env) ds la ss es (s, fs, sc))"
  using assms(1)
proof (induction es arbitrary: r s fs sc)
  case (Cons x es)
  show ?case
    by (cases x) (auto intro!: rel_option_bind [OF scan_entry_pair [OF Cons.prems assms(2)]] Cons.IH)
qed simp

lemma logical_loop_pair:
  assumes "same_image pos pos' img r s" and "reader env = ops"
  shows "rel_option (rel_prod (same_image pos pos' img) (=))
    (logical_loop env ds ss ls (r, fs, sc)) (logical_loop (retarget ops' gpt env) ds ss ls (s, fs, sc))"
  using assms(1)
proof (induction ls arbitrary: r s fs sc)
  case (Cons l ls)
  show ?case
    by (auto intro!: rel_option_bind [OF scan_logical_pair [OF Cons.prems assms(2)]] Cons.IH)
qed simp

lemma walk_extended_pair:
  assumes "same_image pos pos' img r s" and "reader env = ops"
  shows "rel_option (rel_prod (=) (rel_prod (same_image pos pos' img) (=)))
    (walk_extended env r m sc ds ss fs) (walk_extended (retarget ops' gpt env) s m sc ds ss fs)"
  unfolding walk_extended_def walk_ebr_chain_def record_finding_retarget retarget_sel assms(2) Let_def
  by (auto simp: assms(1) split: option.splits sum.splits
      intro!: rel_option_bind [OF walk_loop_pair [OF assms(1)]]
        rel_option_bind [OF logical_loop_pair [OF _ assms(2)]])

lemma check_gap_content_pair:
  assumes "same_image pos pos' img r s" and "reader env = ops"
  shows "rel_option (rel_prod (same_image pos pos' img) (=))
    (check_gap_content env ss r gs fs) (check_gap_content (retarget ops' gpt env) ss s gs fs)"
  using assms(1)
proof (induction gs arbitrary: r s fs)
  case (Cons g gs)
  let ?off = "lba_to_byte (gap_lba_start g) ss"
    and ?n = "unat (min (gap_byte_size g) (of_nat GAP_SAMPLE_BYTES))"
  obtain r1 s1 x r2 s2 where
    io: "seek_start ops r ?off = (Inr ?off, r1)" "seek_start ops' s ?off = (Inr ?off, s1)"
    "read_exact ops r1 ?n = Some (x, r2)" "read_exact ops' s1 ?n = Some (x, s2)"
    and same: "same_image pos pos' img r2 s2"
    by (rule seek_read_pair [OF Cons.prems])
  show ?case
    unfolding check_gap_content.simps Let_def retarget_sel record_finding_retarget assms(2) io prod.case
    by (auto simp: io split: sum.splits intro!: rel_option_bind_same Cons.IH Cons.prems same)
qed simp

lemma analyse_pair:
  assumes "same_image pos pos' img r s" and "reader env = ops"
    and gpt: "\<And>r s. same_image pos pos' img r s \<Longrightarrow> gpt s ds = gpt_analyse env r ds"
  shows "rel_option (=) (analyse_with_options env r ds opts)
    (analyse_with_options (retarget ops' gpt env) s ds opts)"
  unfolding analyse_with_options_def scan_primary_entries_def boot_record_checks_retarget
    layout_checks_retarget retarget_sel assms(2) Let_def
  by (auto split: sum.splits simp: gpt option.rel_refl
      intro!: rel_option_bind [OF read_mbr_pair [OF assms(1)]]
        rel_option_bind [OF gpt_header_present_pair] rel_option_bind_same
        rel_option_bind [OF scan_loop_pair [OF _ assms(2)]]
        rel_option_bind [OF walk_extended_pair [OF _ assms(2)]]
        rel_option_bind [OF check_gap_content_pair [OF _ assms(2)]])

end

subsection \<open>The mock disk of the tests\<close>

text \<open>
  The in-memory disk of \<open>forensic/tests/mbr_tests.rs\<close>: it keeps its position as a \<open>usize\<close> and may
  be told to refuse seeks from some offset on.  With no such offset it reads one image.
\<close>

record mock_disk =
  md_data :: "u8 list"
  md_pos :: nat
  fail_seek_at :: "u64 option"

definition mock_read :: "mock_disk \<Rightarrow> nat \<Rightarrow> (io_error + u8 list) \<times> mock_disk" where
  "mock_read d n =
     (let start = min (md_pos d) (length (md_data d)); stop = min (start + n) (length (md_data d));
          k = stop - start
      in (Inr (take k (drop start (md_data d))), d\<lparr>md_pos := md_pos d + k\<rparr>))"

definition mock_seek :: "mock_disk \<Rightarrow> u64 \<Rightarrow> (io_error + u64) \<times> mock_disk" where
  "mock_seek d target =
     (if (case fail_seek_at d of Some t \<Rightarrow> t \<le> target | None \<Rightarrow> False) then (Inl OtherIo, d)
      else (Inr target, d\<lparr>md_pos := unat target\<rparr>))"

definition mock_ops :: "mock_disk reader_ops" where
  "mock_ops = \<lparr>seek_start = mock_seek, read_some = mock_read\<rparr>"

definition mock_at :: "mock_disk \<Rightarrow> u8 list \<Rightarrow> nat \<Rightarrow> bool" where
  "mock_at d img p \<longleftrightarrow> md_data d = img \<and> md_pos d = p \<and> fail_seek_at d = None"

interpretation mock: image_reader mock_ops mock_at "\<lambda>_. 0"
proof
  fix r img p off
  assume "mock_at r img p"
  then show "\<exists>r'. seek_start mock_ops r off = (Inr off, r') \<and> mock_at r' img (unat off)"
    by (auto simp: mock_ops_def mock_seek_def mock_at_def)
next
  fix r :: mock_disk and img p n
  assume "mock_at r img p"
  then have at: "md_data r = img" "md_pos r = p" "fail_seek_at r = None" by (simp_all add: mock_at_def)
  define k where "k = min n (length img - p)"
  have "min (min p (length img) + n) (length img) - min p (length img) = k" by (auto simp: k_def)
  moreover have "take k (drop (min p (length img)) img) = take k (drop p img)" by (auto simp: min_def)
  ultimately have "read_some mock_ops r n = (Inr (take k (drop p img)), r\<lparr>md_pos := p + k\<rparr>)"
    by (simp add: mock_ops_def mock_read_def at Let_def)
  then show "(\<exists>r'. read_some mock_ops r n = (Inl Interrupted, r') \<and> mock_at r' img p \<and> (0 :: nat) < 0)
    \<or> (\<exists>k r'. read_some mock_ops r n = (Inr (take k (drop p img)), r') \<and> k \<le> n
      \<and> p + k \<le> max p (length img) \<and> (0 < n \<longrightarrow> p < length img \<longrightarrow> 0 < k) \<and> mock_at r' img (p + k))"
    by (intro disjI2 exI [of _ k] exI [of _ "r\<lparr>md_pos := p + k\<rparr>"]) (auto simp: k_def mock_at_def at)
qed

interpretation cursor_mock: reader_pair cursor_ops cursor_at "\<lambda>_. 0" mock_ops mock_at "\<lambda>_. 0" img for img ..

interpretation cursor_interrupting:
  reader_pair cursor_ops cursor_at "\<lambda>_. 0" faulty_ops faulty_at interrupt_reads img for img ..

lemma sample_disk_reader:
  "image_reader (reader (sample_env cursor_ops)) cursor_at (\<lambda>_. 0)"
  "cursor_at (cursor_new (mbr_to_bytes sample_disk)) (mbr_to_bytes sample_disk) 0"
  "length (mbr_to_bytes sample_disk) = 512"
proof -
  show len: "length (mbr_to_bytes sample_disk) = 512" by (rule length_mbr_to_bytes [OF sample_disk_wf])
  show "cursor_at (cursor_new (mbr_to_bytes sample_disk)) (mbr_to_bytes sample_disk) 0"
    by (rule cursor_new_at) (simp add: len)
qed (use cur.image_reader_axioms in simp)

subsection \<open>Properties\<close>

text \<open>
  C1 (equivalence): the report is a function of the image.  Two readers of the same bytes, at
  whatever positions, however they split their reads and however often (but finitely often in a row)
  they are interrupted, give the very same result: the same
  error, or the same partitions, chain, gaps and anomalies in the same order.  The GPT analysis of
  the other crate is assumed to depend on nothing but the image as well.
\<close>
theorem report_depends_only_on_image:
  assumes "image_reader (reader env) pos retries" and "pos r img p"
    and "image_reader ops' pos' retries'" and "pos' s img q"
    and "\<forall>r s. same_image pos pos' img r s \<longrightarrow>
      gpt s disk_size_bytes = gpt_analyse env r disk_size_bytes"
  shows "analyse_with_options (retarget ops' gpt env) s disk_size_bytes opts =
    analyse_with_options env r disk_size_bytes opts"
proof -
  have "reader_pair (reader env) pos retries ops' pos' retries'" using assms(1,3) by (rule reader_pair.intro)
  moreover have "same_image pos pos' img r s" using assms(2,4) by (auto simp: same_image_def)
  ultimately have "rel_option (=) (analyse_with_options env r disk_size_bytes opts)
      (analyse_with_options (retarget ops' gpt env) s disk_size_bytes opts)"
    by (rule reader_pair.analyse_pair) (use assms(5) in simp_all)
  then show ?thesis by (simp add: option.rel_eq)
qed

theorem report_depends_only_on_image_witness:
  "analyse_with_options (retarget mock_ops (\<lambda>_ _. Some None) (sample_env cursor_ops))
     \<lparr>md_data = sample_mbr, md_pos = 7, fail_seek_at = None\<rparr> 512 default_options =
   analyse_with_options (sample_env cursor_ops) (cursor_new sample_mbr) 512 default_options"
proof (rule report_depends_only_on_image)
  show "image_reader (reader (sample_env cursor_ops)) cursor_at (\<lambda>_. 0)"
    using cur.image_reader_axioms by (simp add: sample_env_def)
  show "cursor_at (cursor_new sample_mbr) sample_mbr 0"
    by (rule cursor_new_at) (simp add: sample_mbr_def)
  show "image_reader mock_ops mock_at (\<lambda>_. 0)" by (rule mock.image_reader_axioms)
  show "mock_at \<lparr>md_data = sample_mbr, md_pos = 7, fail_seek_at = None\<rparr> sample_mbr 7"
    by (simp add: mock_at_def)
qed (simp add: sample_env_def)

text \<open>
  C14 (liveness): interrupted reads are retried until they succeed.  However many of its
  first reads an in-memory disk answers with \<open>Interrupted\<close>, the analysis returns, and it returns the
  very result of the analysis of the same bytes without interruptions.
\<close>
theorem interrupted_reads_are_retried:
  assumes "reader env = cursor_ops" and "length data < 2 ^ 63"
    and "0 < opt_sector_size opts" and "unat (opt_sector_size opts) \<le> 2 ^ 30"
    and "\<forall>r. gpt_analyse env r disk_size_bytes \<noteq> None"
    and "\<forall>r s. same_image cursor_at faulty_at data r s \<longrightarrow>
      gpt s disk_size_bytes = gpt_analyse env r disk_size_bytes"
  shows "\<exists>res. analyse_with_options env (cursor_new data) disk_size_bytes opts = Some res
    \<and> (\<forall>k. analyse_with_options (retarget faulty_ops gpt env)
           (faulty_new data\<lparr>interrupt_reads := k\<rparr>) disk_size_bytes opts = Some res)"
proof -
  obtain res where res: "analyse_with_options env (cursor_new data) disk_size_bytes opts = Some res"
    using cursor_analysis_returns [OF assms(1,2) _ assms(3,4)] assms(5) by blast
  have "rel_option (=) (analyse_with_options env (cursor_new data) disk_size_bytes opts)
      (analyse_with_options (retarget faulty_ops gpt env)
        (faulty_new data\<lparr>interrupt_reads := k\<rparr>) disk_size_bytes opts)" for k
    using same_imageI [of cursor_at _ data _ faulty_at, OF cursor_new_at faulty_new_at] assms
    by (intro cursor_interrupting.analyse_pair) auto
  with res show ?thesis by (auto simp: option.rel_eq)
qed

theorem interrupted_reads_are_retried_witness:
  "\<exists>res. analyse_with_options (sample_env cursor_ops) (cursor_new sample_mbr) 512 default_options = Some res
    \<and> (\<forall>k. analyse_with_options (retarget faulty_ops (\<lambda>_ _. Some None) (sample_env cursor_ops))
           (faulty_new sample_mbr\<lparr>interrupt_reads := k\<rparr>) 512 default_options = Some res)"
proof (rule interrupted_reads_are_retried)
  show "length sample_mbr < 2 ^ 63" by (simp add: sample_mbr_def)
qed (use default_sector_size in simp_all)

end
