(* ===== verification/Content.thy ===== *)
theory Content
  imports Report ImageRuns
begin

text \<open>
  What an analysis says about the contents of a disk, over a reader of a fixed image: the
  fingerprint, serial and encryption of every partition, the anomalies of its boot sector and
  filesystem, and the anomalies of the sampled gaps, each as a function of the image's bytes.
\<close>

subsection \<open>Contents of a partition\<close>

definition unreachable :: "u64 \<Rightarrow> u64 \<Rightarrow> bool" where
  "unreachable ds off \<longleftrightarrow> ds \<noteq> 0 \<and> ds \<le> off"

definition fingerprint_window :: "u8 list \<Rightarrow> u64 \<Rightarrow> u8 list" where
  "fingerprint_window img off = take 65608 (drop (unat off) img)"

definition image_bpb :: "u8 list \<Rightarrow> u64 \<Rightarrow> u64 \<Rightarrow> bpb option" where
  "image_bpb img ds off =
     (if unreachable ds off \<or> length img < unat off + 512 then None
      else the (parse_bpb (take 512 (drop (unat off) img))))"

definition summary_content_ok ::
  "('r, 'vs, 'enc, 'gpt) env \<Rightarrow> u8 list \<Rightarrow> u64 \<Rightarrow> ('vs, 'enc) partition_summary \<Rightarrow> bool" where
  "summary_content_ok env img ds p \<longleftrightarrow>
     (if unreachable ds (ps_byte_offset p)
      then ps_detected_fs p = None \<and> ps_volume_serial p = None \<and> ps_encryption p = None
      else let w = fingerprint_window img (ps_byte_offset p) in
        ps_detected_fs p = detect (detect_name env) w
        \<and> ps_volume_serial p = volume_serial_of env w \<and> ps_encryption p = detect_encryption env w)"

definition vbr_kinds :: "u8 list \<Rightarrow> u64 \<Rightarrow> ('vs, 'enc) partition_summary \<Rightarrow> anomaly_kind set" where
  "vbr_kinds img ds p = {VbrHiddenSectorsMismatch (ps_index p) (hidden_sectors b) (ps_lba_start p) |b.
     image_bpb img ds (ps_byte_offset p) = Some b \<and> hidden_sectors b \<noteq> 0
     \<and> ucast (hidden_sectors b) \<noteq> ps_lba_start p}"

definition fs_kinds :: "('vs, 'enc) partition_summary \<Rightarrow> anomaly_kind set" where
  "fs_kinds p = {SignatureMismatch (ps_index p) (ps_declared_type p) d |d.
     ps_detected_fs p = Some d \<and> type_conflicts (family (ps_declared_type p)) d}"

definition content_inv ::
  "('r, 'vs, 'enc, 'gpt) env \<Rightarrow> u8 list \<Rightarrow> u64 \<Rightarrow> anomaly list \<Rightarrow> ('vs, 'enc) partition_summary list \<Rightarrow> bool"
  where
  "content_inv env img ds fs ps \<longleftrightarrow> (\<forall>p \<in> set ps. summary_content_ok env img ds p)
     \<and> of_variant 24 fs = (\<Union>p \<in> set ps. vbr_kinds img ds p)
     \<and> of_variant 23 fs = (\<Union>p \<in> set ps. fs_kinds p)"

lemma content_inv_cong:
  assumes "content_inv env img ds fs ps" and "emits env S fs fs'" and "24 \<notin> S" "23 \<notin> S"
  shows "content_inv env img ds fs' ps"
  using assms(1) emits_of_variant [OF assms(2,3)] emits_of_variant [OF assms(2,4)]
  by (simp add: content_inv_def)

context image_reader
begin

lemma check_vbr_at:
  assumes "pos r img p" and "reader env = ops"
    and "check_vbr env r (ps_index s) (ps_lba_start s) (ps_byte_offset s) ds fs = Some (r', fs')"
  shows "\<exists>q. pos r' img q" and "of_variant 24 fs' = of_variant 24 fs \<union> vbr_kinds img ds s"
    and "of_variant 23 fs' = of_variant 23 fs"
proof -
  let ?off = "ps_byte_offset s"
  have "(\<exists>q. pos r' img q) \<and> of_variant 24 fs' = of_variant 24 fs \<union> vbr_kinds img ds s"
  proof (cases "unreachable ds ?off")
    case True
    with assms show ?thesis by (auto simp: check_vbr_def unreachable_def vbr_kinds_def image_bpb_def)
  next
    case False
    obtain r1 q where rd: "read_first_sector ops r ?off =
        Some (if unat ?off + 512 \<le> length img then Inr (take 512 (drop (unat ?off) img))
              else Inl (Io UnexpectedEof), r1)" "pos r1 img q"
      by (rule read_first_sector_at [OF assms(1)])
    have body: "check_vbr env r (ps_index s) (ps_lba_start s) ?off ds fs =
        (case image_bpb img ds ?off of None \<Rightarrow> Some (r1, fs)
         | Some bpb \<Rightarrow> Some (r1, if hidden_sectors bpb \<noteq> 0 \<and> ucast (hidden_sectors bpb) \<noteq> ps_lba_start s
             then record_finding env (VbrHiddenSectorsMismatch (ps_index s) (hidden_sectors bpb) (ps_lba_start s)) ?off fs
             else fs))"
      using False rd(1)
      by (auto simp: check_vbr_def unreachable_def assms(2) image_bpb_def parse_bpb_eq split: option.splits)
    show ?thesis
      using assms(3) rd(2) unfolding body
      by (auto simp: vbr_kinds_def split: option.splits if_splits)
  qed
  then show "\<exists>q. pos r' img q" "of_variant 24 fs' = of_variant 24 fs \<union> vbr_kinds img ds s" by blast+
  show "of_variant 23 fs' = of_variant 23 fs"
    by (rule emits_of_variant [OF check_vbr_emits [OF assms(3)]]) simp
qed

lemma detect_and_check_fs_at:
  assumes "pos r img p" and "reader env = ops"
    and "detect_and_check_fs env r (ps_index s) (ps_byte_offset s) (ps_declared_type s) ds fs =
      Some (ps_detected_fs s, r', fs')"
  shows "\<exists>q. pos r' img q" and "of_variant 23 fs' = of_variant 23 fs \<union> fs_kinds s"
    and "of_variant 24 fs' = of_variant 24 fs"
    and "ps_detected_fs s = (if unreachable ds (ps_byte_offset s) then None
       else detect (detect_name env) (fingerprint_window img (ps_byte_offset s)))"
proof -
  let ?off = "ps_byte_offset s"
  obtain r1 q where rd: "read_fingerprint ops r ?off FS_FINGERPRINT_BYTES =
      Some (Inr (fingerprint_window img ?off), r1)" "pos r1 img q"
    using read_fingerprint_at [OF assms(1), of ?off FS_FINGERPRINT_BYTES]
    by (auto simp: FS_FINGERPRINT_BYTES_def fingerprint_window_def)
  have "detect_partition_fs env r ?off ds = Some (if unreachable ds ?off then (None, r)
      else (detect (detect_name env) (fingerprint_window img ?off), r1))"
    using rd(1) by (auto simp: detect_partition_fs_def unreachable_def assms(2) detect_eq)
  with assms rd(2) show "\<exists>q. pos r' img q" "of_variant 23 fs' = of_variant 23 fs \<union> fs_kinds s"
    "ps_detected_fs s = (if unreachable ds ?off then None
       else detect (detect_name env) (fingerprint_window img ?off))"
    by (auto simp: detect_and_check_fs_def fs_kinds_def Let_def split: option.splits if_splits)
  show "of_variant 24 fs' = of_variant 24 fs"
    by (rule emits_of_variant [OF detect_and_check_fs_emits [OF assms(3)]]) simp
qed

lemma partition_volume_at:
  assumes "pos r img p" and "reader env = ops"
    and "partition_volume env r off ds = Some ((v, e), r')"
  shows "\<exists>q. pos r' img q" and "(v, e) = (if unreachable ds off then (None, None)
      else (volume_serial_of env (fingerprint_window img off),
            detect_encryption env (fingerprint_window img off)))"
proof -
  obtain r1 q where rd: "read_fingerprint ops r off FS_FINGERPRINT_BYTES =
      Some (Inr (fingerprint_window img off), r1)" "pos r1 img q"
    using read_fingerprint_at [OF assms(1), of off FS_FINGERPRINT_BYTES]
    by (auto simp: FS_FINGERPRINT_BYTES_def fingerprint_window_def)
  with assms show "\<exists>q. pos r' img q" "(v, e) = (if unreachable ds off then (None, None)
      else (volume_serial_of env (fingerprint_window img off),
            detect_encryption env (fingerprint_window img off)))"
    by (auto simp: partition_volume_def unreachable_def split: if_splits)
qed

text \<open>The three reads of one partition keep the invariant for the summary they build.\<close>

lemma partition_content_at:
  assumes "pos r img p" and "reader env = ops" and "content_inv env img ds fs ps"
    and "check_vbr env r (ps_index s) (ps_lba_start s) (ps_byte_offset s) ds fs = Some (r1, f1)"
    and "detect_and_check_fs env r1 (ps_index s) (ps_byte_offset s) (ps_declared_type s) ds f1 =
      Some (ps_detected_fs s, r2, f2)"
    and "partition_volume env r2 (ps_byte_offset s) ds =
      Some ((ps_volume_serial s, ps_encryption s), r3)"
  shows "content_inv env img ds f2 (ps @ [s]) \<and> (\<exists>q. pos r3 img q)"
proof -
  obtain p1 where p1: "pos r1 img p1" using check_vbr_at(1) [OF assms(1,2,4)] by blast
  obtain p2 where p2: "pos r2 img p2" using detect_and_check_fs_at(1) [OF p1 assms(2,5)] by blast
  note vol = partition_volume_at [OF p2 assms(2,6)]
  have "summary_content_ok env img ds s"
    using detect_and_check_fs_at(4) [OF p1 assms(2,5)] vol(2)
    by (simp add: summary_content_ok_def Let_def split: if_splits)
  with assms(3) vol(1) show ?thesis
    using check_vbr_at(2,3) [OF assms(1,2,4)] detect_and_check_fs_at(2,3) [OF p1 assms(2,5)]
    by (auto simp: content_inv_def)
qed

lemma scan_entry_content_at:
  assumes "pos r img p" and env: "reader env = ops" and inv: "content_inv env img ds fs (sc_summaries sc)"
    and run: "scan_entry env ds la ss i e (r, fs, sc) = Some (r', fs', sc')"
  shows "content_inv env img ds fs' (sc_summaries sc') \<and> (\<exists>q. pos r' img q)"
  using run
proof (cases rule: scan_entry_cases)
  case (residual off)
  then have "r' = r" using run by (auto simp: scan_entry_def is_empty_def Let_def)
  moreover have "emits env {5} fs fs'" unfolding residual(4) by (rule emits_record) simp
  ultimately show ?thesis using content_inv_cong [OF inv] residual(5) assms(1) by auto
next
  case unused
  then have "r' = r" using run by (auto simp: scan_entry_def is_empty_def Let_def split: Option.bind_splits)
  with unused inv assms(1) show ?thesis by auto
next
  case (used off f1 f2 f3 r4 f4 d r5 serial enc)
  have "emits env {5, 6, 9, 10} fs f1" by (simp add: used(4))
  also have "emits env {5, 6, 9, 10} f1 f2" by (rule emits_mono [OF check_chs_lba_emits [OF used(5)]]) simp
  also have "emits env {5, 6, 9, 10} f2 f3" by (simp add: used(6))
  finally have f3: "content_inv env img ds f3 (sc_summaries sc)" by (rule content_inv_cong [OF inv]) simp_all
  define s where "s = last (sc_summaries sc')"
  have s: "sc_summaries sc' = sc_summaries sc @ [s]" "ps_index s = i" "ps_lba_start s = ucast (lba_start e)"
    "ps_byte_offset s = lba_to_byte (ucast (lba_start e)) ss" "ps_declared_type s = type_code e"
    "ps_detected_fs s = d" "ps_volume_serial s = serial" "ps_encryption s = enc"
    unfolding s_def used(10) by (simp_all add: Let_def)
  show ?thesis
    using partition_content_at [OF assms(1) env f3, of s] used(7,8,9) unfolding s by blast
qed

lemma scan_loop_content_at:
  "pos r img p \<Longrightarrow> reader env = ops \<Longrightarrow> content_inv env img ds fs (sc_summaries sc) \<Longrightarrow>
   scan_loop env ds la ss es (r, fs, sc) = Some (r', fs', sc') \<Longrightarrow>
   content_inv env img ds fs' (sc_summaries sc') \<and> (\<exists>q. pos r' img q)"
proof (induction es arbitrary: r p fs sc)
  case (Cons x es)
  obtain r1 f1 sc1 where 1: "scan_entry env ds la ss (fst x) (snd x) (r, fs, sc) = Some (r1, f1, sc1)"
    and 2: "scan_loop env ds la ss es (r1, f1, sc1) = Some (r', fs', sc')"
    using Cons.prems(4) by (cases x) (auto split: Option.bind_splits)
  from scan_entry_content_at [OF Cons.prems(1-3) 1] Cons.IH [OF _ Cons.prems(2) _ 2] show ?case by blast
qed auto

lemma scan_logical_content_at:
  assumes "pos r img p" and env: "reader env = ops" and inv: "content_inv env img ds fs (sc_summaries sc)"
    and run: "scan_logical env ds ss l (r, fs, sc) = Some (r', fs', sc')"
  shows "content_inv env img ds fs' (sc_summaries sc') \<and> (\<exists>q. pos r' img q)"
proof -
  define slack_stage where "slack_stage = (if has_slack l
       then do {
         entropy \<leftarrow> shannon (f64 env) (slack l);
         off \<leftarrow> checked_add (ebr_offset l) EBR_SLACK_OFFSET;
         Some (record_finding env (EbrSlackData (ebr_lba l) entropy) off fs)
       }
       else Some fs)"
  let ?i = "EBR_INDEX_BASE + length (sc_summaries sc)" and ?off = "lba_to_byte (logical_lba_start l) ss"
  note body = run [unfolded scan_logical_def Let_def prod.case, folded slack_stage_def]
  obtain f1 r4 f4 d r5 f5 v e r6 where f1: "slack_stage = Some f1"
    and io: "check_vbr env r ?i (logical_lba_start l) ?off ds f1 = Some (r4, f4)"
      "detect_and_check_fs env r4 ?i ?off (type_code (logical l)) ds f4 = Some (d, r5, f5)"
      "partition_volume env r5 ?off ds = Some ((v, e), r6)"
    using body by (auto elim!: bind_SomeE)
  have "emits env {17} fs f1" using f1 by (auto simp: slack_stage_def split: if_splits elim!: bind_SomeE)
  then have inv1: "content_inv env img ds f1 (sc_summaries sc)" by (rule content_inv_cong [OF inv]) simp_all
  define s where "s = last (sc_summaries sc')"
  have s: "sc_summaries sc' = sc_summaries sc @ [s]" "ps_index s = ?i"
    "ps_lba_start s = logical_lba_start l" "ps_byte_offset s = ?off"
    "ps_declared_type s = type_code (logical l)" "ps_detected_fs s = d" "ps_volume_serial s = v"
    "ps_encryption s = e" and eq: "r' = r6" "fs' = f5"
    using body unfolding s_def f1 io bind.bind_lunit prod.case by auto
  show ?thesis
    using partition_content_at [OF assms(1) env inv1, of s] io unfolding s eq by blast
qed

lemma logical_loop_content_at:
  "pos r img p \<Longrightarrow> reader env = ops \<Longrightarrow> content_inv env img ds fs (sc_summaries sc) \<Longrightarrow>
   logical_loop env ds ss ls (r, fs, sc) = Some (r', fs', sc') \<Longrightarrow>
   content_inv env img ds fs' (sc_summaries sc') \<and> (\<exists>q. pos r' img q)"
proof (induction ls arbitrary: r p fs sc)
  case (Cons l ls)
  obtain r1 f1 sc1 where 1: "scan_logical env ds ss l (r, fs, sc) = Some (r1, f1, sc1)"
    and 2: "logical_loop env ds ss ls (r1, f1, sc1) = Some (r', fs', sc')"
    using Cons.prems(4) by (auto split: Option.bind_splits)
  from scan_logical_content_at [OF Cons.prems(1-3) 1] Cons.IH [OF _ Cons.prems(2) _ 2] show ?case by blast
qed auto

lemma walk_extended_content_at:
  assumes "pos r img p" and env: "reader env = ops" and inv: "content_inv env img ds fs (sc_summaries sc)"
    and run: "walk_extended env r m sc ds ss fs = Some (chain, r', fs', sc')"
  shows "content_inv env img ds fs' (sc_summaries sc') \<and> (\<exists>q. pos r' img q)"
proof (cases "find is_extended (entries m)")
  case None
  with assms show ?thesis by (auto simp: walk_extended_def)
next
  case (Some ext)
  obtain c r1 q where w: "walk_ebr_chain ops r (ucast (lba_start ext)) ss = Some (Inr c, r1)" "pos r1 img q"
    using walk_loop_at [OF assms(1), of "ucast (lba_start ext)" ss "[]"] unfolding walk_ebr_chain_def
    by fastforce
  let ?off = "lba_to_byte (ucast (lba_start ext)) ss"
  define f0 where "f0 = (if had_cycle c then record_finding env EbrCycle ?off fs else fs)"
  define f1 where "f1 = (if depth_exceeded c
    then record_finding env (EbrExcessiveDepth (length (links c))) ?off f0 else f0)"
  have "emits env {15, 16} fs f1" unfolding f1_def f0_def by (simp add: emits_push)
  then have inv1: "content_inv env img ds f1 (sc_summaries sc)" by (rule content_inv_cong [OF inv]) simp_all
  have "logical_loop env ds ss (links c) (r1, f1, sc) = Some (r', fs', sc')"
    using run [unfolded walk_extended_def Some option.case env Let_def w(1) bind.bind_lunit prod.case sum.case,
        folded f0_def, folded f1_def]
    by (auto elim!: bind_SomeE)
  then show ?thesis by (rule logical_loop_content_at [OF w(2) env inv1])
qed

end

subsection \<open>Contents of a gap\<close>

definition gap_sample :: "u8 list \<Rightarrow> u64 \<Rightarrow> gap \<Rightarrow> u8 list option" where
  "gap_sample img ss g =
     (let off = unat (lba_to_byte (gap_lba_start g) ss); n = gap_sample_len g in
      if 0 < n \<and> off + n \<le> length img then Some (take n (drop off img)) else None)"

definition wipe_kinds :: "('r, 'vs, 'enc, 'gpt) env \<Rightarrow> u8 list \<Rightarrow> u64 \<Rightarrow> gap \<Rightarrow> anomaly_kind set" where
  "wipe_kinds env img ss g = {WipedRegion (gap_lba_start g) pat |pat buf.
     gap_sample img ss g = Some buf \<and> classify (f64 env) buf = Some pat \<and> is_deliberate_wipe pat}"

definition carved_kinds :: "u8 list \<Rightarrow> u64 \<Rightarrow> gap \<Rightarrow> (anomaly_kind \<times> u64) set" where
  "carved_kinds img ss g = {(CarvedArtifact (carved_kind c), carved_offset c) |c cs buf.
     gap_sample img ss g = Some buf
     \<and> carve buf (lba_to_byte (gap_lba_start g) ss) = Some cs \<and> c \<in> set cs}"

definition located :: "nat \<Rightarrow> anomaly list \<Rightarrow> (anomaly_kind \<times> u64) set" where
  "located n fs = set (map (\<lambda>x. (an_kind x, an_offset x)) (filter (\<lambda>x. variant (an_kind x) = n) fs))"

lemma located_record [simp]:
  "located n (record_finding env k off fs) =
     (if variant k = n then insert (k, off) (located n fs) else located n fs)"
  by (auto simp: located_def record_finding_def anomaly_new_def)

lemma located_carved:
  "located 22 (foldl (\<lambda>fs c. record_finding env (CarvedArtifact (carved_kind c)) (carved_offset c) fs) fs cs) =
     located 22 fs \<union> (\<lambda>c. (CarvedArtifact (carved_kind c), carved_offset c)) ` set cs"
  by (induction cs arbitrary: fs) auto

lemma of_variant_carved:
  "of_variant 21 (foldl (\<lambda>fs c. record_finding env (CarvedArtifact (carved_kind c)) (carved_offset c) fs) fs cs) =
     of_variant 21 fs"
  by (induction cs arbitrary: fs) auto

lemma located_emits: "emits env S fs fs' \<Longrightarrow> n \<notin> S \<Longrightarrow> located n fs' = located n fs"
  by (auto simp: emits_def located_def)

context image_reader
begin

lemma check_gap_content_at:
  "pos r img p \<Longrightarrow> reader env = ops \<Longrightarrow> check_gap_content env ss r gs fs = Some (r', fs') \<Longrightarrow>
   of_variant 21 fs' = of_variant 21 fs \<union> (\<Union>g \<in> set gs. wipe_kinds env img ss g)
   \<and> located 22 fs' = located 22 fs \<union> (\<Union>g \<in> set gs. carved_kinds img ss g)"
proof (induction gs arbitrary: r p fs)
  case (Cons g gs)
  let ?off = "lba_to_byte (gap_lba_start g) ss" and ?n = "gap_sample_len g"
  obtain r1 where sk: "seek_start ops r ?off = (Inr ?off, r1)" "pos r1 img (unat ?off)"
    using seek_at [OF Cons.prems(1), of ?off] by auto
  obtain r2 q where rd: "read_exact ops r1 ?n = Some (if unat ?off + ?n \<le> length img \<or> ?n = 0
      then Inr (take ?n (drop (unat ?off) img)) else Inl UnexpectedEof, r2)" "pos r2 img q"
    by (rule read_exact_at [OF sk(2)])
  note body = Cons.prems(3) [unfolded check_gap_content.simps Let_def, folded gap_sample_len_def,
      unfolded Cons.prems(2) sk(1) prod.case sum.case]
  show ?case
  proof (cases "gap_sample img ss g")
    case None
    then obtain r3 q3 where "check_gap_content env ss r3 gs fs = Some (r', fs')" "pos r3 img q3"
      using body rd Cons.prems(1) by (auto simp: gap_sample_def Let_def split: if_splits)
    from Cons.IH [OF this(2) Cons.prems(2) this(1)] None show ?thesis
      by (simp add: wipe_kinds_def carved_kinds_def)
  next
    case (Some buf)
    then have n: "0 < ?n" and buf: "read_exact ops r1 ?n = Some (Inr buf, r2)"
      using rd(1) by (auto simp: gap_sample_def Let_def split: if_splits)
    obtain pat cs where out: "classify (f64 env) buf = Some pat" "carve buf ?off = Some cs"
      using body n buf by (auto elim!: bind_SomeE)
    let ?f1 = "if is_deliberate_wipe pat then record_finding env (WipedRegion (gap_lba_start g) pat) ?off fs else fs"
    have "check_gap_content env ss r2 gs (foldl (\<lambda>fs c. record_finding env
        (CarvedArtifact (carved_kind c)) (carved_offset c) fs) ?f1 cs) = Some (r', fs')"
      using body n by (simp add: buf out)
    from Cons.IH [OF rd(2) Cons.prems(2) this] Some out show ?thesis
      unfolding located_carved of_variant_carved
      by (auto simp: wipe_kinds_def carved_kinds_def)
  qed
qed simp

end

subsection \<open>The finished report\<close>

text \<open>Where the stages stand in the image, and what they have said about contents.\<close>

lemma analyse_content_at:
  assumes img: "image_reader (reader env) pos retries" and at: "pos r img p"
    and run: "analyse_with_options env r ds opts = Some (Inr a)"
  shows "content_inv env img ds (ma_anomalies a) (ma_partitions a)"
    and "of_variant 21 (ma_anomalies a) = (\<Union>g \<in> set (ma_gaps a). wipe_kinds env img (opt_sector_size opts) g)"
    and "located 22 (ma_anomalies a) = (\<Union>g \<in> set (ma_gaps a). carved_kinds img (opt_sector_size opts) g)"
proof -
  have "content_inv env img ds (ma_anomalies a) (ma_partitions a)
    \<and> of_variant 21 (ma_anomalies a) = (\<Union>g \<in> set (ma_gaps a). wipe_kinds env img (opt_sector_size opts) g)
    \<and> located 22 (ma_anomalies a) = (\<Union>g \<in> set (ma_gaps a). carved_kinds img (opt_sector_size opts) g)"
    using run
  proof (cases rule: analyse_stages)
    case (1 m r1 hdr r2 f1 f4 f5 last_lba f6 r7 f7 sc7 r8 f8 sc8 f9 f10 r11)
    let ?good = "\<lambda>r. \<exists>p. pos r img p" and ?S = "- {21, 22, 23, 24} :: nat set"
    note fair = image_reader.fair_on_image [OF img, of img]
    have "?good r" using at by blast
    then have "?good r1" using 1(1) by (rule fair_reader.read_mbr_good [OF fair])
    then have "?good r2" using 1(2) by (rule fair_reader.gpt_header_present_good [OF fair])
    then obtain p2 where p2: "pos r2 img p2" by blast
    have "emits env ?S [] f1" by (rule emits_mono [OF check_boot_code_emits [OF 1(3)]]) auto
    also have "emits env ?S f1 (check_disk_signature env m (ma_boot_code_id a) f1)" (is "emits _ _ _ ?f2")
      by (rule emits_mono [OF check_disk_signature_emits]) auto
    also have "emits env ?S ?f2 (check_reserved env m ?f2)"
      by (rule emits_mono [OF check_reserved_emits]) auto
    also have "emits env ?S (check_reserved env m ?f2) f4"
      unfolding 1(4) by (rule emits_mono [OF check_bootable_flags_emits]) auto
    also have "emits env ?S f4 f5" by (rule emits_mono [OF check_duplicate_entries_emits [OF 1(5)]]) auto
    also have "emits env ?S f5 f6" by (rule emits_mono [OF check_gpt_emits [OF 1(7)]]) auto
    finally have f6: "emits env ?S [] f6" .
    have "content_inv env img ds [] []" by (simp add: content_inv_def of_variant_def kinds_def)
    then have "content_inv env img ds f6 []" by (rule content_inv_cong [OF _ f6]) simp_all
    then have "content_inv env img ds f7 (sc_summaries sc7) \<and> ?good r7"
      using image_reader.scan_loop_content_at [OF img p2 refl _ 1(8) [unfolded scan_primary_entries_def]]
      by simp
    then have s8: "content_inv env img ds f8 (sc_summaries sc8) \<and> ?good r8"
      using image_reader.walk_extended_content_at [OF img _ refl _ 1(9)] by blast
    then obtain p8 where p8: "pos r8 img p8" by blast
    note gap = image_reader.check_gap_content_at [OF img p8 refl 1(12)]
    have "emits env {8, 18, 19, 20} f8 f9" by (rule emits_mono [OF check_overlaps_emits [OF 1(10)]]) simp
    also have "emits env {8, 18, 19, 20} f9 f10" by (rule emits_mono [OF check_gaps_emits [OF 1(11)]]) auto
    finally have f10: "emits env {8, 18, 19, 20} f8 f10" .
    have "emits env {8, 18, 19, 20, 21, 22} f8 (ma_anomalies a)"
      by (rule emits_then [OF f10 check_gap_content_emits [OF 1(12)]]) auto
    then have "content_inv env img ds (ma_anomalies a) (sc_summaries sc8)"
      by (rule content_inv_cong [OF conjunct1 [OF s8]]) simp_all
    moreover have "emits env (- {21, 22}) [] f10"
    proof -
      have "emits env (- {21, 22}) [] f6" by (rule emits_mono [OF f6]) auto
      also have "emits env (- {21, 22}) f6 f7" by (rule emits_mono [OF scan_primary_entries_emits [OF 1(8)]]) auto
      also have "emits env (- {21, 22}) f7 f8" by (rule emits_mono [OF walk_extended_emits [OF 1(9)]]) auto
      also have "emits env (- {21, 22}) f8 f10" by (rule emits_mono [OF f10]) auto
      finally show ?thesis .
    qed
    then have "of_variant 21 f10 = {}" "located 22 f10 = {}"
      by (simp_all add: emits_of_variant located_emits) (simp_all add: of_variant_def kinds_def located_def)
    ultimately show ?thesis using gap 1(14) by simp
  qed
  then show "content_inv env img ds (ma_anomalies a) (ma_partitions a)"
    "of_variant 21 (ma_anomalies a) = (\<Union>g \<in> set (ma_gaps a). wipe_kinds env img (opt_sector_size opts) g)"
    "located 22 (ma_anomalies a) = (\<Union>g \<in> set (ma_gaps a). carved_kinds img (opt_sector_size opts) g)"
    by blast+
qed

subsection \<open>Properties\<close>

text \<open>
  C8 (functional): what a report says about the contents of the partitions is exact.  Over a
  reader of a fixed image, a partition's filesystem, serial and encryption are those of the (up to)
  65608 bytes of the image at its start, and absent exactly for a start beyond the known disk size;
  a boot-sector anomaly is reported exactly for a partition whose first sector holds a plausible
  parameter block with a non-zero and wrong count of hidden sectors, and a type mismatch exactly
  for a detected filesystem that contradicts the declared type.
\<close>
theorem partition_content_findings:
  assumes "image_reader (reader env) pos retries" and "pos r img p"
    and "analyse_with_options env r disk_size_bytes opts = Some (Inr a)"
  shows "(\<forall>q \<in> set (ma_partitions a). summary_content_ok env img disk_size_bytes q)
    \<and> (\<forall>i h s. VbrHiddenSectorsMismatch i h s \<in> kinds (ma_anomalies a) \<longleftrightarrow>
        (\<exists>q b. q \<in> set (ma_partitions a) \<and> ps_index q = i \<and> ps_lba_start q = s
          \<and> image_bpb img disk_size_bytes (ps_byte_offset q) = Some b
          \<and> hidden_sectors b = h \<and> h \<noteq> 0 \<and> ucast h \<noteq> s))
    \<and> (\<forall>i t d. SignatureMismatch i t d \<in> kinds (ma_anomalies a) \<longleftrightarrow>
        (\<exists>q \<in> set (ma_partitions a). ps_index q = i \<and> ps_declared_type q = t
          \<and> ps_detected_fs q = Some d \<and> type_conflicts (family t) d))"
proof -
  have inv: "content_inv env img disk_size_bytes (ma_anomalies a) (ma_partitions a)"
    using assms by (rule analyse_content_at(1))
  have "VbrHiddenSectorsMismatch i h s \<in> kinds (ma_anomalies a) \<longleftrightarrow>
      VbrHiddenSectorsMismatch i h s \<in> of_variant 24 (ma_anomalies a)" for i h s
    by (simp add: of_variant_def)
  moreover have "SignatureMismatch i t d \<in> kinds (ma_anomalies a) \<longleftrightarrow>
      SignatureMismatch i t d \<in> of_variant 23 (ma_anomalies a)" for i t d
    by (simp add: of_variant_def)
  ultimately show ?thesis
    using inv by (auto simp: content_inv_def vbr_kinds_def fs_kinds_def)
qed

theorem partition_content_findings_witness:
  "\<exists>a. analyse_with_options (sample_env cursor_ops) (cursor_new (mbr_to_bytes sample_disk)) 16384
      default_options = Some (Inr a)
    \<and> (\<forall>q \<in> set (ma_partitions a). ps_byte_offset q = 5120 \<longrightarrow> ps_detected_fs q = Some DfUnknown)"
proof -
  obtain a where a: "analyse_with_options (sample_env cursor_ops)
      (cursor_new (mbr_to_bytes sample_disk)) 16384 default_options = Some (Inr a)" "ma_mbr a = sample_disk"
    by (rule sample_analysis)
  from partition_content_findings [OF sample_disk_reader(1,2) a(1)]
  have "\<forall>q \<in> set (ma_partitions a).
      summary_content_ok (sample_env cursor_ops) (mbr_to_bytes sample_disk) 16384 q" by (rule conjunct1)
  moreover have "ps_detected_fs q = Some DfUnknown" if "ps_byte_offset q = 5120"
    "summary_content_ok (sample_env cursor_ops) (mbr_to_bytes sample_disk) 16384 q" for q
    using that sample_disk_reader(3)
    by (simp add: summary_content_ok_def unreachable_def fingerprint_window_def Let_def detect_eq)
  ultimately have "\<forall>q \<in> set (ma_partitions a). ps_byte_offset q = 5120 \<longrightarrow> ps_detected_fs q = Some DfUnknown"
    by blast
  with a(1) show ?thesis by blast
qed

text \<open>
  C9 (functional): what a report says about the contents of the gaps is exact.  Over a reader
  of a fixed image, the first 4096 bytes of every gap (all of a smaller one) that lie within the image
  are classified and carved: a wiped region is reported exactly for a sample with a deliberate fill,
  and an artifact exactly at the carved offsets of the samples.
\<close>
theorem gap_content_findings:
  assumes "image_reader (reader env) pos retries" and "pos r img p"
    and "analyse_with_options env r disk_size_bytes opts = Some (Inr a)"
  shows "(\<forall>lba pat. WipedRegion lba pat \<in> kinds (ma_anomalies a) \<longleftrightarrow>
      (\<exists>g buf. g \<in> set (ma_gaps a) \<and> gap_lba_start g = lba
        \<and> gap_sample img (opt_sector_size opts) g = Some buf
        \<and> classify (f64 env) buf = Some pat \<and> is_deliberate_wipe pat))
    \<and> (\<forall>kind off. (\<exists>x \<in> set (ma_anomalies a). an_kind x = CarvedArtifact kind \<and> an_offset x = off) \<longleftrightarrow>
      (\<exists>g buf cs. g \<in> set (ma_gaps a) \<and> gap_sample img (opt_sector_size opts) g = Some buf
        \<and> carve buf (lba_to_byte (gap_lba_start g) (opt_sector_size opts)) = Some cs
        \<and> \<lparr>carved_kind = kind, carved_offset = off\<rparr> \<in> set cs))"
proof -
  note at = analyse_content_at(2,3) [OF assms]
  have "WipedRegion lba pat \<in> kinds (ma_anomalies a) \<longleftrightarrow>
      WipedRegion lba pat \<in> of_variant 21 (ma_anomalies a)" for lba pat
    by (simp add: of_variant_def)
  moreover have "(\<exists>x \<in> set (ma_anomalies a). an_kind x = CarvedArtifact kind \<and> an_offset x = off) \<longleftrightarrow>
      (CarvedArtifact kind, off) \<in> located 22 (ma_anomalies a)" for kind off
    by (auto simp: located_def image_iff)
  moreover have "(CarvedArtifact kind, off) \<in> carved_kinds img (opt_sector_size opts) g \<longleftrightarrow>
      (\<exists>buf cs. gap_sample img (opt_sector_size opts) g = Some buf
        \<and> carve buf (lba_to_byte (gap_lba_start g) (opt_sector_size opts)) = Some cs
        \<and> \<lparr>carved_kind = kind, carved_offset = off\<rparr> \<in> set cs)" for kind off g
  proof -
    have "(\<exists>c. kind = carved_kind c \<and> off = carved_offset c \<and> c \<in> set cs) \<longleftrightarrow>
        \<lparr>carved_kind = kind, carved_offset = off\<rparr> \<in> set cs" for cs :: "carved_file list"
      by (metis carved_file.equality carved_file.select_convs old.unit.exhaust)
    then show ?thesis unfolding carved_kinds_def by auto
  qed
  ultimately show ?thesis
    unfolding at by (auto simp: wipe_kinds_def)
qed

theorem gap_content_findings_witness:
  "\<exists>a. analyse_with_options (sample_env cursor_ops) (cursor_new (mbr_to_bytes sample_disk)) 16384
      default_options = Some (Inr a) \<and> (\<forall>pat. WipedRegion 1 pat \<notin> kinds (ma_anomalies a))"
proof -
  obtain a where a: "analyse_with_options (sample_env cursor_ops)
      (cursor_new (mbr_to_bytes sample_disk)) 16384 default_options = Some (Inr a)" "ma_mbr a = sample_disk"
    by (rule sample_analysis)
  have "gap_sample (mbr_to_bytes sample_disk) (opt_sector_size default_options) g = None"
    if "gap_lba_start g = 1" for g
    using that sample_disk_reader(3)
    by (auto simp: gap_sample_def Let_def lba_to_byte_def default_options_def SECTOR_BYTES_def SECTOR_SIZE_def
        saturating_mul_def checked_mul_def)
  with gap_content_findings [OF sample_disk_reader(1,2) a(1)] have "\<forall>pat. WipedRegion 1 pat \<notin> kinds (ma_anomalies a)"
    by fastforce
  with a(1) show ?thesis by blast
qed

end
