(* ===== verification/Trace.thy ===== *)
theory Trace
  imports ImageRuns Report
begin

text \<open>
  The I/O diagnostics (\<open>core/src/diag.rs\<close>).  With the feature \<open>trace\<close> the crates forward events to a
  subscriber; without it the functions of \<open>diag\<close> are empty.  The model keeps the events in a log that
  every function takes and returns that calls \<open>diag\<close> or runs a function that does, with the feature as
  an argument.  Lemmas say that erasing the log gives the functions of the theories \<open>Ebr\<close> and
  \<open>Analyse\<close>, so that the logging functions are those functions and a log.

  The log holds the reads and walks that failed and the summary of the analysis.  The events
  \<open>anomaly_recorded\<close> of \<open>forensic/src/diag.rs\<close>, one per call of \<open>Findings::record\<close>, are not part of it.

  The theory shows what the log contains over an image: exactly the events its bytes call for.
\<close>

subsection \<open>Events\<close>

datatype trace_level = LevelTrace | LevelDebug | LevelWarn

datatype trace_event =
    AnalysisComplete nat nat nat boot_code_id
  | EbrWalkFailed u64 error
  | PartitionReadFailed u64 error
  | EbrTruncated u64
  | EbrNoSignature u64

type_synonym trace_log = "(trace_level \<times> trace_event) list"

definition trace_emit :: "bool \<Rightarrow> trace_level \<Rightarrow> trace_event \<Rightarrow> trace_log \<Rightarrow> trace_log" where
  "trace_emit feat level ev tr = (if feat then tr @ [(level, ev)] else tr)"

definition analysis_complete ::
  "bool \<Rightarrow> nat \<Rightarrow> nat \<Rightarrow> nat \<Rightarrow> boot_code_id \<Rightarrow> trace_log \<Rightarrow> trace_log" where
  "analysis_complete feat anomalies partitions gaps boot =
     trace_emit feat LevelDebug (AnalysisComplete anomalies partitions gaps boot)"

definition ebr_walk_failed :: "bool \<Rightarrow> u64 \<Rightarrow> error \<Rightarrow> trace_log \<Rightarrow> trace_log" where
  "ebr_walk_failed feat ext_start err = trace_emit feat LevelWarn (EbrWalkFailed ext_start err)"

definition partition_read_failed :: "bool \<Rightarrow> u64 \<Rightarrow> error \<Rightarrow> trace_log \<Rightarrow> trace_log" where
  "partition_read_failed feat byte_offset err =
     trace_emit feat LevelTrace (PartitionReadFailed byte_offset err)"

definition ebr_truncated :: "bool \<Rightarrow> u64 \<Rightarrow> trace_log \<Rightarrow> trace_log" where
  "ebr_truncated feat lba = trace_emit feat LevelTrace (EbrTruncated lba)"

definition ebr_no_signature :: "bool \<Rightarrow> u64 \<Rightarrow> trace_log \<Rightarrow> trace_log" where
  "ebr_no_signature feat lba = trace_emit feat LevelTrace (EbrNoSignature lba)"

subsection \<open>The traced EBR walk\<close>

definition ebr_iteration_traced ::
  "bool \<Rightarrow> 'r reader_ops \<Rightarrow> u64 \<Rightarrow> u64 \<Rightarrow> 'r \<Rightarrow> ebr_entry list \<Rightarrow> u64 set \<Rightarrow> u64 \<Rightarrow> trace_log
     \<Rightarrow> ((ebr_outcome \<times> 'r) \<times> trace_log) option" where
  "ebr_iteration_traced feat ops ext_start_lba sector_size r es visited next_ebr_lba tr =
     (if MAX_DEPTH \<le> length es
      then Some ((Stop \<lparr>links = es, had_cycle = False, depth_exceeded = True\<rparr>, r), tr)
      else if next_ebr_lba \<in> visited
      then Some ((Stop \<lparr>links = es, had_cycle = True, depth_exceeded = False\<rparr>, r), tr)
      else case checked_mul next_ebr_lba sector_size of
        None \<Rightarrow> Some ((Stop \<lparr>links = es, had_cycle = False, depth_exceeded = False\<rparr>, r), tr)
      | Some ebr_byte_offset \<Rightarrow>
          (case seek_start ops r ebr_byte_offset of
             (Inl e, r) \<Rightarrow> Some ((Fail (Io e), r), tr)
           | (Inr _, r) \<Rightarrow> do {
               (res, r) \<leftarrow> read_exact ops r SECTOR_LEN;
               case res of
                 Inl _ \<Rightarrow>
                   Some ((Stop \<lparr>links = es, had_cycle = False, depth_exceeded = False\<rparr>, r),
                         ebr_truncated feat next_ebr_lba tr)
               | Inr sec \<Rightarrow>
                   if sec ! EBR_BOOT_SIG \<noteq> 0x55 \<or> sec ! (EBR_BOOT_SIG + 1) \<noteq> 0xAA
                   then Some ((Stop \<lparr>links = es, had_cycle = False, depth_exceeded = False\<rparr>, r),
                              ebr_no_signature feat next_ebr_lba tr)
                   else do {
                     (e, next_entry) \<leftarrow> decode_ebr_sector ebr_byte_offset next_ebr_lba sec;
                     let finished = Stop \<lparr>links = es @ [e], had_cycle = False,
                                          depth_exceeded = False\<rparr>;
                     if lba_start next_entry = 0 then Some ((finished, r), tr)
                     else case checked_add ext_start_lba (ucast (lba_start next_entry)) of
                       None \<Rightarrow> Some ((finished, r), tr)
                     | Some next_lba \<Rightarrow> Some ((Link e next_lba, r), tr)
                   }
             }))"

lemma erase_bind:
  "map_option fst x = y \<Longrightarrow> (\<And>a tr. map_option fst (g (a, tr)) = h a) \<Longrightarrow>
     map_option fst (x \<bind> g) = y \<bind> h"
  by (cases x) auto

lemma erase_same: "(\<And>a. map_option fst (g a) = h a) \<Longrightarrow> map_option fst (x \<bind> g) = x \<bind> h"
  by (cases x) auto

lemma ebr_iteration_traced_erase:
  "map_option fst (ebr_iteration_traced feat ops ext ss r es v n tr) = ebr_iteration ops ext ss r es v n"
  by (auto simp: ebr_iteration_traced_def ebr_iteration_def Let_def
      split: option.splits prod.splits sum.splits intro!: erase_same)

lemma ebr_iteration_traced_Link:
  "ebr_iteration_traced feat ops ext ss r es v n tr = Some ((Link e m, r'), tr') \<Longrightarrow>
     length es < MAX_DEPTH"
  using ebr_iteration_traced_erase [of feat ops ext ss r es v n tr]
  by (auto intro: ebr_iteration_Link_depth dest: sym)

function walk_loop_traced ::
  "bool \<Rightarrow> 'r reader_ops \<Rightarrow> u64 \<Rightarrow> u64 \<Rightarrow> 'r \<Rightarrow> ebr_entry list \<Rightarrow> u64 set \<Rightarrow> u64 \<Rightarrow> trace_log
     \<Rightarrow> (((error + ebr_chain) \<times> 'r) \<times> trace_log) option" where
  "walk_loop_traced feat ops ext_start_lba sector_size r es visited next_ebr_lba tr =
     (case ebr_iteration_traced feat ops ext_start_lba sector_size r es visited next_ebr_lba tr of
        None \<Rightarrow> None
      | Some ((Stop c, r'), tr') \<Rightarrow> Some ((Inr c, r'), tr')
      | Some ((Fail err, r'), tr') \<Rightarrow> Some ((Inl err, r'), tr')
      | Some ((Link e next_lba, r'), tr') \<Rightarrow>
          walk_loop_traced feat ops ext_start_lba sector_size r' (es @ [e])
            (insert next_ebr_lba visited) next_lba tr')"
  by pat_completeness auto
termination
  by (relation "measure (\<lambda>(f, ops, ext, ss, r, es, v, n, tr). MAX_DEPTH - length es)")
    (auto dest: ebr_iteration_traced_Link)

declare walk_loop_traced.simps [simp del]

definition walk_ebr_chain_traced ::
  "bool \<Rightarrow> 'r reader_ops \<Rightarrow> 'r \<Rightarrow> u64 \<Rightarrow> u64 \<Rightarrow> trace_log
     \<Rightarrow> (((error + ebr_chain) \<times> 'r) \<times> trace_log) option" where
  "walk_ebr_chain_traced feat ops r ext_start_lba sector_size tr =
     walk_loop_traced feat ops ext_start_lba sector_size r [] {} ext_start_lba tr"

subsection \<open>The traced pipeline\<close>

definition gpt_header_present_traced ::
  "bool \<Rightarrow> 'r reader_ops \<Rightarrow> 'r \<Rightarrow> u64 \<Rightarrow> trace_log \<Rightarrow> ((bool \<times> 'r) \<times> trace_log) option" where
  "gpt_header_present_traced feat ops r sector_size tr = do {
     (res, r) \<leftarrow> read_first_sector ops r sector_size;
     case res of
       Inr lba1 \<Rightarrow> Some ((has_gpt_header lba1, r), tr)
     | Inl e \<Rightarrow> Some ((False, r), partition_read_failed feat sector_size e tr)
   }"

definition detect_partition_fs_traced ::
  "bool \<Rightarrow> ('r, 'vs, 'enc, 'gpt) env \<Rightarrow> 'r \<Rightarrow> u64 \<Rightarrow> u64 \<Rightarrow> trace_log
     \<Rightarrow> ((detected_fs option \<times> 'r) \<times> trace_log) option" where
  "detect_partition_fs_traced feat env r byte_offset disk_size_bytes tr =
     (if disk_size_bytes \<noteq> 0 \<and> disk_size_bytes \<le> byte_offset then Some ((None, r), tr)
      else do {
        (res, r) \<leftarrow> read_fingerprint (reader env) r byte_offset FS_FINGERPRINT_BYTES;
        case res of
          Inr buf \<Rightarrow> do { fs \<leftarrow> detect (detect_name env) buf; Some ((Some fs, r), tr) }
        | Inl e \<Rightarrow> Some ((None, r), partition_read_failed feat byte_offset e tr)
      })"

definition detect_and_check_fs_traced ::
  "bool \<Rightarrow> ('r, 'vs, 'enc, 'gpt) env \<Rightarrow> 'r \<Rightarrow> nat \<Rightarrow> u64 \<Rightarrow> type_code \<Rightarrow> u64 \<Rightarrow> anomaly list \<Rightarrow> trace_log
     \<Rightarrow> ((detected_fs option \<times> 'r \<times> anomaly list) \<times> trace_log) option" where
  "detect_and_check_fs_traced feat env r i byte_offset declared disk_size_bytes fs tr = do {
     ((detected_fs, r), tr) \<leftarrow> detect_partition_fs_traced feat env r byte_offset disk_size_bytes tr;
     let fs = (case detected_fs of
         Some detected \<Rightarrow>
           if type_conflicts (family declared) detected
           then record_finding env (SignatureMismatch i declared detected) byte_offset fs else fs
       | None \<Rightarrow> fs);
     Some ((detected_fs, r, fs), tr)
   }"

definition scan_entry_traced ::
  "bool \<Rightarrow> ('r, 'vs, 'enc, 'gpt) env \<Rightarrow> u64 \<Rightarrow> u64 \<Rightarrow> u64 \<Rightarrow> nat \<Rightarrow> partition_entry
     \<Rightarrow> 'r \<times> anomaly list \<times> ('vs, 'enc) primary_scan \<Rightarrow> trace_log
     \<Rightarrow> (('r \<times> anomaly list \<times> ('vs, 'enc) primary_scan) \<times> trace_log) option" where
  "scan_entry_traced feat env disk_size_bytes last_lba sector_size i e st tr = do {
     let (r, fs, sc) = st;
     off \<leftarrow> entry_offset i;
     if type_is_empty (type_code e) \<and> (lba_start e \<noteq> 0 \<or> lba_count e \<noteq> 0)
     then Some ((r, record_finding env (ResidualEntry i (lba_start e) (lba_count e)) off fs, sc), tr)
     else if is_empty e then Some ((r, fs, sc), tr)
     else do {
       let fs = (if status e \<noteq> 0x00 \<and> status e \<noteq> 0x80
                 then record_finding env (InvalidPartitionStatus i (status e)) off fs else fs);
       fs \<leftarrow> check_chs_lba env i e fs;
       let start = (ucast (lba_start e) :: u64);
       let stop = (ucast (lba_end e) :: u64);
       let byte_offset = lba_to_byte start sector_size;
       let byte_size = lba_to_byte (ucast (lba_count e)) sector_size;
       let fs = (if 0 < disk_size_bytes \<and> last_lba < stop
                 then record_finding env (OutOfBounds i stop last_lba) off fs else fs);
       let sc = sc\<lparr>sc_extents := sc_extents sc @ [(start, stop)]\<rparr>;
       let sc = (if \<not> is_extended e
                 then sc\<lparr>sc_overlap_extents := sc_overlap_extents sc @ [(i, start, stop)]\<rparr> else sc);
       (r, fs) \<leftarrow> check_vbr env r i start byte_offset disk_size_bytes fs;
       ((detected_fs, r, fs), tr) \<leftarrow> detect_and_check_fs_traced feat env r i byte_offset
         (type_code e) disk_size_bytes fs tr;
       ((serial, encryption), r) \<leftarrow> partition_volume env r byte_offset disk_size_bytes;
       let summary = \<lparr>ps_index = i, ps_lba_start = start, ps_lba_end = stop,
         ps_byte_offset = byte_offset, ps_byte_size = byte_size, ps_declared_type = type_code e,
         ps_detected_fs = detected_fs, ps_volume_serial = serial, ps_encryption = encryption\<rparr>;
       Some ((r, fs, sc\<lparr>sc_summaries := sc_summaries sc @ [summary]\<rparr>), tr)
     }
   }"

fun scan_loop_traced ::
  "bool \<Rightarrow> ('r, 'vs, 'enc, 'gpt) env \<Rightarrow> u64 \<Rightarrow> u64 \<Rightarrow> u64 \<Rightarrow> (nat \<times> partition_entry) list
     \<Rightarrow> 'r \<times> anomaly list \<times> ('vs, 'enc) primary_scan \<Rightarrow> trace_log
     \<Rightarrow> (('r \<times> anomaly list \<times> ('vs, 'enc) primary_scan) \<times> trace_log) option" where
  "scan_loop_traced feat env disk_size_bytes last_lba sector_size [] st tr = Some (st, tr)"
| "scan_loop_traced feat env disk_size_bytes last_lba sector_size ((i, e) # es) st tr = do {
     (st, tr) \<leftarrow> scan_entry_traced feat env disk_size_bytes last_lba sector_size i e st tr;
     scan_loop_traced feat env disk_size_bytes last_lba sector_size es st tr
   }"

definition scan_primary_entries_traced ::
  "bool \<Rightarrow> ('r, 'vs, 'enc, 'gpt) env \<Rightarrow> 'r \<Rightarrow> mbr_sector \<Rightarrow> u64 \<Rightarrow> u64 \<Rightarrow> u64 \<Rightarrow> anomaly list \<Rightarrow> trace_log
     \<Rightarrow> (('r \<times> anomaly list \<times> ('vs, 'enc) primary_scan) \<times> trace_log) option" where
  "scan_primary_entries_traced feat env r m disk_size_bytes last_lba sector_size fs tr =
     scan_loop_traced feat env disk_size_bytes last_lba sector_size (enumerate 0 (entries m))
       (r, fs, \<lparr>sc_extents = [], sc_overlap_extents = [], sc_summaries = []\<rparr>) tr"

definition scan_logical_traced ::
  "bool \<Rightarrow> ('r, 'vs, 'enc, 'gpt) env \<Rightarrow> u64 \<Rightarrow> u64 \<Rightarrow> ebr_entry
     \<Rightarrow> 'r \<times> anomaly list \<times> ('vs, 'enc) primary_scan \<Rightarrow> trace_log
     \<Rightarrow> (('r \<times> anomaly list \<times> ('vs, 'enc) primary_scan) \<times> trace_log) option" where
  "scan_logical_traced feat env disk_size_bytes sector_size ebr st tr = do {
     let (r, fs, sc) = st;
     fs \<leftarrow> (if has_slack ebr
       then do {
         entropy \<leftarrow> shannon (f64 env) (slack ebr);
         off \<leftarrow> checked_add (ebr_offset ebr) EBR_SLACK_OFFSET;
         Some (record_finding env (EbrSlackData (ebr_lba ebr) entropy) off fs)
       }
       else Some fs);
     let start = logical_lba_start ebr;
     let stop = saturating_sub (saturating_add start (ucast (lba_count (logical ebr)))) 1;
     let byte_offset = lba_to_byte start sector_size;
     let i = EBR_INDEX_BASE + length (sc_summaries sc);
     let sc = sc\<lparr>sc_extents := sc_extents sc @ [(start, stop)]\<rparr>;
     let sc = sc\<lparr>sc_overlap_extents := sc_overlap_extents sc @ [(i, start, stop)]\<rparr>;
     (r, fs) \<leftarrow> check_vbr env r i start byte_offset disk_size_bytes fs;
     ((detected_fs, r, fs), tr) \<leftarrow> detect_and_check_fs_traced feat env r i byte_offset
       (type_code (logical ebr)) disk_size_bytes fs tr;
     ((serial, encryption), r) \<leftarrow> partition_volume env r byte_offset disk_size_bytes;
     let summary = \<lparr>ps_index = i, ps_lba_start = start, ps_lba_end = stop,
       ps_byte_offset = byte_offset,
       ps_byte_size = lba_to_byte (ucast (lba_count (logical ebr))) sector_size,
       ps_declared_type = type_code (logical ebr),
       ps_detected_fs = detected_fs, ps_volume_serial = serial, ps_encryption = encryption\<rparr>;
     Some ((r, fs, sc\<lparr>sc_summaries := sc_summaries sc @ [summary]\<rparr>), tr)
   }"

fun logical_loop_traced ::
  "bool \<Rightarrow> ('r, 'vs, 'enc, 'gpt) env \<Rightarrow> u64 \<Rightarrow> u64 \<Rightarrow> ebr_entry list
     \<Rightarrow> 'r \<times> anomaly list \<times> ('vs, 'enc) primary_scan \<Rightarrow> trace_log
     \<Rightarrow> (('r \<times> anomaly list \<times> ('vs, 'enc) primary_scan) \<times> trace_log) option" where
  "logical_loop_traced feat env disk_size_bytes sector_size [] st tr = Some (st, tr)"
| "logical_loop_traced feat env disk_size_bytes sector_size (ebr # ebrs) st tr = do {
     (st, tr) \<leftarrow> scan_logical_traced feat env disk_size_bytes sector_size ebr st tr;
     logical_loop_traced feat env disk_size_bytes sector_size ebrs st tr
   }"

definition walk_extended_traced ::
  "bool \<Rightarrow> ('r, 'vs, 'enc, 'gpt) env \<Rightarrow> 'r \<Rightarrow> mbr_sector \<Rightarrow> ('vs, 'enc) primary_scan \<Rightarrow> u64 \<Rightarrow> u64
     \<Rightarrow> anomaly list \<Rightarrow> trace_log
     \<Rightarrow> ((ebr_chain \<times> 'r \<times> anomaly list \<times> ('vs, 'enc) primary_scan) \<times> trace_log) option" where
  "walk_extended_traced feat env r m sc disk_size_bytes sector_size fs tr =
     (case find is_extended (entries m) of
        None \<Rightarrow> Some ((ebr_chain_empty, r, fs, sc), tr)
      | Some ext \<Rightarrow> do {
          let ext_start = (ucast (lba_start ext) :: u64);
          ((res, r), tr) \<leftarrow> walk_ebr_chain_traced feat (reader env) r ext_start sector_size tr;
          case res of
            Inl err \<Rightarrow> Some ((ebr_chain_empty, r, fs, sc), ebr_walk_failed feat ext_start err tr)
          | Inr chain \<Rightarrow> do {
              let ext_offset = lba_to_byte ext_start sector_size;
              let fs = (if had_cycle chain then record_finding env EbrCycle ext_offset fs else fs);
              let fs = (if depth_exceeded chain
                        then record_finding env (EbrExcessiveDepth (length (links chain))) ext_offset fs
                        else fs);
              ((r, fs, sc), tr) \<leftarrow> logical_loop_traced feat env disk_size_bytes sector_size (links chain)
                (r, fs, sc) tr;
              Some ((chain, r, fs, sc), tr)
            }
        })"

definition analyse_traced ::
  "bool \<Rightarrow> ('r, 'vs, 'enc, 'gpt) env \<Rightarrow> 'r \<Rightarrow> u64 \<Rightarrow> analyse_options
     \<Rightarrow> ((error + ('vs, 'enc, 'gpt) mbr_analysis) \<times> trace_log) option" where
  "analyse_traced feat env r disk_size_bytes opts = do {
     let sector_size = opt_sector_size opts;
     (res, r) \<leftarrow> read_mbr (reader env) r;
     case res of
       Inl err \<Rightarrow> Some (Inl err, [])
     | Inr m \<Rightarrow> do {
         let boot_code_id = identify (identify_loader env) (boot_code m);
         ((gpt_header, r), tr) \<leftarrow> gpt_header_present_traced feat (reader env) r sector_size [];
         let on_gpt_disk = (gpt_header \<and> is_pure_protective_mbr m);
         fs \<leftarrow> check_boot_code env m boot_code_id on_gpt_disk [];
         let fs = check_disk_signature env m boot_code_id fs;
         let fs = check_reserved env m fs;
         let fs = check_bootable_flags env m fs;
         fs \<leftarrow> check_duplicate_entries env m fs;
         last_lba \<leftarrow> disk_last_lba disk_size_bytes sector_size;
         fs \<leftarrow> check_gpt env m last_lba gpt_header sector_size fs;
         ((r, fs, sc), tr) \<leftarrow> scan_primary_entries_traced feat env r m disk_size_bytes last_lba
           sector_size fs tr;
         ((chain, r, fs, sc), tr) \<leftarrow> walk_extended_traced feat env r m sc disk_size_bytes sector_size fs tr;
         fs \<leftarrow> check_overlaps env (sc_overlap_extents sc) fs;
         (gaps, fs) \<leftarrow> check_gaps env (sc_extents sc) disk_size_bytes last_lba sector_size fs;
         (r, fs) \<leftarrow> check_gap_content env sector_size r gaps fs;
         gpt \<leftarrow> (if gpt_header then gpt_analyse env r disk_size_bytes else Some None);
         let tr = analysis_complete feat (length fs) (length (sc_summaries sc)) (length gaps)
           boot_code_id tr;
         Some (Inr \<lparr>ma_mbr = m, ma_partitions = sc_summaries sc, ma_ebr_chain = chain,
                    ma_gaps = gaps, ma_boot_code_id = boot_code_id, ma_disk_serial = disk_serial m,
                    ma_era = infer_era (first_partition_lba m) boot_code_id,
                    ma_gpt = gpt, ma_anomalies = fs\<rparr>, tr)
       }
   }"

subsection \<open>Erasing the log\<close>

lemma walk_loop_traced_erase:
  "map_option fst (walk_loop_traced feat ops ext ss r es v n tr) = walk_loop ops ext ss r es v n"
proof (induction feat ops ext ss r es v n tr rule: walk_loop_traced.induct)
  case (1 feat ops ext ss r es v n tr)
  note it = ebr_iteration_traced_erase [of feat ops ext ss r es v n tr, symmetric]
  show ?case
  proof (cases "ebr_iteration_traced feat ops ext ss r es v n tr")
    case None
    with it show ?thesis by (simp add: walk_loop_traced.simps walk_loop.simps)
  next
    case (Some z)
    obtain o1 r' tr' where z: "z = ((o1, r'), tr')" by (metis surj_pair)
    show ?thesis
    proof (cases o1)
      case (Link e m)
      with 1 [OF Some z [symmetric] refl Link] it Some z show ?thesis
        by (simp add: walk_loop_traced.simps [of _ _ _ _ r] walk_loop.simps [of _ _ _ r])
    qed (use it Some z in \<open>simp_all add: walk_loop_traced.simps walk_loop.simps\<close>)
  qed
qed

lemma walk_ebr_chain_traced_erase:
  "map_option fst (walk_ebr_chain_traced feat ops r ext ss tr) = walk_ebr_chain ops r ext ss"
  by (simp add: walk_ebr_chain_traced_def walk_ebr_chain_def walk_loop_traced_erase)

lemma gpt_header_present_traced_erase:
  "map_option fst (gpt_header_present_traced feat ops r ss tr) = gpt_header_present ops r ss"
  by (auto simp: gpt_header_present_traced_def gpt_header_present_def split: sum.splits
      intro!: erase_same)

lemma detect_partition_fs_traced_erase:
  "map_option fst (detect_partition_fs_traced feat env r off ds tr) = detect_partition_fs env r off ds"
  by (auto simp: detect_partition_fs_traced_def detect_partition_fs_def split: sum.splits
      intro!: erase_same)

lemma detect_and_check_fs_traced_erase:
  "map_option fst (detect_and_check_fs_traced feat env r i off c ds fs tr) =
     detect_and_check_fs env r i off c ds fs"
  unfolding detect_and_check_fs_traced_def detect_and_check_fs_def
  by (rule erase_bind [OF detect_partition_fs_traced_erase]) (auto simp: Let_def)

lemma scan_entry_traced_erase:
  "map_option fst (scan_entry_traced feat env ds la ss i e st tr) = scan_entry env ds la ss i e st"
  unfolding scan_entry_traced_def scan_entry_def Let_def
  by (auto split: prod.splits
      intro!: erase_same erase_bind [OF detect_and_check_fs_traced_erase])

lemma scan_loop_traced_erase:
  "map_option fst (scan_loop_traced feat env ds la ss es st tr) = scan_loop env ds la ss es st"
  by (induction es arbitrary: st tr) (auto intro!: erase_bind [OF scan_entry_traced_erase])

lemma scan_logical_traced_erase:
  "map_option fst (scan_logical_traced feat env ds ss l st tr) = scan_logical env ds ss l st"
  unfolding scan_logical_traced_def scan_logical_def Let_def
  by (auto split: prod.splits
      intro!: erase_same erase_bind [OF detect_and_check_fs_traced_erase])

lemma logical_loop_traced_erase:
  "map_option fst (logical_loop_traced feat env ds ss ls st tr) = logical_loop env ds ss ls st"
  by (induction ls arbitrary: st tr) (auto intro!: erase_bind [OF scan_logical_traced_erase])

lemma walk_extended_traced_erase:
  "map_option fst (walk_extended_traced feat env r m sc ds ss fs tr) = walk_extended env r m sc ds ss fs"
  unfolding walk_extended_traced_def walk_extended_def Let_def
  by (auto split: option.splits sum.splits
      intro!: erase_bind [OF walk_ebr_chain_traced_erase] erase_bind [OF logical_loop_traced_erase])

lemma analyse_traced_erase:
  "map_option fst (analyse_traced feat env r ds opts) = analyse_with_options env r ds opts"
  unfolding analyse_traced_def analyse_with_options_def Let_def scan_primary_entries_traced_def
    scan_primary_entries_def
  by (auto split: sum.splits intro!: erase_same erase_bind [OF gpt_header_present_traced_erase]
      erase_bind [OF scan_loop_traced_erase] erase_bind [OF walk_extended_traced_erase])

subsection \<open>What a stage logs\<close>

text \<open>\<open>stage_logs feat ios tr tr'\<close>: with the feature the log grows from \<open>tr\<close> to \<open>tr'\<close> by the events \<open>ios\<close>.\<close>

definition stage_logs :: "bool \<Rightarrow> trace_log \<Rightarrow> trace_log \<Rightarrow> trace_log \<Rightarrow> bool" where
  "stage_logs feat ios tr tr' \<longleftrightarrow> tr' = (if feat then tr @ ios else tr)"

definition quietly :: "(trace_log \<Rightarrow> bool) \<Rightarrow> bool \<Rightarrow> trace_log \<Rightarrow> trace_log \<Rightarrow> bool" where
  "quietly quiet feat tr tr' \<longleftrightarrow> (\<exists>ios. quiet ios \<and> stage_logs feat ios tr tr')"

lemma logs_refl [simp]: "stage_logs feat [] tr tr"
  by (simp add: stage_logs_def)

lemma logs_trans: "stage_logs feat i tr tr1 \<Longrightarrow> stage_logs feat j tr1 tr2 \<Longrightarrow> stage_logs feat (i @ j) tr tr2"
  by (simp add: stage_logs_def)

lemma logs_emit: "stage_logs feat [(l, ev)] tr (trace_emit feat l ev tr)"
  by (simp add: stage_logs_def trace_emit_def)

text \<open>The walk of the EBR chain logs at most events of its own.\<close>

fun is_walk_event :: "trace_level \<times> trace_event \<Rightarrow> bool" where
  "is_walk_event (_, EbrTruncated _) = True"
| "is_walk_event (_, EbrNoSignature _) = True"
| "is_walk_event _ = False"

lemma ebr_iteration_traced_log:
  assumes "ebr_iteration_traced feat ops ext ss r es v n tr = Some (z, tr')"
  shows "\<exists>w. list_all is_walk_event w \<and> tr' = (if feat then tr @ w else tr)"
proof -
  have "tr' \<in> {tr, ebr_truncated feat n tr, ebr_no_signature feat n tr}"
    using assms
    by (auto simp: ebr_iteration_traced_def Let_def split: if_splits option.splits prod.splits sum.splits
        elim!: bind_SomeE)
  then show ?thesis
    unfolding ebr_truncated_def ebr_no_signature_def trace_emit_def
    by (elim insertE emptyE; hypsubst)
      (rule exI [of _ "[]"] exI [of _ "[(LevelTrace, EbrTruncated n)]"]
        exI [of _ "[(LevelTrace, EbrNoSignature n)]"], simp; fail)+
qed

lemma walk_loop_traced_log:
  "walk_loop_traced feat ops ext ss r es v n tr = Some (z, tr') \<Longrightarrow>
     \<exists>w. list_all is_walk_event w \<and> tr' = (if feat then tr @ w else tr)"
proof (induction feat ops ext ss r es v n tr rule: walk_loop_traced.induct)
  case (1 feat ops ext ss r es v n tr)
  obtain o1 r1 t1 where it: "ebr_iteration_traced feat ops ext ss r es v n tr = Some ((o1, r1), t1)"
    using "1.prems" by (subst (asm) walk_loop_traced.simps) (auto split: option.splits)
  note run = "1.prems" [unfolded walk_loop_traced.simps [of _ _ _ _ r] it]
  obtain w1 where w1: "list_all is_walk_event w1" "t1 = (if feat then tr @ w1 else tr)"
    using ebr_iteration_traced_log [OF it] by blast
  show ?case
  proof (cases o1)
    case (Link e m)
    with "1.IH" [OF it refl refl Link] run obtain w2 where
      "list_all is_walk_event w2" "tr' = (if feat then t1 @ w2 else t1)" by auto
    with w1 show ?thesis by (intro exI [of _ "w1 @ w2"]) auto
  qed (use run w1 in auto)
qed

definition walk_logged ::
  "bool \<Rightarrow> 'r reader_ops \<Rightarrow> 'r \<Rightarrow> mbr_sector \<Rightarrow> u64 \<Rightarrow> ebr_chain \<Rightarrow> trace_log \<Rightarrow> bool" where
  "walk_logged feat ops r m ss c w \<longleftrightarrow>
     (case find is_extended (entries m) of
        None \<Rightarrow> w = []
      | Some ext \<Rightarrow> \<exists>res r' t w1.
          walk_ebr_chain_traced feat ops r (ucast (lba_start ext)) ss t =
            Some ((res, r'), if feat then t @ w1 else t)
          \<and> list_all is_walk_event w1
          \<and> (case res of
                Inr d \<Rightarrow> d = c \<and> w = w1
              | Inl e \<Rightarrow> w = w1 @ [(LevelWarn, EbrWalkFailed (ucast (lba_start ext)) e)]))"

lemma walk_loggedI:
  assumes "find is_extended (entries m) = Some ext" and "list_all is_walk_event w"
    and "walk_ebr_chain_traced feat ops r (ucast (lba_start ext)) ss t = Some ((res, r'), if feat then t @ w else t)"
  shows "res = Inr c \<Longrightarrow> walk_logged feat ops r m ss c w"
    and "res = Inl e \<Longrightarrow>
      walk_logged feat ops r m ss c (w @ [(LevelWarn, EbrWalkFailed (ucast (lba_start ext)) e)])"
  using assms(2,3) unfolding walk_logged_def assms(1) option.case
  by (intro exI [of _ res] exI [of _ r'] exI [of _ t] exI [of _ w]; simp split del: if_split)+

definition lba1_events :: "'r reader_ops \<Rightarrow> 'r \<Rightarrow> u64 \<Rightarrow> trace_log" where
  "lba1_events ops r ss =
     (case read_first_sector ops r ss of
        Some (Inl e, _) \<Rightarrow> [(LevelTrace, PartitionReadFailed ss e)]
      | _ \<Rightarrow> [])"

lemma gpt_header_present_traced_log:
  "gpt_header_present_traced feat ops r ss tr = Some (z, tr') \<Longrightarrow>
     stage_logs feat (lba1_events ops r ss) tr tr'"
  by (auto simp: gpt_header_present_traced_def lba1_events_def partition_read_failed_def
      split: sum.splits elim!: bind_SomeE intro!: logs_emit)

locale io_events =
  fixes ops :: "'r reader_ops" and good :: "'r \<Rightarrow> bool" and quiet :: "trace_log \<Rightarrow> bool"
  assumes sector_good: "good r \<Longrightarrow> read_first_sector ops r off = Some (x, r') \<Longrightarrow> good r'"
    and window_good: "good r \<Longrightarrow> read_fingerprint ops r off n = Some (y, r') \<Longrightarrow> good r'"
    and window_failed: "good r \<Longrightarrow> read_fingerprint ops r off n = Some (Inl e, r') \<Longrightarrow>
      quiet [(LevelTrace, PartitionReadFailed off e)]"
    and mbr_good: "good r \<Longrightarrow> read_mbr ops r = Some (z, r') \<Longrightarrow> good r'"
    and walk_good: "good r \<Longrightarrow> walk_ebr_chain ops r ext ss = Some (w, r') \<Longrightarrow> good r'"
    and quiet_Nil: "quiet []"
    and quiet_append: "quiet xs \<Longrightarrow> quiet ys \<Longrightarrow> quiet (xs @ ys)"
begin

lemma quietly_refl [simp]: "quietly quiet feat tr tr"
  unfolding quietly_def using quiet_Nil logs_refl by blast

lemma quietly_trans:
  "quietly quiet feat tr tr1 \<Longrightarrow> quietly quiet feat tr1 tr2 \<Longrightarrow> quietly quiet feat tr tr2"
  unfolding quietly_def using logs_trans quiet_append by blast

lemma check_vbr_good:
  assumes "reader env = ops" and "good r" and "check_vbr env r i st off ds fs = Some (r', fs')"
  shows "good r'"
proof (cases "ds \<noteq> 0 \<and> ds \<le> off")
  case True
  with assms show ?thesis by (auto simp: check_vbr_def)
next
  case False
  then obtain x where "read_first_sector ops r off = Some (x, r')"
    using assms(3) by (auto simp: check_vbr_def assms(1) split: sum.splits option.splits elim!: bind_SomeE)
  with assms(2) show ?thesis by (rule sector_good)
qed

lemma partition_volume_good:
  assumes "reader env = ops" and "good r" and "partition_volume env r off ds = Some (x, r')"
  shows "good r'"
  using assms(2,3) by (auto simp: partition_volume_def assms(1) split: if_splits sum.splits elim!: bind_SomeE
      dest: window_good [OF assms(2)])

lemma detect_and_check_fs_traced_log:
  assumes env: "reader env = ops" and "good r"
    and "detect_and_check_fs_traced feat env r i off c ds fs tr = Some ((d, r', fs'), tr')"
  shows "good r' \<and> quietly quiet feat tr tr'"
proof -
  have 1: "detect_partition_fs_traced feat env r off ds tr = Some ((d, r'), tr')"
    using assms(3) by (auto simp: detect_and_check_fs_traced_def Let_def elim!: bind_SomeE)
  show ?thesis
  proof (cases "ds \<noteq> 0 \<and> ds \<le> off")
    case True
    with 1 assms(2) show ?thesis by (auto simp: detect_partition_fs_traced_def)
  next
    case False
    then obtain y where rd: "read_fingerprint ops r off FS_FINGERPRINT_BYTES = Some (y, r')"
      and tr': "tr' = (case y of Inl e \<Rightarrow> partition_read_failed feat off e tr | Inr _ \<Rightarrow> tr)"
      using 1 by (auto simp: detect_partition_fs_traced_def env split: sum.splits elim!: bind_SomeE)
    have "quietly quiet feat tr tr'"
    proof (cases y)
      case (Inl e)
      with window_failed [OF assms(2) rd [unfolded Inl]] show ?thesis
        unfolding tr' quietly_def
        by (auto simp: partition_read_failed_def intro!: exI conjI logs_emit)
    qed (simp add: tr')
    with window_good [OF assms(2) rd] show ?thesis ..
  qed
qed

text \<open>The stages of one partition: its checks, its fingerprint and its volume.\<close>

lemma partition_stages_traced_log:
  assumes env: "reader env = ops" and "good r"
    and vbr: "check_vbr env r i st off ds fs1 = Some (r2, fs2)"
    and det: "detect_and_check_fs_traced feat env r2 i off c ds fs2 tr = Some ((d, r3, fs3), tr3)"
    and vol: "partition_volume env r3 off ds = Some (v, r4)"
  shows "good r4 \<and> quietly quiet feat tr tr3"
proof -
  have "good r2" using env assms(2) vbr by (rule check_vbr_good)
  from detect_and_check_fs_traced_log [OF env this det] partition_volume_good [OF env _ vol]
  show ?thesis by blast
qed

lemma scan_entry_traced_log:
  assumes env: "reader env = ops" and "good r"
    and run: "scan_entry_traced feat env ds la ss i e (r, fs, sc) tr = Some ((r', fs', sc'), tr')"
  shows "good r' \<and> quietly quiet feat tr tr'"
  using run assms(2)
  by (auto simp: scan_entry_traced_def Let_def split: if_splits elim!: bind_SomeE
      dest: partition_stages_traced_log [OF env assms(2)])

lemma scan_loop_traced_log:
  "reader env = ops \<Longrightarrow> good r \<Longrightarrow>
   scan_loop_traced feat env ds la ss es (r, fs, sc) tr = Some ((r', fs', sc'), tr') \<Longrightarrow>
   good r' \<and> quietly quiet feat tr tr'"
proof (induction es arbitrary: r fs sc tr)
  case (Cons x es)
  obtain i e where x: "x = (i, e)" by force
  obtain r1 f1 sc1 t1 where
    1: "scan_entry_traced feat env ds la ss i e (r, fs, sc) tr = Some ((r1, f1, sc1), t1)"
    and 2: "scan_loop_traced feat env ds la ss es (r1, f1, sc1) t1 = Some ((r', fs', sc'), tr')"
    using Cons.prems(3) x by (auto elim!: bind_SomeE)
  from scan_entry_traced_log [OF Cons.prems(1,2) 1] Cons.IH [OF Cons.prems(1) _ 2] quietly_trans
  show ?case by blast
qed simp

lemma scan_logical_traced_log:
  assumes env: "reader env = ops" and "good r"
    and run: "scan_logical_traced feat env ds ss l (r, fs, sc) tr = Some ((r', fs', sc'), tr')"
  shows "good r' \<and> quietly quiet feat tr tr'"
  using run
  by (auto simp: scan_logical_traced_def Let_def elim!: bind_SomeE
      dest: partition_stages_traced_log [OF env assms(2)])

lemma logical_loop_traced_log:
  "reader env = ops \<Longrightarrow> good r \<Longrightarrow>
   logical_loop_traced feat env ds ss ls (r, fs, sc) tr = Some ((r', fs', sc'), tr') \<Longrightarrow>
   good r' \<and> quietly quiet feat tr tr'"
proof (induction ls arbitrary: r fs sc tr)
  case (Cons l ls)
  obtain r1 f1 sc1 t1 where
    1: "scan_logical_traced feat env ds ss l (r, fs, sc) tr = Some ((r1, f1, sc1), t1)"
    and 2: "logical_loop_traced feat env ds ss ls (r1, f1, sc1) t1 = Some ((r', fs', sc'), tr')"
    using Cons.prems(3) by (auto elim!: bind_SomeE)
  from scan_logical_traced_log [OF Cons.prems(1,2) 1] Cons.IH [OF Cons.prems(1) _ 2] quietly_trans
  show ?case by blast
qed simp

lemma walk_extended_traced_log:
  assumes env: "reader env = ops" and "good r"
    and run: "walk_extended_traced feat env r m sc ds ss fs tr = Some ((c, r', fs', sc'), tr')"
  obtains w ios where "walk_logged feat ops r m ss c w" "quiet ios" "stage_logs feat (w @ ios) tr tr'"
proof (cases "find is_extended (entries m)")
  case None
  with run quiet_Nil show thesis
    by (intro that [of "[]" "[]"]) (simp_all add: walk_logged_def walk_extended_traced_def)
next
  case (Some ext)
  let ?start = "ucast (lba_start ext) :: u64"
  obtain res r1 t1 where w: "walk_ebr_chain_traced feat ops r ?start ss tr = Some ((res, r1), t1)"
    using run Some by (auto simp: walk_extended_traced_def Let_def env elim!: bind_SomeE)
  note body = run [unfolded walk_extended_traced_def Let_def env Some option.case w bind.bind_lunit prod.case]
  obtain w1 where w1: "list_all is_walk_event w1" "t1 = (if feat then tr @ w1 else tr)"
    using walk_loop_traced_log [OF w [unfolded walk_ebr_chain_traced_def]] by blast
  have log1: "stage_logs feat w1 tr t1" using w1(2) by (simp add: stage_logs_def)
  have "walk_ebr_chain ops r ?start ss = Some (res, r1)"
    using walk_ebr_chain_traced_erase [of feat ops r ?start ss tr] w by simp
  with assms(2) have r1: "good r1" by (rule walk_good)
  show thesis
  proof (cases res)
    case (Inl e)
    let ?ev = "[(LevelWarn, EbrWalkFailed ?start e)]"
    have tr': "tr' = ebr_walk_failed feat ?start e t1" using body Inl by simp
    have "stage_logs feat ?ev t1 tr'" unfolding tr' ebr_walk_failed_def by (rule logs_emit)
    then show thesis
      using that [OF walk_loggedI(2) [OF Some w1(1) w [unfolded w1(2)] Inl] quiet_Nil]
        logs_trans [OF log1, of ?ev tr'] by simp
  next
    case (Inr d)
    define f1 where "f1 = (let ext_offset = lba_to_byte ?start ss;
        f0 = (if had_cycle d then record_finding env EbrCycle ext_offset fs else fs) in
      if depth_exceeded d then record_finding env (EbrExcessiveDepth (length (links d))) ext_offset f0
      else f0)"
    note rest = body [unfolded Inr sum.case, folded f1_def [unfolded Let_def]]
    have "d = c" and loop: "logical_loop_traced feat env ds ss (links d) (r1, f1, sc) t1 =
        Some ((r', fs', sc'), tr')"
      using rest by (auto elim!: bind_SomeE)
    from logical_loop_traced_log [OF env r1 loop]
    obtain ios where "quiet ios" "stage_logs feat ios t1 tr'" by (auto simp: quietly_def)
    with walk_loggedI(1) [OF Some w1(1) w [unfolded w1(2)] Inr] \<open>d = c\<close> logs_trans [OF log1] show thesis
      by (intro that [of w1 ios]) simp_all
  qed
qed

lemma gpt_header_present_traced_good:
  "good r \<Longrightarrow> gpt_header_present_traced feat ops r ss tr = Some ((hdr, r'), tr') \<Longrightarrow> good r'"
  by (auto simp: gpt_header_present_traced_def split: sum.splits elim!: bind_SomeE
      intro: sector_good)

lemma analyse_traced_log:
  assumes env: "reader env = ops" and "good r"
    and run: "analyse_traced feat env r ds opts = Some (Inr a, tr)"
  obtains r1 r7 w q1 q2 body where "read_mbr ops r = Some (Inr (ma_mbr a), r1)" "good r1" "good r7"
    "walk_logged feat ops r7 (ma_mbr a) (opt_sector_size opts) (ma_ebr_chain a) w" "quiet q1" "quiet q2"
    "stage_logs feat (lba1_events ops r1 (opt_sector_size opts) @ q1 @ w @ q2) [] body"
    "tr = analysis_complete feat (length (ma_anomalies a)) (length (ma_partitions a))
       (length (ma_gaps a)) (ma_boot_code_id a) body"
proof -
  let ?ss = "opt_sector_size opts"
  obtain res r1 where mbr: "read_mbr ops r = Some (res, r1)"
    using run by (auto simp: analyse_traced_def Let_def env elim!: bind_SomeE)
  note b0 = run [unfolded analyse_traced_def Let_def env mbr bind.bind_lunit prod.case]
  obtain m where res: "res = Inr m" using b0 by (cases res) auto
  let ?bid = "identify (identify_loader env) (boot_code m)"
  note r1 = mbr_good [OF assms(2) mbr]
  obtain hdr r2 t2 where s2: "gpt_header_present_traced feat ops r1 ?ss [] = Some ((hdr, r2), t2)"
    using b0 [unfolded res sum.case] by (auto elim!: bind_SomeE simp del: if_split)
  note b2 = b0 [unfolded res sum.case s2 bind.bind_lunit prod.case]
  obtain f1 f5 last_lba f6 where
    s3: "check_boot_code env m ?bid (hdr \<and> is_pure_protective_mbr m) [] = Some f1"
    and s5: "check_duplicate_entries env m (check_bootable_flags env m (check_reserved env m
      (check_disk_signature env m ?bid f1))) = Some f5"
    and s6: "disk_last_lba ds ?ss = Some last_lba" and s7: "check_gpt env m last_lba hdr ?ss f5 = Some f6"
    using b2 by (auto elim!: bind_SomeE simp del: if_split)
  note b7 = b2 [unfolded s3 s5 s6 s7 bind.bind_lunit]
  obtain r7 f7 sc7 t7 where s8: "scan_primary_entries_traced feat env r2 m ds last_lba ?ss f6 t2 =
      Some ((r7, f7, sc7), t7)"
    using b7 by (auto elim!: bind_SomeE simp del: if_split)
  note b8 = b7 [unfolded s8 bind.bind_lunit prod.case]
  obtain c r8 f8 sc8 t8 where s9: "walk_extended_traced feat env r7 m sc7 ds ?ss f7 t7 =
      Some ((c, r8, f8, sc8), t8)"
    using b8 by (auto elim!: bind_SomeE simp del: if_split)
  note b9 = b8 [unfolded s9 bind.bind_lunit prod.case]
  obtain f9 gaps f10 r11 f11 where s10: "check_overlaps env (sc_overlap_extents sc8) f8 = Some f9"
    and s11: "check_gaps env (sc_extents sc8) ds last_lba ?ss f9 = Some (gaps, f10)"
    and s12: "check_gap_content env ?ss r8 gaps f10 = Some (r11, f11)"
    using b9 by (auto elim!: bind_SomeE simp del: if_split)
  note b12 = b9 [unfolded s10 s11 s12 bind.bind_lunit prod.case]
  have a: "ma_mbr a = m" "ma_partitions a = sc_summaries sc8" "ma_ebr_chain a = c" "ma_gaps a = gaps"
    "ma_boot_code_id a = ?bid" "ma_anomalies a = f11"
    and tr: "tr = analysis_complete feat (length f11) (length (sc_summaries sc8)) (length gaps) ?bid t8"
    using b12 by (auto elim!: bind_SomeE simp del: if_split)
  have l2: "stage_logs feat (lba1_events ops r1 ?ss) [] t2" by (rule gpt_header_present_traced_log [OF s2])
  have s8': "good r7 \<and> quietly quiet feat t2 t7"
    by (rule scan_loop_traced_log [OF env gpt_header_present_traced_good [OF r1 s2]
          s8 [unfolded scan_primary_entries_traced_def]])
  then obtain q1 where q1: "quiet q1" "stage_logs feat q1 t2 t7" unfolding quietly_def by blast
  obtain w i where w: "walk_logged feat ops r7 m ?ss c w" "quiet i" "stage_logs feat (w @ i) t7 t8"
    using walk_extended_traced_log [OF env conjunct1 [OF s8'] s9] by blast
  have "stage_logs feat (lba1_events ops r1 ?ss @ q1 @ w @ i) [] t8"
    using logs_trans [OF logs_trans [OF l2 q1(2)] w(3)] by simp
  from that [OF mbr [unfolded res, folded a(1)] r1 conjunct1 [OF s8'] w(1) [folded a] q1(1) w(2)
      this tr [folded a]] show thesis .
qed

end

subsection \<open>Readers of an image\<close>

text \<open>
  Where the next EBR of a chain lies, and the event of a walk that stops there because the sector is
  missing or unsigned.
\<close>

definition next_ebr :: "u8 list \<Rightarrow> u64 \<Rightarrow> u64 \<Rightarrow> ebr_entry list \<Rightarrow> u64 option" where
  "next_ebr img ext ss es =
     (if es = [] then Some ext
      else case image_ebr img ss (ebr_lba (last es)) of
        None \<Rightarrow> None
      | Some (_, p) \<Rightarrow> next_link ext p)"

definition stop_events :: "u8 list \<Rightarrow> u64 \<Rightarrow> u64 \<Rightarrow> trace_log" where
  "stop_events img ss n =
     (if 2 ^ 64 \<le> unat n * unat ss then []
      else if length img < unat n * unat ss + 512 then [(LevelTrace, EbrTruncated n)]
      else [(LevelTrace, EbrNoSignature n)])"

definition chain_events :: "u8 list \<Rightarrow> u64 \<Rightarrow> u64 \<Rightarrow> ebr_chain \<Rightarrow> trace_log" where
  "chain_events img ext ss c =
     (if had_cycle c \<or> depth_exceeded c then []
      else case next_ebr img ext ss (links c) of None \<Rightarrow> [] | Some n \<Rightarrow> stop_events img ss n)"

context image_reader
begin

lemma io_events_image: "io_events ops (\<lambda>r. \<exists>p. pos r img p) (\<lambda>ios. ios = [])"
proof
  fix r off n e r' x y z ext ss w
  assume "\<exists>p. pos r img p"
  then obtain p where p: "pos r img p" ..
  show "\<exists>p. pos r' img p" if "read_first_sector ops r off = Some (x, r')"
    by (rule read_first_sector_at [OF p, of off]) (use that in auto)
  show "\<exists>p. pos r' img p" if "read_fingerprint ops r off n = Some (y, r')"
    by (rule read_fingerprint_at [OF p, of off n]) (use that in auto)
  show "[(LevelTrace, PartitionReadFailed off e)] = []" if "read_fingerprint ops r off n = Some (Inl e, r')"
    by (rule read_fingerprint_at [OF p, of off n]) (use that in auto)
  show "\<exists>p. pos r' img p" if "read_mbr ops r = Some (z, r')"
    by (rule read_mbr_at [OF p]) (use that in auto)
  show "\<exists>p. pos r' img p" if "walk_ebr_chain ops r ext ss = Some (w, r')"
    using walk_loop_at [OF p, of ext ss "[]" ext] that by (auto simp: walk_ebr_chain_def)
qed simp_all

lemma lba1_events_at:
  assumes "pos r img p"
  shows "lba1_events ops r ss =
    (if unat ss + 512 \<le> length img then [] else [(LevelTrace, PartitionReadFailed ss (Io UnexpectedEof))])"
  by (rule read_first_sector_at [OF assms, of ss]) (simp add: lba1_events_def)

lemma ebr_iteration_traced_at:
  assumes r: "pos r img q" and "length es < 64" and "n \<notin> v"
    and run: "ebr_iteration_traced feat ops ext ss r es v n tr = Some (z, tr')"
  shows "tr' = (if feat \<and> image_ebr img ss n = None then tr @ stop_events img ss n else tr)"
proof (cases "checked_mul n ss")
  case None
  then have "2 ^ 64 \<le> unat n * unat ss" by (simp add: checked_mul_def split: if_splits)
  with None assms show ?thesis
    by (simp add: ebr_iteration_traced_def MAX_DEPTH_def stop_events_def)
next
  case (Some off)
  let ?o = "unat n * unat ss"
  have o: "unat off = ?o" "off = n * ss" "?o < 2 ^ 64"
    using Some unat_less_exp [of off] by (auto simp: checked_mul_def unat_mult_no_overflow split: if_splits)
  obtain r1 where sk: "seek_start ops r off = (Inr off, r1)" "pos r1 img ?o"
    using seek_at [OF r] o(1) by metis
  obtain r2 q2 where rd: "read_exact ops r1 512 = Some (if ?o + 512 \<le> length img
      then Inr (take 512 (drop ?o img)) else Inl UnexpectedEof, r2)" "pos r2 img q2"
    using read_exact_at [OF sk(2), of 512] by auto
  note body = run [unfolded ebr_iteration_traced_def MAX_DEPTH_def Some option.case sk(1) prod.case
      sum.case SECTOR_LEN_def rd(1) bind.bind_lunit]
  show ?thesis
  proof (cases "?o + 512 \<le> length img")
    case False
    then have "image_ebr img ss n = None" by (simp add: image_ebr_def Let_def)
    with False body assms(2,3) o show ?thesis
      by (auto simp: stop_events_def ebr_truncated_def trace_emit_def)
  next
    case True
    then have len: "length (take 512 (drop ?o img)) = 512" by simp
    have im: "image_ebr img ss n =
        (if img ! (?o + 510) = 0x55 \<and> img ! (?o + 511) = 0xAA
         then decode_ebr_sector off n (take 512 (drop ?o img)) else None)"
      using True o by (simp add: image_ebr_def Let_def)
    obtain e p where dec: "decode_ebr_sector off n (take 512 (drop ?o img)) = Some (e, p)"
      using decode_ebr_sector_eq [OF len] by (metis surj_pair)
    from True body assms(2,3) o im dec show ?thesis
      by (auto simp: EBR_BOOT_SIG_def Let_def stop_events_def ebr_no_signature_def trace_emit_def
          split: option.splits if_splits)
  qed
qed

lemma walk_loop_traced_at:
  "pos r img q \<Longrightarrow> next_ebr img ext ss es = Some n \<Longrightarrow>
   walk_loop_traced feat ops ext ss r es (ebr_lba ` set es) n tr = Some ((Inr c, r'), tr') \<Longrightarrow>
   tr' = (if feat then tr @ chain_events img ext ss c else tr)"
proof (induction "64 - length es" arbitrary: r q es n tr rule: less_induct)
  case less
  let ?v = "ebr_lba ` set es"
  have stop: "ebr_iteration_traced feat ops ext ss r es ?v n tr =
      Some ((Stop \<lparr>links = es, had_cycle = length es < 64, depth_exceeded = 64 \<le> length es\<rparr>, r), tr)"
    if "64 \<le> length es \<or> n \<in> ?v"
    using that by (cases "64 \<le> length es") (simp_all add: ebr_iteration_traced_def MAX_DEPTH_def)
  consider "64 \<le> length es \<or> n \<in> ?v" | "length es < 64" "n \<notin> ?v" by linarith
  then show ?case
  proof cases
    case 1
    with less.prems(3) [unfolded walk_loop_traced.simps [of _ _ _ _ r] stop [OF 1]] show ?thesis
      by (auto simp: chain_events_def)
  next
    case 2
    note plain = ebr_iteration_at [OF less.prems(1) 2, of ext ss]
    then obtain o1 r1 q1 where it0: "ebr_iteration ops ext ss r es ?v n = Some (o1, r1)" "pos r1 img q1"
      and o1: "o1 = (case image_ebr img ss n of
          None \<Rightarrow> Stop \<lparr>links = es, had_cycle = False, depth_exceeded = False\<rparr>
        | Some (e, p) \<Rightarrow> (case next_link ext p of
            None \<Rightarrow> Stop \<lparr>links = es @ [e], had_cycle = False, depth_exceeded = False\<rparr>
          | Some m \<Rightarrow> Link e m))"
      by blast
    obtain t1 where it: "ebr_iteration_traced feat ops ext ss r es ?v n tr = Some ((o1, r1), t1)"
      using ebr_iteration_traced_erase [of feat ops ext ss r es ?v n tr] it0(1) by (auto simp: map_option_eq_Some)
    note t1 = ebr_iteration_traced_at [OF less.prems(1) 2 it]
    note run = less.prems(3) [unfolded walk_loop_traced.simps [of _ _ _ _ r] it]
    show ?thesis
    proof (cases "image_ebr img ss n")
      case None
      with run o1 t1 less.prems(2) show ?thesis by (auto simp: chain_events_def)
    next
      case (Some ep)
      obtain e p where ep: "ep = (e, p)" by force
      note im = Some [unfolded ep]
      have e: "ebr_lba e = n" using im by (rule image_ebr_lba)
      have next': "next_ebr img ext ss (es @ [e]) = next_link ext p" by (simp add: next_ebr_def e im)
      show ?thesis
      proof (cases "next_link ext p")
        case None
        with run o1 t1 im next' show ?thesis by (auto simp: chain_events_def)
      next
        case (Some m)
        then have "walk_loop_traced feat ops ext ss r1 (es @ [e]) (ebr_lba ` set (es @ [e])) m t1 =
            Some ((Inr c, r'), tr')"
          using run o1 im e by simp
        with less.hyps [of "es @ [e]" r1 q1 m t1] 2 it0(2) next' Some t1 im show ?thesis by simp
      qed
    qed
  qed
qed

lemma walk_logged_at:
  assumes "pos r img p" and "walk_logged feat ops r m ss c w" and feat
  shows "w = (case find is_extended (entries m) of None \<Rightarrow> []
    | Some ext \<Rightarrow> chain_events img (ucast (lba_start ext)) ss c)"
proof (cases "find is_extended (entries m)")
  case None
  with assms(2) show ?thesis by (simp add: walk_logged_def)
next
  case (Some ext)
  let ?e = "ucast (lba_start ext) :: u64"
  obtain res r' t w1 where run: "walk_ebr_chain_traced feat ops r ?e ss t =
      Some ((res, r'), if feat then t @ w1 else t)"
    and w: "case res of Inr d \<Rightarrow> d = c \<and> w = w1 | Inl e \<Rightarrow> w = w1 @ [(LevelWarn, EbrWalkFailed ?e e)]"
    using assms(2) unfolding walk_logged_def Some option.case by blast
  obtain d r2 where "walk_ebr_chain ops r ?e ss = Some (Inr d, r2)"
    using walk_loop_at [OF assms(1), of ?e ss "[]" ?e] by (auto simp: walk_ebr_chain_def)
  then have res: "res = Inr d"
    using walk_ebr_chain_traced_erase [of feat ops r ?e ss t] run by simp
  have "next_ebr img ?e ss [] = Some ?e" by (simp add: next_ebr_def)
  from walk_loop_traced_at [OF assms(1) this, of feat t d r'] run res assms(3) w Some show ?thesis
    by (simp add: walk_ebr_chain_traced_def)
qed

end

interpretation cursor_io: io_events cursor_ops "\<lambda>r. \<exists>p. cursor_at r img p" "\<lambda>ios. ios = []" for img
  by (rule cur.io_events_image)

subsection \<open>Properties\<close>

lemma sample_trace:
  obtains a tr where "analyse_traced feat (sample_env cursor_ops) (cursor_new (mbr_to_bytes sample_disk)) 16384
      default_options = Some (Inr a, tr)" "ma_mbr a = sample_disk"
proof -
  obtain a where a: "analyse_with_options (sample_env cursor_ops)
      (cursor_new (mbr_to_bytes sample_disk)) 16384 default_options = Some (Inr a)" "ma_mbr a = sample_disk"
    by (rule sample_analysis)
  with analyse_traced_erase [of feat "sample_env cursor_ops" "cursor_new (mbr_to_bytes sample_disk)" 16384
      default_options] that show thesis by (auto simp: map_option_eq_Some)
qed

text \<open>
  C28 (functional): the events of a traced analysis are exact functions of the image.  Over a
  reader of a fixed image a traced analysis returns the report of the plain one, and the log holds a read
  failure of the sector after the boot record if the image ends before it, one event of the EBR walk if it
  stopped at a missing or an unsigned sector, and the summary with the counts of the report; a failed
  fingerprint or a failed walk is never logged.
\<close>
theorem trace_of_image:
  assumes "image_reader (reader env) pos retries" and "pos r img p"
    and "analyse_traced True env r disk_size_bytes opts = Some (Inr a, tr)"
  shows "analyse_with_options env r disk_size_bytes opts = Some (Inr a) \<and> tr =
      (if unat (opt_sector_size opts) + 512 \<le> length img then []
       else [(LevelTrace, PartitionReadFailed (opt_sector_size opts) (Io UnexpectedEof))])
    @ (case find is_extended (entries (ma_mbr a)) of
         None \<Rightarrow> []
       | Some ext \<Rightarrow> chain_events img (ucast (lba_start ext)) (opt_sector_size opts) (ma_ebr_chain a))
    @ [(LevelDebug, AnalysisComplete (length (ma_anomalies a)) (length (ma_partitions a))
         (length (ma_gaps a)) (ma_boot_code_id a))]"
proof -
  have at: "\<exists>p. pos r img p" using assms(2) ..
  obtain r1 r7 w q1 q2 body where r1: "\<exists>p. pos r1 img p" and r7: "\<exists>p. pos r7 img p"
    and w: "walk_logged True (reader env) r7 (ma_mbr a) (opt_sector_size opts) (ma_ebr_chain a) w"
    and q: "q1 = []" "q2 = []"
    and log: "stage_logs True (lba1_events (reader env) r1 (opt_sector_size opts) @ q1 @ w @ q2) [] body"
    and tr: "tr = analysis_complete True (length (ma_anomalies a)) (length (ma_partitions a))
      (length (ma_gaps a)) (ma_boot_code_id a) body"
    by (rule io_events.analyse_traced_log [OF image_reader.io_events_image [OF assms(1), of img] refl
          at assms(3)]) blast
  obtain p1 p7 where p: "pos r1 img p1" "pos r7 img p7" using r1 r7 by blast
  have "analyse_with_options env r disk_size_bytes opts = Some (Inr a)"
    using analyse_traced_erase [of True env r disk_size_bytes opts] assms(3) by simp
  with log q image_reader.lba1_events_at [OF assms(1) p(1)]
    image_reader.walk_logged_at [OF assms(1) p(2) w TrueI] tr
  show ?thesis by (simp add: stage_logs_def analysis_complete_def trace_emit_def)
qed

theorem trace_of_image_witness:
  "\<exists>a tr. analyse_traced True (sample_env cursor_ops) (cursor_new (mbr_to_bytes sample_disk)) 16384
      default_options = Some (Inr a, tr)
    \<and> analyse_with_options (sample_env cursor_ops) (cursor_new (mbr_to_bytes sample_disk)) 16384
      default_options = Some (Inr a)
    \<and> tr = [(LevelTrace, PartitionReadFailed 512 (Io UnexpectedEof)),
         (LevelDebug, AnalysisComplete (length (ma_anomalies a)) (length (ma_partitions a))
           (length (ma_gaps a)) (ma_boot_code_id a))]"
proof -
  obtain a tr where run: "analyse_traced True (sample_env cursor_ops) (cursor_new (mbr_to_bytes sample_disk)) 16384
      default_options = Some (Inr a, tr)" and m: "ma_mbr a = sample_disk" by (rule sample_trace)
  have ss: "opt_sector_size default_options = 512"
    by (simp add: default_options_def SECTOR_BYTES_def SECTOR_SIZE_def)
  have "find is_extended (entries sample_disk) = None"
    by (simp add: sample_disk_def sample_slot_def unused_slot_def is_extended_def type_is_extended_def)
  with trace_of_image [OF sample_disk_reader(1,2) run] run show ?thesis
    by (auto simp: m ss sample_disk_reader(3))
qed

end
