(* ===== verification/Integrity.thy ===== *)
theory Integrity
  imports Report
begin

text \<open>
  The report as a data structure: the sizes of its parts, the numbering of its partitions, and what
  the indices in its anomalies refer to, so that a reader of the report (\<open>forensic/src/findings.rs\<close>)
  can resolve every reference: to a listed partition, or to a slot of the primary table.  Last, which
  partitions the overlap findings name.
\<close>

subsection \<open>References\<close>

text \<open>
  Eight kinds of anomaly carry indices.  Six name partitions; residual and duplicate entries name
  slots of the primary table, which hold a partition only when their type is not zero.
\<close>

fun slot_refs :: "anomaly_kind \<Rightarrow> nat set" where
  "slot_refs (ResidualEntry i _ _) = {i}"
| "slot_refs (DuplicatePartitionEntry a b) = {a, b}"
| "slot_refs _ = {}"

fun partition_refs :: "anomaly_kind \<Rightarrow> nat set" where
  "partition_refs (InvalidPartitionStatus i _) = {i}"
| "partition_refs (OverlappingPartitions a b _ _) = {a, b}"
| "partition_refs (OutOfBounds i _ _) = {i}"
| "partition_refs (ChsLbaInconsistency i) = {i}"
| "partition_refs (VbrHiddenSectorsMismatch i _ _) = {i}"
| "partition_refs (SignatureMismatch i _ _) = {i}"
| "partition_refs _ = {}"

definition refers :: "nat set \<Rightarrow> anomaly list \<Rightarrow> anomaly list \<Rightarrow> bool" where
  "refers I fs fs' \<longleftrightarrow> (\<exists>new. fs' = fs @ new \<and> (\<forall>a \<in> set new. partition_refs (an_kind a) \<subseteq> I))"

definition indices :: "('vs, 'enc) primary_scan \<Rightarrow> nat set" where
  "indices sc = ps_index ` set (sc_summaries sc)"

lemma refers_refl [simp, intro]: "refers I fs fs"
  by (simp add: refers_def)

lemma refers_trans [trans]: "refers I fs fs' \<Longrightarrow> refers I fs' fs'' \<Longrightarrow> refers I fs fs''"
  unfolding refers_def by (metis Un_iff append.assoc set_append)

lemma refers_mono: "refers I fs fs' \<Longrightarrow> I \<subseteq> J \<Longrightarrow> refers J fs fs'"
  unfolding refers_def by blast

lemma refers_record [intro]:
  "partition_refs k \<subseteq> I \<Longrightarrow> refers I fs (record_finding env k off fs)"
  by (simp add: refers_def record_finding_def)

lemma refers_emits:
  assumes "emits env S fs fs'" and "S \<inter> {6, 8, 9, 10, 23, 24} = {}"
  shows "refers I fs fs'"
proof -
  have "partition_refs k = {}" if "variant k \<in> S" for k
    using that assms(2) by (cases k) auto
  with assms(1) show ?thesis unfolding emits_def refers_def by fastforce
qed

lemma check_chs_lba_refers: "check_chs_lba env i e fs = Some fs' \<Longrightarrow> refers {i} fs fs'"
  by (auto simp: check_chs_lba_def bind_Some_iff split: if_splits)

lemma check_vbr_refers: "check_vbr env r i st off ds fs = Some (r', fs') \<Longrightarrow> refers {i} fs fs'"
  by (auto simp: check_vbr_def split: Option.bind_splits if_splits sum.splits option.splits prod.splits)

lemma detect_and_check_fs_refers:
  "detect_and_check_fs env r i off t ds fs = Some (d, r', fs') \<Longrightarrow> refers {i} fs fs'"
  by (auto simp: detect_and_check_fs_def bind_Some_iff Let_def split: if_splits option.splits)

lemma scan_entry_refers:
  assumes "scan_entry env ds la ss i e (r, fs, sc) = Some (r', fs', sc')"
  shows "refers (indices sc') fs fs' \<and> indices sc \<subseteq> indices sc'"
  using assms
proof (cases rule: scan_entry_cases)
  case (used off f1 f2 f3 r4 f4 d r5 serial enc)
  have "refers {i} fs f1" unfolding used(4) by auto
  also have "refers {i} f1 f2" by (rule check_chs_lba_refers [OF used(5)])
  also have "refers {i} f2 f3" unfolding used(6) by auto
  also have "refers {i} f3 f4" by (rule check_vbr_refers [OF used(7)])
  also have "refers {i} f4 fs'" by (rule detect_and_check_fs_refers [OF used(8)])
  finally have "refers {i} fs fs'" .
  moreover have "indices sc' = insert i (indices sc)" by (simp add: used(10) indices_def Let_def)
  ultimately show ?thesis using refers_mono by fastforce
qed auto

lemma scan_loop_refers:
  "scan_loop env ds la ss es (r, fs, sc) = Some (r', fs', sc') \<Longrightarrow>
     refers (indices sc') fs fs' \<and> indices sc \<subseteq> indices sc'"
proof (induction es arbitrary: r fs sc)
  case (Cons x es)
  obtain i e where x: "x = (i, e)" by force
  obtain r1 f1 sc1 where 1: "scan_entry env ds la ss i e (r, fs, sc) = Some (r1, f1, sc1)"
    and 2: "scan_loop env ds la ss es (r1, f1, sc1) = Some (r', fs', sc')"
    using Cons.prems x by (auto split: Option.bind_splits)
  show ?case
    using scan_entry_refers [OF 1] Cons.IH [OF 2] refers_mono refers_trans by blast
qed simp

lemma scan_logical_refers:
  assumes "scan_logical env ds ss l (r, fs, sc) = Some (r', fs', sc')"
  shows "refers (indices sc') fs fs' \<and> indices sc \<subseteq> indices sc'"
proof -
  define slack_stage where "slack_stage = (if has_slack l
       then do {
         entropy \<leftarrow> shannon (f64 env) (slack l);
         off \<leftarrow> checked_add (ebr_offset l) EBR_SLACK_OFFSET;
         Some (record_finding env (EbrSlackData (ebr_lba l) entropy) off fs)
       }
       else Some fs)"
  let ?i = "EBR_INDEX_BASE + length (sc_summaries sc)" and ?off = "lba_to_byte (logical_lba_start l) ss"
  note body = assms [unfolded scan_logical_def Let_def prod.case, folded slack_stage_def]
  obtain f1 r4 f4 d r5 where f1: "slack_stage = Some f1"
    and f4: "check_vbr env r ?i (logical_lba_start l) ?off ds f1 = Some (r4, f4)"
    and f5: "detect_and_check_fs env r4 ?i ?off (type_code (logical l)) ds f4 = Some (d, r5, fs')"
    and sc': "indices sc' = insert ?i (indices sc)"
    using body by (auto simp: indices_def elim!: bind_SomeE)
  have "refers {?i} fs f1"
    using f1 by (auto simp: slack_stage_def split: if_splits elim!: bind_SomeE)
  also have "refers {?i} f1 f4" by (rule check_vbr_refers [OF f4])
  also have "refers {?i} f4 fs'" by (rule detect_and_check_fs_refers [OF f5])
  finally show ?thesis using sc' refers_mono by fastforce
qed

lemma logical_loop_refers:
  "logical_loop env ds ss ls (r, fs, sc) = Some (r', fs', sc') \<Longrightarrow>
     refers (indices sc') fs fs' \<and> indices sc \<subseteq> indices sc'"
proof (induction ls arbitrary: r fs sc)
  case (Cons l ls)
  obtain r1 f1 sc1 where 1: "scan_logical env ds ss l (r, fs, sc) = Some (r1, f1, sc1)"
    and 2: "logical_loop env ds ss ls (r1, f1, sc1) = Some (r', fs', sc')"
    using Cons.prems by (auto split: Option.bind_splits)
  show ?case
    using scan_logical_refers [OF 1] Cons.IH [OF 2] refers_mono refers_trans by blast
qed simp

lemma walk_extended_refers:
  assumes "walk_extended env r m sc ds ss fs = Some (c, r', fs', sc')"
  shows "refers (indices sc') fs fs' \<and> indices sc \<subseteq> indices sc'"
  using assms
proof (cases rule: walk_extended_cases)
  case (walked ext r1 off f0 f1)
  have "refers {} fs f0" unfolding walked(3) by auto
  also have "refers {} f0 f1" unfolding walked(4) by auto
  finally show ?thesis
    using logical_loop_refers [OF walked(5)] refers_mono refers_trans by blast
qed simp

lemma overlap_pairs_refers:
  "overlap_pairs env ps fs = Some fs' \<Longrightarrow> refers (fst ` (\<Union>p \<in> set ps. set p)) fs fs'"
proof (induction ps arbitrary: fs)
  case (Cons p ps)
  obtain a b where ab: "index p 0 = Some a" "index p 1 = Some b"
    using Cons.prems by (auto elim!: bind_SomeE)
  then have mem: "a \<in> set p" "b \<in> set p" by (auto simp: index_def split: if_splits)
  have "\<exists>f1. refers {fst a, fst b} fs f1 \<and> overlap_pairs env ps f1 = Some fs'"
    using Cons.prems [unfolded overlap_pairs.simps ab bind.bind_lunit case_prod_unfold]
    by (cases "fst (snd b) \<le> snd (snd a)") (simp, rule exI, rule conjI [OF refers_record], auto)
  then obtain f1 where named: "refers {fst a, fst b} fs f1" and rest: "overlap_pairs env ps f1 = Some fs'"
    by blast
  have "refers (fst ` (\<Union>p \<in> set (p # ps). set p)) fs f1"
    by (rule refers_mono [OF named]) (use mem in auto)
  moreover have "refers (fst ` (\<Union>p \<in> set (p # ps). set p)) f1 fs'"
    by (rule refers_mono [OF Cons.IH [OF rest]]) auto
  ultimately show ?case by (rule refers_trans)
qed simp

lemma check_overlaps_refers:
  assumes "check_overlaps env xs fs = Some fs'"
  shows "refers (fst ` set xs) fs fs'"
proof (rule refers_mono [OF overlap_pairs_refers [OF assms [unfolded check_overlaps_def]]])
  have "by_start xs ! k \<in> set xs" if "k < length xs" for k
    using nth_mem [of k "by_start xs"] that by simp
  then show "fst ` (\<Union>p \<in> set (windows 2 (by_start xs)). set p) \<subseteq> fst ` set xs"
    unfolding set_windows_2 by (intro image_mono) auto
qed

lemma analyse_refers:
  assumes "analyse_with_options env r ds opts = Some (Inr a)"
  shows "refers (ps_index ` set (ma_partitions a)) [] (ma_anomalies a)"
  using assms
proof (cases rule: analyse_stages)
  case (1 m r1 hdr r2 f1 f4 f5 last_lba f6 r7 f7 sc7 r8 f8 sc8 f9 f10 r11)
  let ?I = "indices sc8"
  have "refers ?I [] f1" by (rule refers_emits [OF check_boot_code_emits [OF 1(3)]]) simp
  also have "refers ?I f1 (check_disk_signature env m (ma_boot_code_id a) f1)" (is "refers _ _ ?f2")
    by (rule refers_emits [OF check_disk_signature_emits]) simp
  also have "refers ?I ?f2 (check_reserved env m ?f2)"
    by (rule refers_emits [OF check_reserved_emits]) simp
  also have "refers ?I (check_reserved env m ?f2) f4"
    unfolding 1(4) by (rule refers_emits [OF check_bootable_flags_emits]) simp
  also have "refers ?I f4 f5" by (rule refers_emits [OF check_duplicate_entries_emits [OF 1(5)]]) simp
  also have "refers ?I f5 f6" by (rule refers_emits [OF check_gpt_emits [OF 1(7)]]) simp
  also have "refers ?I f6 f7"
    using scan_loop_refers [OF 1(8) [unfolded scan_primary_entries_def]] walk_extended_refers [OF 1(9)]
      refers_mono by blast
  also have "refers ?I f7 f8" using walk_extended_refers [OF 1(9)] by blast
  also have "refers ?I f8 f9"
    by (rule refers_mono [OF check_overlaps_refers [OF 1(10)]])
      (use 1(19) in \<open>auto simp: scan_ok_def indices_def overlap_extent_of_def\<close>)
  also have "refers ?I f9 f10" by (rule refers_emits [OF check_gaps_emits [OF 1(11)]]) simp
  also have "refers ?I f10 (ma_anomalies a)"
    by (rule refers_emits [OF check_gap_content_emits [OF 1(12)]]) simp
  finally show ?thesis unfolding 1(14) indices_def .
qed

subsection \<open>Numbering\<close>

lemma sorted_wrt_used_slots: "sorted_wrt (<) (map fst (used_slots (enumerate n es)))"
proof (induction es arbitrary: n)
  case (Cons e es)
  have "n < i" if "(i, x) \<in> set (used_slots (enumerate (Suc n) es))" for i x
    using that by (auto simp: used_slots_def in_set_enumerate_eq)
  with Cons.IH [of "Suc n"] show ?case by (auto simp: used_slots_def)
qed (simp add: used_slots_def)

lemma inventory_indices:
  assumes "list_all2 (primary_summary ss) (used_slots (enumerate 0 es)) prims" and "length es = 4"
    and "list_all2 (logical_summary ss) (enumerate (4 + length prims) ls) logs"
  shows "sorted_wrt (<) (map ps_index (prims @ logs))"
    and "length (prims @ logs) \<le> 4 + length ls"
    and "\<forall>p \<in> set (prims @ logs). ps_index p < 8 + length ls"
    and "\<And>i. i < 4 \<Longrightarrow> i \<in> ps_index ` set (prims @ logs) \<longleftrightarrow> \<not> type_is_empty (type_code (es ! i))"
proof -
  have p: "map ps_index prims = map fst (used_slots (enumerate 0 es))"
    using assms(1) by (induction rule: list_all2_induct) (auto simp: primary_summary_def)
  have l: "map ps_index logs = [4 + length prims ..< 4 + length prims + length ls]"
  proof -
    have "map ps_index logs = map fst (enumerate (4 + length prims) ls)"
      using assms(3) by (induction rule: list_all2_induct) (auto simp: logical_summary_def)
    then show ?thesis by simp
  qed
  have len: "length prims \<le> 4" "length logs = length ls"
    using list_all2_lengthD [OF assms(1)] list_all2_lengthD [OF assms(3)] assms(2)
      length_filter_le [of "\<lambda>(i, e). \<not> type_is_empty (type_code e)" "enumerate 0 es"]
    by (simp_all add: used_slots_def)
  have small: "ps_index q < 4" if "q \<in> set prims" for q
  proof -
    have "ps_index q \<in> set (map fst (used_slots (enumerate 0 es)))" using that p by (metis image_eqI set_map)
    then show ?thesis using assms(2) by (auto simp: used_slots_def in_set_enumerate_eq)
  qed
  have big: "4 + length prims \<le> ps_index q" "ps_index q < 4 + length prims + length ls" if "q \<in> set logs" for q
  proof -
    have "ps_index q \<in> set (map ps_index logs)" using that by simp
    then show "4 + length prims \<le> ps_index q" "ps_index q < 4 + length prims + length ls"
      unfolding l by auto
  qed
  have logs_sorted: "sorted_wrt (<) (map ps_index logs)" unfolding l by simp
  have prims_sorted: "sorted_wrt (<) (map ps_index prims)" unfolding p by (rule sorted_wrt_used_slots)
  show "sorted_wrt (<) (map ps_index (prims @ logs))"
    unfolding map_append sorted_wrt_append using small big prims_sorted logs_sorted by fastforce
  show "length (prims @ logs) \<le> 4 + length ls" using len by simp
  show "\<forall>p \<in> set (prims @ logs). ps_index p < 8 + length ls" using small big len by fastforce
  fix i :: nat assume "i < 4"
  have "i \<in> ps_index ` set (prims @ logs) \<longleftrightarrow> i \<in> ps_index ` set prims"
    using big(1) \<open>i < 4\<close> by fastforce
  also have "ps_index ` set prims = fst ` set (used_slots (enumerate 0 es))" by (metis list.set_map p)
  also have "i \<in> \<dots> \<longleftrightarrow> \<not> type_is_empty (type_code (es ! i))"
    using \<open>i < 4\<close> assms(2) by (force simp: used_slots_def in_set_enumerate_eq)
  finally show "i \<in> ps_index ` set (prims @ logs) \<longleftrightarrow> \<not> type_is_empty (type_code (es ! i))" .
qed

lemma analyse_entries: "analyse_with_options env r ds opts = Some (Inr a) \<Longrightarrow> length (entries (ma_mbr a)) = 4"
  by (erule analyse_stages) (simp add: mbr_wf_def)

lemma analyse_indices:
  assumes "analyse_with_options env r ds opts = Some (Inr a)"
  shows "sorted_wrt (<) (map ps_index (ma_partitions a))"
    and "length (ma_partitions a) \<le> 4 + length (links (ma_ebr_chain a))"
    and "\<forall>p \<in> set (ma_partitions a). ps_index p < 8 + length (links (ma_ebr_chain a))"
    and "\<And>i. i < 4 \<Longrightarrow> i \<in> ps_index ` set (ma_partitions a) \<longleftrightarrow>
       \<not> type_is_empty (type_code (entries (ma_mbr a) ! i))"
proof -
  obtain prims logs where "ma_partitions a = prims @ logs"
    and "list_all2 (primary_summary (opt_sector_size opts)) (used_slots (enumerate 0 (entries (ma_mbr a)))) prims"
    and "list_all2 (logical_summary (opt_sector_size opts))
         (enumerate (4 + length prims) (links (ma_ebr_chain a))) logs"
    using analyse_inventory [OF assms] by blast
  note inv = inventory_indices [OF this(2) analyse_entries [OF assms] this(3), folded this(1)]
  show "sorted_wrt (<) (map ps_index (ma_partitions a))"
    "length (ma_partitions a) \<le> 4 + length (links (ma_ebr_chain a))"
    "\<forall>p \<in> set (ma_partitions a). ps_index p < 8 + length (links (ma_ebr_chain a))" by (fact inv)+
  show "i \<in> ps_index ` set (ma_partitions a) \<longleftrightarrow> \<not> type_is_empty (type_code (entries (ma_mbr a) ! i))"
    if "i < 4" for i using that by (rule inv)
qed

lemma residual_slot:
  assumes "analyse_with_options env r ds opts = Some (Inr a)"
    and "ResidualEntry i s n \<in> kinds (ma_anomalies a)"
  shows "i < 4 \<and> \<not> is_empty (entries (ma_mbr a) ! i)"
  using assms(1)
proof (cases rule: analyse_variants)
  case (1 m r1 hdr r2 f1 f4 f5 last_lba f6 r7 f7 sc7 r8 f8 sc8 f9 f10)
  have five: "(5 :: nat) \<in> {5, 6, 9, 10}" by simp
  have "ResidualEntry i s n \<in> of_variant 5 (ma_anomalies a)" using assms(2) by (simp add: of_variant_def)
  then obtain j where "j < length (entries m)" "ResidualEntry i s n \<in> slot_kinds ds last_lba (j, entries m ! j)"
    unfolding 1(20) [OF five] scan_primary_entries_kinds [OF 1(18) five 1(19) [OF five]] by blast
  moreover from this have "i = j" "\<not> is_empty (entries m ! j)"
    by (auto simp: slot_kinds_def split: if_splits)
  moreover have "length (entries m) = 4" using 1(2) by (simp add: mbr_wf_def)
  ultimately show ?thesis using 1(3) by simp
qed

lemma slot_refs_exist:
  assumes "analyse_with_options env r ds opts = Some (Inr a)" and "k \<in> kinds (ma_anomalies a)"
    and "i \<in> slot_refs k"
  shows "i < 4 \<and> \<not> is_empty (entries (ma_mbr a) ! i)"
proof (cases k)
  case (ResidualEntry j s n)
  with assms residual_slot [OF assms(1)] show ?thesis by auto
next
  case (DuplicatePartitionEntry j l)
  with assms analyse_duplicates [OF assms(1), of j l] show ?thesis by (auto simp: Let_def)
qed (use assms(3) in auto)

subsection \<open>The partitions that overlap findings name\<close>

lemma distinct_data_extents:
  assumes "analyse_with_options env r ds opts = Some (Inr a)"
  shows "distinct (map fst (data_extents a))"
proof -
  have "distinct (map ps_index (ma_partitions a))"
    using analyse_indices(1) [OF assms] by (simp add: strict_sorted_iff)
  then have "distinct (map ps_index (filter data_partition (ma_partitions a)))"
    by (rule distinct_map_filter)
  moreover have "mset (map fst (data_extents a)) = mset (map ps_index (filter data_partition (ma_partitions a)))"
    by (simp add: data_extents_def overlap_extent_of_def image_mset.compositionality comp_def)
  ultimately show ?thesis by (metis mset_eq_imp_distinct_iff)
qed

text \<open>
  A partition is named exactly when its predecessor in start order reaches it or it reaches its
  successor.
\<close>

lemma named_in_overlap_iff:
  assumes run: "analyse_with_options env r ds opts = Some (Inr a)" and m: "m < length (data_extents a)"
  shows "(\<exists>i j e s. OverlappingPartitions i j e s \<in> kinds (ma_anomalies a)
       \<and> fst (data_extents a ! m) \<in> {i, j}) \<longleftrightarrow>
     (0 < m \<and> runs_into (data_extents a ! (m - 1)) (data_extents a ! m))
     \<or> (Suc m < length (data_extents a) \<and> runs_into (data_extents a ! m) (data_extents a ! Suc m))"
    (is "?named \<longleftrightarrow> ?touch")
proof
  let ?ys = "data_extents a"
  have eq: "k = m" if "k < length ?ys" "fst (?ys ! k) = fst (?ys ! m)" for k
    using distinct_data_extents [OF run] that m by (simp add: distinct_conv_nth) metis
  assume ?named
  then obtain i j e s where named: "OverlappingPartitions i j e s \<in> kinds (ma_anomalies a)"
    "fst (?ys ! m) \<in> {i, j}" by blast
  then obtain k s' e' where k: "Suc k < length ?ys" "?ys ! k = (i, s', e)" "?ys ! Suc k = (j, s, e')" "s \<le> e"
    unfolding analyse_overlap_neighbours [OF run] by blast
  then have "k = m \<or> Suc k = m" using named(2) eq [of k] eq [of "Suc k"] by fastforce
  with k show ?touch by (auto simp: runs_into_def)
next
  let ?ys = "data_extents a"
  have pair: ?named if "Suc k < length ?ys" "runs_into (?ys ! k) (?ys ! Suc k)" "m \<in> {k, Suc k}" for k
  proof -
    have "OverlappingPartitions (fst (?ys ! k)) (fst (?ys ! Suc k)) (snd (snd (?ys ! k)))
        (fst (snd (?ys ! Suc k))) \<in> kinds (ma_anomalies a)"
      unfolding analyse_overlap_neighbours [OF run] using that(1,2)
      by (intro exI [of _ k]) (auto simp: runs_into_def prod_eq_iff)
    with that(3) show ?thesis by blast
  qed
  assume ?touch
  then show ?named using pair [of m] pair [of "m - 1"] m by fastforce
qed

text \<open>A disk with a large partition and two small ones inside it that do not touch each other.\<close>

definition nested_disk :: mbr_sector where
  "nested_disk = sample_disk\<lparr>entries :=
     [sample_slot 10 31, sample_slot 12 3, sample_slot 20 5, unused_slot]\<rparr>"

lemma nested_disk_wf: "mbr_wf nested_disk"
  using sample_disk_wf
  by (simp add: mbr_wf_def nested_disk_def sample_disk_def sample_slot_def unused_slot_def
      entry_wf_def chs_wf_def)

lemma nested_disk_extents:
  assumes "analyse_with_options env r ds default_options = Some (Inr a)" and "ma_mbr a = nested_disk"
  shows "data_extents a = [(0, 10, 40), (1, 12, 14), (2, 20, 24)]"
proof -
  let ?slots = "[(0, sample_slot 10 31), (1, sample_slot 12 3), (2, sample_slot 20 5)]"
  have "find is_extended (entries nested_disk) = None"
    by (simp add: nested_disk_def sample_slot_def unused_slot_def is_extended_def type_is_extended_def)
  then have none: "links (ma_ebr_chain a) = []" using analyse_no_extended [OF assms(1)] assms(2) by simp
  have "used_slots (enumerate 0 (entries nested_disk)) = ?slots"
    by (simp add: nested_disk_def used_slots_def sample_slot_def unused_slot_def type_is_empty_def)
  with none analyse_inventory [OF assms(1)]
  have "list_all2 (primary_summary (opt_sector_size default_options)) ?slots (ma_partitions a)"
    unfolding assms(2) by auto
  then obtain p q u where "ma_partitions a = [p, q, u]"
    "primary_summary 512 (0, sample_slot 10 31) p" "primary_summary 512 (1, sample_slot 12 3) q"
    "primary_summary 512 (2, sample_slot 20 5) u"
    by (auto simp: list_all2_Cons1 default_options_def SECTOR_BYTES_def SECTOR_SIZE_def)
  moreover have "lba_end (sample_slot 10 31) = 40" "lba_end (sample_slot 12 3) = 14" "lba_end (sample_slot 20 5) = 24"
    by (simp_all add: sample_slot_def lba_end_def saturating_add_def saturating_sub_def checked_add_def)
  ultimately show ?thesis
    by (simp add: data_extents_def overlap_extent_of_def primary_summary_def data_partition_def
        sample_slot_def type_is_extended_def)
qed

subsection \<open>Properties\<close>

text \<open>
  C16 (type): the shape of every report, whatever the reader delivered.  The boot record has its
  fixed field sizes and four entries; the chain has at most 64 links, each with 32 bytes of slack; there
  are at most 68 partitions, numbered in strictly ascending order below 72, so an index identifies a
  partition.
\<close>
theorem report_well_formed:
  assumes "analyse_with_options env r disk_size_bytes opts = Some (Inr a)"
  shows "mbr_wf (ma_mbr a)
    \<and> length (links (ma_ebr_chain a)) \<le> 64
    \<and> (\<forall>l \<in> set (links (ma_ebr_chain a)). length (slack l) = 32 \<and> entry_wf (logical l))
    \<and> length (ma_partitions a) \<le> 68
    \<and> sorted_wrt (<) (map ps_index (ma_partitions a))
    \<and> (\<forall>p \<in> set (ma_partitions a). ps_index p < 72)"
  using assms
proof (cases rule: analyse_stages)
  case (1 m r1 hdr r2 f1 f4 f5 last_lba f6 r7 f7 sc7 r8 f8 sc8 f9 f10 r11)
  obtain ext where "ebr_chain_ok ext (opt_sector_size opts) (ma_ebr_chain a)"
    using walk_extended_chain_ok [OF 1(9)] by blast
  then have chain: "length (links (ma_ebr_chain a)) \<le> 64"
    "\<forall>l \<in> set (links (ma_ebr_chain a)). length (slack l) = 32 \<and> entry_wf (logical l)"
    by (auto simp: ebr_chain_ok_def ebr_entry_ok_def list_all_iff)
  have wf: "mbr_wf (ma_mbr a)" using 1(13,18) by simp
  from wf chain analyse_indices(1-3) [OF assms] show ?thesis by fastforce
qed

theorem report_well_formed_witness:
  "\<exists>a. analyse_with_options (sample_env cursor_ops) (cursor_new (mbr_to_bytes sample_disk)) 16384
      default_options = Some (Inr a)
    \<and> mbr_wf (ma_mbr a) \<and> sorted_wrt (<) (map ps_index (ma_partitions a))"
proof -
  obtain a where a: "analyse_with_options (sample_env cursor_ops)
      (cursor_new (mbr_to_bytes sample_disk)) 16384 default_options = Some (Inr a)"
    by (rule sample_analysis)
  with report_well_formed [OF this] show ?thesis by blast
qed

text \<open>
  C15 (safety): no dangling references.  An anomaly of the kinds invalid status, overlap, out of
  bounds, CHS, boot-sector and type mismatch names partitions that the same report lists.  The two other
  kinds that carry indices, residual and duplicate entries, name slots of the primary table: those
  slots are among the four, are not empty, and are listed as partitions exactly when their type is not zero.
\<close>
theorem anomaly_references_exist:
  assumes "analyse_with_options env r disk_size_bytes opts = Some (Inr a)" and "x \<in> set (ma_anomalies a)"
  shows "partition_refs (an_kind x) \<subseteq> ps_index ` set (ma_partitions a)
    \<and> (\<forall>i \<in> slot_refs (an_kind x). i < 4 \<and> \<not> is_empty (entries (ma_mbr a) ! i)
         \<and> (i \<in> ps_index ` set (ma_partitions a) \<longleftrightarrow>
              \<not> type_is_empty (type_code (entries (ma_mbr a) ! i))))"
proof -
  have "partition_refs (an_kind x) \<subseteq> ps_index ` set (ma_partitions a)"
    using analyse_refers [OF assms(1)] assms(2) by (auto simp: refers_def)
  moreover have "an_kind x \<in> kinds (ma_anomalies a)" using assms(2) by (simp add: kinds_def)
  ultimately show ?thesis
    using slot_refs_exist [OF assms(1)] analyse_indices(4) [OF assms(1)] by blast
qed

theorem anomaly_references_exist_witness:
  "\<exists>a x i j e s. analyse_with_options (sample_env cursor_ops) (cursor_new (mbr_to_bytes sample_disk)) 16384
      default_options = Some (Inr a) \<and> x \<in> set (ma_anomalies a)
    \<and> an_kind x = OverlappingPartitions i j e s \<and> {i, j} \<subseteq> ps_index ` set (ma_partitions a)"
proof -
  obtain a where a: "analyse_with_options (sample_env cursor_ops)
      (cursor_new (mbr_to_bytes sample_disk)) 16384 default_options = Some (Inr a)" "ma_mbr a = sample_disk"
    by (rule sample_analysis)
  obtain i j e s where "OverlappingPartitions i j e s \<in> kinds (ma_anomalies a)"
    using analyse_overlap_iff [OF a(1) sample_shared_sector(1) [OF a]] sample_shared_sector(2) [OF a] by blast
  then obtain x where x: "x \<in> set (ma_anomalies a)" "an_kind x = OverlappingPartitions i j e s"
    by (auto simp: kinds_def)
  have "{i, j} \<subseteq> ps_index ` set (ma_partitions a)"
    using anomaly_references_exist [OF a(1) x(1)] by (simp add: x(2))
  with a(1) x show ?thesis by blast
qed

text \<open>
  C38 (safety): where the comparison of neighbours is blind.  Let a data partition lie inside
  one that is earlier in the order of starts, so that every sector of it is claimed twice.  When its own
  predecessor in that order ends before it starts and it ends before its successor starts, no overlap
  anomaly of the report names it, neither as the first nor as the second of a pair.
\<close>
theorem nested_overlap_unreported:
  assumes "analyse_with_options env r disk_size_bytes opts = Some (Inr a)"
    and "m < length (data_extents a)" and "k < m"
    and "data_extents a ! k = (i, s, e)" and "data_extents a ! m = (j, s', e')" and "e' \<le> e"
    and "snd (snd (data_extents a ! (m - 1))) < s'"
    and "Suc m < length (data_extents a) \<longrightarrow> e' < fst (snd (data_extents a ! Suc m))"
  shows "i \<noteq> j \<and> {unat s'..unat e'} \<subseteq> {unat s..unat e}
    \<and> (\<forall>i' j' e'' s''. OverlappingPartitions i' j' e'' s'' \<in> kinds (ma_anomalies a)
         \<longrightarrow> j \<noteq> i' \<and> j \<noteq> j')"
proof -
  have "i \<noteq> j"
    using nth_eq_iff_index_eq [OF distinct_data_extents [OF assms(1)], of k m] assms(2-5) by auto
  moreover have "s \<le> s'"
    using sorted_nth_mono [OF data_extents_sorted, of k m a] assms(2-5) by simp
  moreover have "\<not> (\<exists>i j e s. OverlappingPartitions i j e s \<in> kinds (ma_anomalies a)
       \<and> fst (data_extents a ! m) \<in> {i, j})"
    unfolding named_in_overlap_iff [OF assms(1,2)] using assms(5,7,8) by (auto simp: runs_into_def not_le)
  ultimately show ?thesis using assms(5,6) by (auto simp: word_le_nat_alt)
qed

theorem nested_overlap_unreported_witness:
  "\<exists>a. analyse_with_options (sample_env cursor_ops) (cursor_new (mbr_to_bytes nested_disk)) 32768
      default_options = Some (Inr a)
    \<and> data_extents a = [(0, 10, 40), (1, 12, 14), (2, 20, 24)]
    \<and> (\<forall>i j e s. OverlappingPartitions i j e s \<in> kinds (ma_anomalies a) \<longrightarrow> 2 \<noteq> i \<and> 2 \<noteq> j)"
proof -
  obtain a where a: "analyse_with_options (sample_env cursor_ops)
      (cursor_new (mbr_to_bytes nested_disk)) 32768 default_options = Some (Inr a)" "ma_mbr a = nested_disk"
    using wf_analysis [OF nested_disk_wf, of "[]" 32768] by auto
  have ys: "data_extents a = [(0, 10, 40), (1, 12, 14), (2, 20, 24)]" using a by (rule nested_disk_extents)
  from nested_overlap_unreported [OF a(1), of 2 0 0 10 40 2 20 24] ys
  have "\<forall>i j e s. OverlappingPartitions i j e s \<in> kinds (ma_anomalies a) \<longrightarrow> 2 \<noteq> i \<and> 2 \<noteq> j" by simp
  with a(1) ys show ?thesis by blast
qed

end
