(* ===== verification/Vfs.thy ===== *)
theory Vfs
  imports Mbr RustFmt
begin

text \<open>
  The \<open>forensic-vfs\<close> adapter (\<open>core/src/vfs.rs\<close>): the primary partitions of a byte source as
  volumes.  The source's \<open>read_at\<close> is a parameter (\<open>Inr bs\<close> is \<open>Ok(bs.len())\<close> with \<open>bs\<close> at the
  front of the buffer), as is \<open>SubRange::new\<close>, which windows a source; the errors of the source
  are of a type left open.
\<close>

subsection \<open>The code\<close>

datatype 'e vfs_error =
    SourceError 'e
  | Unsupported string string
  | OutOfRange string u64 u64 u64

type_synonym 'e source = "u64 \<Rightarrow> nat \<Rightarrow> 'e vfs_error + u8 list"

function fill :: "'e source \<Rightarrow> u64 \<Rightarrow> nat \<Rightarrow> 'e vfs_error + u8 list" where
  "fill src off n =
     (if n = 0 then Inr []
      else case src off n of
        Inl e \<Rightarrow> Inl e
      | Inr bs \<Rightarrow>
          if bs = [] then Inr (replicate n 0)
          else if n < length bs then Inr (take n bs)
          else (case fill src (saturating_add off (of_nat (length bs))) (n - length bs) of
                  Inl e \<Rightarrow> Inl e
                | Inr rest \<Rightarrow> Inr (bs @ rest)))"
  by pat_completeness auto
termination
  by (relation "measure (\<lambda>(src, off, n). n)") auto

declare fill.simps [simp del]

datatype volume_kind = VkPartition

datatype volume_scheme = VsMbr

record volume_desc =
  vd_index :: nat
  vd_kind :: volume_kind
  vd_start :: u64
  vd_len :: u64
  vd_type_hint :: "string option"
  vd_label :: "string option"

record 'e mbr_volumes =
  mv_parent :: "'e source"
  mv_volumes :: "volume_desc list"

definition volume_of :: "u64 \<Rightarrow> nat \<times> partition_entry \<Rightarrow> volume_desc" where
  "volume_of sector_size = (\<lambda>(i, e).
     \<lparr>vd_index = i, vd_kind = VkPartition,
      vd_start = saturating_mul (ucast (lba_start e)) sector_size,
      vd_len = saturating_mul (ucast (lba_count e)) sector_size,
      vd_type_hint = Some (''0x'' @ fmt_02X (type_byte (type_code e))), vd_label = None\<rparr>)"

definition volumes_open :: "'e source \<Rightarrow> ('e vfs_error + 'e mbr_volumes) option" where
  "volumes_open parent =
     (let sector_size = of_nat SECTOR_SIZE in
      case fill parent 0 SECTOR_SIZE of
        Inl e \<Rightarrow> Some (Inl e)
      | Inr sec \<Rightarrow> do {
          parsed \<leftarrow> parse_mbr_sector sec;
          case parsed of
            Inl _ \<Rightarrow> Some (Inl (Unsupported ''MbrVolumes'' ''MBR''))
          | Inr m \<Rightarrow>
              Some (Inr \<lparr>mv_parent = parent,
                mv_volumes = map (volume_of sector_size)
                  (enumerate 0 (filter (\<lambda>e. \<not> is_empty e) (entries m)))\<rparr>)
        })"

definition volumes_scheme :: "'e mbr_volumes \<Rightarrow> volume_scheme" where
  "volumes_scheme self = VsMbr"

definition volumes_list :: "'e mbr_volumes \<Rightarrow> volume_desc list" where
  "volumes_list self = mv_volumes self"

definition open_volume ::
  "('e source \<Rightarrow> u64 \<Rightarrow> u64 \<Rightarrow> 'e source) \<Rightarrow> 'e mbr_volumes \<Rightarrow> nat \<Rightarrow> 'e vfs_error + 'e source" where
  "open_volume sub_range self i =
     (if i < length (mv_volumes self)
      then let v = mv_volumes self ! i in Inr (sub_range (mv_parent self) (vd_start v) (vd_len v))
      else Inl (OutOfRange ''mbr volume index'' (of_nat i) 1 (of_nat (length (mv_volumes self)))))"

subsection \<open>Sources of a fixed image\<close>

text \<open>
  A source that reads one image: it never fails, may return less than it was asked for, and
  returns nothing only at the end.
\<close>

locale image_source =
  fixes src :: "'e source" and img :: "u8 list"
  assumes source_read: "\<exists>k. src off n = Inr (take k (drop (unat off) img)) \<and> k \<le> n
     \<and> (0 < n \<longrightarrow> unat off < length img \<longrightarrow> 0 < k)"
begin

lemma fill_image:
  "n + unat off < 2 ^ 64 \<Longrightarrow>
     fill src off n = Inr (take n (drop (unat off) img @ replicate n 0))"
proof (induction n arbitrary: off rule: less_induct)
  case (less n)
  let ?o = "unat off"
  obtain k where rd: "src off n = Inr (take k (drop ?o img))" and k: "k \<le> n"
    and prog: "0 < n \<longrightarrow> ?o < length img \<longrightarrow> 0 < k"
    using source_read by blast
  consider "n = 0" | "0 < n" "length img \<le> ?o" | "0 < n" "?o < length img" by linarith
  then show ?case
  proof cases
    case 3
    define bs where "bs = take k (drop ?o img)"
    have ne: "bs \<noteq> []" and len: "length bs \<le> n" "?o + length bs \<le> length img"
      using prog 3 k by (auto simp: bs_def)
    have bs: "bs = take (length bs) (drop ?o img)"
      unfolding bs_def by (metis append_eq_conv_conj append_take_drop_id)
    have off': "unat (saturating_add off (of_nat (length bs))) = ?o + length bs"
    proof -
      have "length bs < 2 ^ 64" using len(1) less.prems by linarith
      then show ?thesis using len(1) less.prems by (simp add: rust_arith unat_of_nat_small)
    qed
    have "n - length bs < n" using ne 3(1) by (cases bs) auto
    moreover have "n - length bs + unat (saturating_add off (of_nat (length bs))) < 2 ^ 64"
      unfolding off' using len(1) less.prems by linarith
    ultimately have IH: "fill src (saturating_add off (of_nat (length bs))) (n - length bs) =
        Inr (take (n - length bs) (drop (?o + length bs) img @ replicate (n - length bs) 0))"
      unfolding off' [symmetric] by (rule less.IH)
    have split: "drop ?o img = bs @ drop (?o + length bs) img"
      by (metis append_take_drop_id bs drop_drop add.commute)
    have "take (n - length bs) (drop (?o + length bs) img @ replicate (n - length bs) 0) =
        take (n - length bs) (drop (?o + length bs) img @ replicate n 0)"
      by (simp add: take_replicate min_def)
    then have "bs @ take (n - length bs) (drop (?o + length bs) img @ replicate (n - length bs) 0) =
        take n (drop ?o img @ replicate n 0)"
      unfolding split using len(1) by simp
    with IH rd ne len(1) 3(1) show ?thesis
      by (subst fill.simps) (simp add: bs_def [symmetric])
  qed (use rd in \<open>subst fill.simps, simp\<close>)+
qed

end

text \<open>The in-memory source of the adapter's tests.\<close>

definition mem_source :: "u8 list \<Rightarrow> 'e source" where
  "mem_source bytes off n = Inr (take n (drop (unat off) bytes))"

interpretation mem: image_source "mem_source bytes" bytes for bytes
  by unfold_locales (auto simp: mem_source_def)

subsection \<open>Windows\<close>

text \<open>
  What the adapter relies on of \<open>SubRange\<close>: windowing a source of an image gives a source of
  that part of the image.  \<open>clamped_window\<close> is one window function that does so.
\<close>

definition windows_image :: "('e source \<Rightarrow> u64 \<Rightarrow> u64 \<Rightarrow> 'e source) \<Rightarrow> bool" where
  "windows_image sub_range \<longleftrightarrow> (\<forall>src img start len.
     image_source src img \<longrightarrow> length img < 2 ^ 64 \<longrightarrow>
     image_source (sub_range src start len) (take (unat len) (drop (unat start) img)))"

definition clamped_window :: "'e source \<Rightarrow> u64 \<Rightarrow> u64 \<Rightarrow> 'e source" where
  "clamped_window src start len off n =
     (if len \<le> off then Inr [] else src (saturating_add start off) (min n (unat (len - off))))"

lemma clamped_window_image: "windows_image clamped_window"
  unfolding windows_image_def
proof (intro allI impI)
  fix src :: "'e source" and img and start len :: u64
  assume src: "image_source src img" and len: "length img < 2 ^ 64"
  let ?w = "take (unat len) (drop (unat start) img)"
  show "image_source (clamped_window src start len) ?w"
  proof
    fix off :: u64 and n
    show "\<exists>k. clamped_window src start len off n = Inr (take k (drop (unat off) ?w)) \<and> k \<le> n
      \<and> (0 < n \<longrightarrow> unat off < length ?w \<longrightarrow> 0 < k)"
    proof (cases "len \<le> off")
      case True
      then have "unat len \<le> unat off" by (simp add: word_le_nat_alt)
      then have "clamped_window src start len off n = Inr (take 0 (drop (unat off) ?w)) \<and> 0 \<le> n
        \<and> (0 < n \<longrightarrow> unat off < length ?w \<longrightarrow> 0 < (0 :: nat))"
        using True by (simp add: clamped_window_def)
      then show ?thesis by blast
    next
      case False
      let ?at = "saturating_add start off" and ?n = "min n (unat (len - off))"
      obtain k where k: "src ?at ?n = Inr (take k (drop (unat ?at) img))" "k \<le> ?n"
        "0 < ?n \<longrightarrow> unat ?at < length img \<longrightarrow> 0 < k"
        using image_source.source_read [OF src] by blast
      have room: "unat (len - off) = unat len - unat off" "0 < unat (len - off)"
        using False by (simp_all add: unat_sub word_le_nat_alt not_le)
      have "drop (unat ?at) img = drop (unat start + unat off) img"
        using len by (simp add: rust_arith min_def)
      with k(1,2) room have "clamped_window src start len off n = Inr (take k (drop (unat off) ?w))"
        using False by (simp add: clamped_window_def drop_take add.commute min_absorb1)
      moreover have "0 < k" if "0 < n" "unat off < length ?w"
        using that k(3) room len by (simp add: rust_arith min_def split: if_splits)
      ultimately show ?thesis using k(2) by auto
    qed
  qed
qed

subsection \<open>Properties\<close>

definition padded_sector :: "u8 list \<Rightarrow> u8 list" where
  "padded_sector img = take 512 (img @ replicate 512 0)"

definition used_entries :: "mbr_sector \<Rightarrow> partition_entry list" where
  "used_entries m = filter (\<lambda>e. \<not> is_empty e) (entries m)"

lemma unat_volume_bytes: "unat (saturating_mul (ucast (x :: u32)) (512 :: u64)) = 512 * unat x"
proof -
  have "unat x < 2 ^ 32" using unat_less_exp [of x] by simp
  then show ?thesis by (simp add: rust_arith)
qed

lemma volumes_open_image:
  assumes "image_source src img"
  shows "volumes_open src = Some (case the (parse_mbr_sector (padded_sector img)) of
      Inl _ \<Rightarrow> Inl (Unsupported ''MbrVolumes'' ''MBR'')
    | Inr m \<Rightarrow> Inr \<lparr>mv_parent = src,
        mv_volumes = map (volume_of 512) (enumerate 0 (used_entries m))\<rparr>)"
proof -
  have "take 512 (drop (unat (0 :: u64)) img @ replicate 512 0) = padded_sector img"
    by (simp add: padded_sector_def)
  then have "fill src 0 512 = Inr (padded_sector img)"
    using image_source.fill_image [OF assms, of 512 0] by simp
  then show ?thesis
    by (simp add: volumes_open_def SECTOR_SIZE_def parse_mbr_sector_eq used_entries_def)
qed

text \<open>
  C29 (functional): over a source of a fixed image, opening never panics and never fails
  with a source error, however short the source's reads are.  The sector it parses is the image's
  first 512 bytes, zero-padded at the end of a shorter image; a sector that is no boot record gives
  \<open>Unsupported\<close>, any other one volume per slot that is not wholly empty, numbered consecutively, at
  exactly 512 times the slot's start and length, with no saturation.
\<close>
theorem volumes_open_spec:
  assumes "image_source src img"
  shows "(\<forall>err. parse_mbr_sector (padded_sector img) = Some (Inl err) \<longrightarrow>
      volumes_open src = Some (Inl (Unsupported ''MbrVolumes'' ''MBR'')))
    \<and> (\<forall>m. parse_mbr_sector (padded_sector img) = Some (Inr m) \<longrightarrow>
      (\<exists>mv. volumes_open src = Some (Inr mv) \<and> mv_parent mv = src
        \<and> length (volumes_list mv) = length (used_entries m)
        \<and> (\<forall>i < length (used_entries m). let v = volumes_list mv ! i; e = used_entries m ! i in
             vd_index v = i \<and> unat (vd_start v) = 512 * unat (lba_start e)
             \<and> unat (vd_len v) = 512 * unat (lba_count e)
             \<and> vd_type_hint v = Some (''0x'' @ fmt_02X (type_byte (type_code e))))))"
  unfolding volumes_open_image [OF assms]
  by (simp add: volumes_list_def volume_of_def nth_enumerate_eq unat_volume_bytes Let_def)

lemma sample_disk_sector: "padded_sector (mbr_to_bytes sample_disk) = mbr_to_bytes sample_disk"
  "parse_mbr_sector (mbr_to_bytes sample_disk) = Some (Inr sample_disk)"
  by (simp_all add: padded_sector_def length_mbr_to_bytes parse_mbr_sector_eq sample_disk_wf
      mbr_to_bytes_signature mbr_of_bytes_to_bytes)

lemma sample_used_entries: "used_entries sample_disk = [sample_slot 10 10, sample_slot 15 10]"
  by (simp add: used_entries_def sample_disk_def sample_slot_def unused_slot_def is_empty_def
      type_is_empty_def)

theorem volumes_open_spec_witness:
  "\<exists>mv. volumes_open (mem_source (mbr_to_bytes sample_disk) :: unit source) = Some (Inr mv)
     \<and> length (volumes_list mv) = 2 \<and> unat (vd_start (volumes_list mv ! 1)) = 7680"
proof -
  have "\<exists>mv. volumes_open (mem_source (mbr_to_bytes sample_disk) :: unit source) = Some (Inr mv)
      \<and> length (volumes_list mv) = length (used_entries sample_disk)
      \<and> (\<forall>i < length (used_entries sample_disk).
           unat (vd_start (volumes_list mv ! i)) = 512 * unat (lba_start (used_entries sample_disk ! i)))"
    using volumes_open_spec [OF mem.image_source_axioms [where 'a = unit], of "mbr_to_bytes sample_disk"]
    unfolding sample_disk_sector Let_def by blast
  then show ?thesis
    by (auto simp: sample_used_entries sample_slot_def)
qed

text \<open>
  C30 (functional): opening a volume of an adapter built over an image succeeds exactly for the
  indices of its volumes and otherwise reports the index and the number of volumes; the source
  it returns reads the part of the image that the table slot describes.
\<close>
theorem open_volume_window:
  assumes "windows_image sub_range" and "image_source src img" and "length img < 2 ^ 64"
    and "parse_mbr_sector (padded_sector img) = Some (Inr m)"
  shows "\<exists>mv. volumes_open src = Some (Inr mv)
    \<and> (\<forall>i < length (used_entries m). \<exists>v. open_volume sub_range mv i = Inr v
        \<and> image_source v (take (512 * unat (lba_count (used_entries m ! i)))
            (drop (512 * unat (lba_start (used_entries m ! i))) img)))
    \<and> (\<forall>i \<ge> length (used_entries m). open_volume sub_range mv i = Inl (OutOfRange
         ''mbr volume index'' (of_nat i) 1 (of_nat (length (used_entries m)))))"
proof -
  have "image_source (sub_range src start len) (take (unat len) (drop (unat start) img))" for start len
    using assms(1-3) unfolding windows_image_def by blast
  from this [of "saturating_mul (ucast (x :: u32)) 512" "saturating_mul (ucast (y :: u32)) 512" for x y]
  have "image_source (sub_range src (saturating_mul (ucast x) 512) (saturating_mul (ucast y) 512))
      (take (512 * unat y) (drop (512 * unat x) img))" for x y :: u32
    by (simp only: unat_volume_bytes)
  then show ?thesis
    unfolding volumes_open_image [OF assms(2)]
    by (simp add: assms(4) open_volume_def volume_of_def nth_enumerate_eq Let_def)
qed

theorem open_volume_window_witness:
  "\<exists>mv. volumes_open (mem_source (mbr_to_bytes sample_disk) :: unit source) = Some (Inr mv)
     \<and> (\<exists>v. open_volume clamped_window mv 1 = Inr v)
     \<and> open_volume clamped_window mv 2 = Inl (OutOfRange ''mbr volume index'' 2 1 2)"
proof -
  have "length (mbr_to_bytes sample_disk) < 2 ^ 64"
    by (simp add: length_mbr_to_bytes sample_disk_wf)
  moreover have "parse_mbr_sector (padded_sector (mbr_to_bytes sample_disk)) = Some (Inr sample_disk)"
    by (simp only: sample_disk_sector)
  moreover have len: "length (used_entries sample_disk) = 2" by (simp add: sample_used_entries)
  ultimately obtain mv where
    mv: "volumes_open (mem_source (mbr_to_bytes sample_disk) :: unit source) = Some (Inr mv)"
    and ok: "\<forall>i < 2. \<exists>v. open_volume clamped_window mv i = Inr v"
    and out: "\<forall>i \<ge> 2. open_volume clamped_window mv i =
        Inl (OutOfRange ''mbr volume index'' (of_nat i) 1 (of_nat 2))"
    using open_volume_window [OF clamped_window_image mem.image_source_axioms [where 'a = unit],
        of "mbr_to_bytes sample_disk" sample_disk]
    unfolding len by blast
  from ok have "\<exists>v. open_volume clamped_window mv 1 = Inr v" by simp
  moreover from out [rule_format, of 2]
  have "open_volume clamped_window mv 2 = Inl (OutOfRange ''mbr volume index'' 2 1 2)" by simp
  ultimately show ?thesis using mv by blast
qed

end
