(* ===== verification/RealDisk.thy ===== *)
theory RealDisk
  imports Vfs Report
begin

text \<open>
  The real boot sector of \<open>tests/data/dftt_mmls_1_mbr.dd\<close> and the two test suites that check it against
  the answers of \<open>mmls\<close> and \<open>fdisk\<close>, tools that share no code with the program: the unit tests of
  \<open>core/src/vfs.rs\<close> and \<open>forensic/tests/real_mbr_oracle.rs\<close>.  The tests are Boolean functions of the
  source they run on; they hold for every source and every reader of the bytes.
\<close>

subsection \<open>The sector\<close>

definition dftt_boot_code :: "u8 list" where
  "dftt_boot_code =
    [0x33, 0xC0, 0x8E, 0xD0, 0xBC, 0x00, 0x7C, 0x8E, 0xC0, 0x8E, 0xD8, 0xBE, 0x00, 0x7C, 0xBF, 0x00, 0x06, 0xB9,
     0x00, 0x02, 0xFC, 0xF3, 0xA4, 0x50, 0x68, 0x1C, 0x06, 0xCB, 0xFB, 0xB9, 0x04, 0x00, 0xBD, 0xBE, 0x07, 0x80,
     0x7E, 0x00, 0x00, 0x7C, 0x0B, 0x0F, 0x85, 0x0E, 0x01, 0x83, 0xC5, 0x10, 0xE2, 0xF1, 0xCD, 0x18, 0x88, 0x56,
     0x00, 0x55, 0xC6, 0x46, 0x11, 0x05, 0xC6, 0x46, 0x10, 0x00, 0xB4, 0x41, 0xBB, 0xAA, 0x55, 0xCD, 0x13, 0x5D,
     0x72, 0x0F, 0x81, 0xFB, 0x55, 0xAA, 0x75, 0x09, 0xF7, 0xC1, 0x01, 0x00, 0x74, 0x03, 0xFE, 0x46, 0x10, 0x66,
     0x60, 0x80, 0x7E, 0x10, 0x00, 0x74, 0x26, 0x66, 0x68, 0x00, 0x00, 0x00, 0x00, 0x66, 0xFF, 0x76, 0x08, 0x68,
     0x00, 0x00, 0x68, 0x00, 0x7C, 0x68, 0x01, 0x00, 0x68, 0x10, 0x00, 0xB4, 0x42, 0x8A, 0x56, 0x00, 0x8B, 0xF4,
     0xCD, 0x13, 0x9F, 0x83, 0xC4, 0x10, 0x9E, 0xEB, 0x14, 0xB8, 0x01, 0x02, 0xBB, 0x00, 0x7C, 0x8A, 0x56, 0x00,
     0x8A, 0x76, 0x01, 0x8A, 0x4E, 0x02, 0x8A, 0x6E, 0x03, 0xCD, 0x13, 0x66, 0x61, 0x73, 0x1C, 0xFE, 0x4E, 0x11,
     0x75, 0x0C, 0x80, 0x7E, 0x00, 0x80, 0x0F, 0x84, 0x8A, 0x00, 0xB2, 0x80, 0xEB, 0x84, 0x55, 0x32, 0xE4, 0x8A,
     0x56, 0x00, 0xCD, 0x13, 0x5D, 0xEB, 0x9E, 0x81, 0x3E, 0xFE, 0x7D, 0x55, 0xAA, 0x75, 0x6E, 0xFF, 0x76, 0x00,
     0xE8, 0x8D, 0x00, 0x75, 0x17, 0xFA, 0xB0, 0xD1, 0xE6, 0x64, 0xE8, 0x83, 0x00, 0xB0, 0xDF, 0xE6, 0x60, 0xE8,
     0x7C, 0x00, 0xB0, 0xFF, 0xE6, 0x64, 0xE8, 0x75, 0x00, 0xFB, 0xB8, 0x00, 0xBB, 0xCD, 0x1A, 0x66, 0x23, 0xC0,
     0x75, 0x3B, 0x66, 0x81, 0xFB, 0x54, 0x43, 0x50, 0x41, 0x75, 0x32, 0x81, 0xF9, 0x02, 0x01, 0x72, 0x2C, 0x66,
     0x68, 0x07, 0xBB, 0x00, 0x00, 0x66, 0x68, 0x00, 0x02, 0x00, 0x00, 0x66, 0x68, 0x08, 0x00, 0x00, 0x00, 0x66,
     0x53, 0x66, 0x53, 0x66, 0x55, 0x66, 0x68, 0x00, 0x00, 0x00, 0x00, 0x66, 0x68, 0x00, 0x7C, 0x00, 0x00, 0x66,
     0x61, 0x68, 0x00, 0x00, 0x07, 0xCD, 0x1A, 0x5A, 0x32, 0xF6, 0xEA, 0x00, 0x7C, 0x00, 0x00, 0xCD, 0x18, 0xA0,
     0xB7, 0x07, 0xEB, 0x08, 0xA0, 0xB6, 0x07, 0xEB, 0x03, 0xA0, 0xB5, 0x07, 0x32, 0xE4, 0x05, 0x00, 0x07, 0x8B,
     0xF0, 0xAC, 0x3C, 0x00, 0x74, 0x09, 0xBB, 0x07, 0x00, 0xB4, 0x0E, 0xCD, 0x10, 0xEB, 0xF2, 0xF4, 0xEB, 0xFD,
     0x2B, 0xC9, 0xE4, 0x64, 0xEB, 0x00, 0x24, 0x02, 0xE0, 0xF8, 0x24, 0x02, 0xC3, 0x49, 0x6E, 0x76, 0x61, 0x6C,
     0x69, 0x64, 0x20, 0x70, 0x61, 0x72, 0x74, 0x69, 0x74, 0x69, 0x6F, 0x6E, 0x20, 0x74, 0x61, 0x62, 0x6C, 0x65,
     0x00, 0x45, 0x72, 0x72, 0x6F, 0x72, 0x20, 0x6C, 0x6F, 0x61, 0x64, 0x69, 0x6E, 0x67, 0x20, 0x6F, 0x70, 0x65,
     0x72, 0x61, 0x74, 0x69, 0x6E, 0x67, 0x20, 0x73, 0x79, 0x73, 0x74, 0x65, 0x6D, 0x00, 0x4D, 0x69, 0x73, 0x73,
     0x69, 0x6E, 0x67, 0x20, 0x6F, 0x70, 0x65, 0x72, 0x61, 0x74, 0x69, 0x6E, 0x67, 0x20, 0x73, 0x79, 0x73, 0x74,
     0x65, 0x6D, 0x00, 0x00, 0x00, 0x63, 0x7B, 0x9A, 0x5D, 0xF5, 0xF7, 0x7E, 0x00, 0x00]"

definition dftt_table :: "u8 list" where
  "dftt_table =
    [0x00, 0x02, 0x03, 0x00, 0x07, 0x72, 0x2F, 0x03, 0x80, 0x00, 0x00, 0x00, 0x00, 0xD8, 0x00, 0x00,
     0x00, 0x72, 0x30, 0x03, 0x07, 0xFE, 0x3F, 0x06, 0x80, 0xD8, 0x00, 0x00, 0x00, 0xF0, 0x00, 0x00,
     0x00, 0x00, 0x00, 0x00, 0x00, 0x00, 0x00, 0x00, 0x00, 0x00, 0x00, 0x00, 0x00, 0x00, 0x00, 0x00,
     0x00, 0x00, 0x00, 0x00, 0x00, 0x00, 0x00, 0x00, 0x00, 0x00, 0x00, 0x00, 0x00, 0x00, 0x00, 0x00]"

definition dftt_mbr :: "u8 list" where
  "dftt_mbr = dftt_boot_code @ dftt_table @ [0x55, 0xAA]"

record oracle_row =
  row_entry :: nat
  row_start :: u64
  row_end :: u64
  row_length :: u64
  row_type :: u8
  row_bootable :: bool

definition mmls_oracle :: "oracle_row list" where
  "mmls_oracle =
    [\<lparr>row_entry = 0, row_start = 128, row_end = 55423, row_length = 55296, row_type = 0x07,
      row_bootable = False\<rparr>,
     \<lparr>row_entry = 1, row_start = 55424, row_end = 116863, row_length = 61440, row_type = 0x07,
      row_bootable = False\<rparr>]"

definition DISK_SIZE_BYTES :: u64 where "DISK_SIZE_BYTES = 116864 * 512"

lemma dftt_length [simp]:
  "length dftt_boot_code = 446" "length dftt_table = 64" "length dftt_mbr = 512"
  by (simp_all add: dftt_boot_code_def dftt_table_def dftt_mbr_def)

lemma dftt_signature: "dftt_mbr ! 510 = 0x55" "dftt_mbr ! 511 = 0xAA"
  by (simp_all add: dftt_mbr_def nth_append)

lemma dftt_drop: "446 \<le> n \<Longrightarrow> drop n dftt_mbr = drop (n - 446) (dftt_table @ [0x55, 0xAA])"
  by (simp add: dftt_mbr_def)

lemma dftt_entries:
  "entries (mbr_of_bytes dftt_mbr) =
    [\<lparr>status = 0, chs_first = \<lparr>cylinder = 0, head = 2, sector = 3\<rparr>, type_code = TypeCode 7,
       chs_last = \<lparr>cylinder = 3, head = 114, sector = 47\<rparr>, lba_start = 128, lba_count = 55296\<rparr>,
     \<lparr>status = 0, chs_first = \<lparr>cylinder = 3, head = 114, sector = 48\<rparr>, type_code = TypeCode 7,
       chs_last = \<lparr>cylinder = 6, head = 254, sector = 63\<rparr>, lba_start = 55424, lba_count = 61440\<rparr>,
     unused_slot, unused_slot]"
  by (simp add: mbr_of_bytes_def dftt_drop dftt_table_def entry_from_bytes_def chs_from_bytes_def
      unused_slot_def from_le_bytes_def)

lemma dftt_parse: "parse_mbr_sector dftt_mbr = Some (Inr (mbr_of_bytes dftt_mbr))"
  by (simp add: parse_mbr_sector_eq dftt_signature)

subsection \<open>The adapter's tests\<close>

definition mbr_volumes_match_mmls_fdisk_oracle :: "'e source \<Rightarrow> bool" where
  "mbr_volumes_match_mmls_fdisk_oracle real_mbr =
     (case volumes_open real_mbr of
        Some (Inr vs) \<Rightarrow>
          let vols = volumes_list vs in
          volumes_scheme vs = VsMbr \<and> length vols = 2
          \<and> vd_kind (vols ! 0) = VkPartition \<and> vd_start (vols ! 0) = 128 * 512
          \<and> vd_len (vols ! 0) = 55296 * 512 \<and> vd_type_hint (vols ! 0) = Some ''0x07''
          \<and> vd_start (vols ! 1) = 55424 * 512 \<and> vd_len (vols ! 1) = 61440 * 512
          \<and> vd_type_hint (vols ! 1) = Some ''0x07''
      | _ \<Rightarrow> False)"

definition open_volume_ok_for_valid_err_for_invalid ::
  "('e source \<Rightarrow> u64 \<Rightarrow> u64 \<Rightarrow> 'e source) \<Rightarrow> 'e source \<Rightarrow> bool" where
  "open_volume_ok_for_valid_err_for_invalid sub_range real_mbr =
     (case volumes_open real_mbr of
        Some (Inr vs) \<Rightarrow> \<not> isl (open_volume sub_range vs 0) \<and> isl (open_volume sub_range vs 99)
      | _ \<Rightarrow> False)"

definition open_rejects_non_mbr_sector_zero :: "'e source \<Rightarrow> bool" where
  "open_rejects_non_mbr_sector_zero mem =
     (case volumes_open mem of Some (Inl (Unsupported _ scheme)) \<Rightarrow> scheme = ''MBR'' | _ \<Rightarrow> False)"

definition open_tolerates_truncated_source_then_rejects :: "'e source \<Rightarrow> bool" where
  "open_tolerates_truncated_source_then_rejects mem =
     (case volumes_open mem of Some (Inl (Unsupported _ _)) \<Rightarrow> True | _ \<Rightarrow> False)"

lemma dftt_hint: "fmt_02X 7 = ''07''"
  by code_simp

lemma dftt_used:
  "used_entries (mbr_of_bytes dftt_mbr) = take 2 (entries (mbr_of_bytes dftt_mbr))"
  by (simp add: used_entries_def dftt_entries is_empty_def unused_slot_def type_is_empty_def)

lemma dftt_volumes:
  assumes "image_source src dftt_mbr"
  shows "volumes_open src = Some (Inr \<lparr>mv_parent = src,
    mv_volumes = map (volume_of 512) (enumerate 0 (take 2 (entries (mbr_of_bytes dftt_mbr))))\<rparr>)"
  by (simp add: volumes_open_image [OF assms] padded_sector_def dftt_parse dftt_used)

lemma zero_sector_rejected:
  assumes "image_source src (replicate n 0)"
  shows "volumes_open src = Some (Inl (Unsupported ''MbrVolumes'' ''MBR''))"
proof -
  have "padded_sector (replicate n 0) = replicate 512 0"
    by (simp add: padded_sector_def replicate_add [symmetric])
  then show ?thesis by (simp add: volumes_open_image [OF assms] parse_mbr_sector_eq)
qed

text \<open>
  Further fact (functional): the unit tests of the adapter hold over every source of their
  images: the volumes of the real sector are those of \<open>mmls\<close> and \<open>fdisk\<close>, its volumes open within
  bounds only, and zeroed or truncated sectors are rejected.
\<close>
theorem adapter_tests_pass:
  assumes "image_source real_mbr dftt_mbr" and "image_source zeros (replicate 512 0)"
    and "image_source short (replicate 100 0)"
  shows "mbr_volumes_match_mmls_fdisk_oracle real_mbr
    \<and> open_volume_ok_for_valid_err_for_invalid sub_range real_mbr
    \<and> open_rejects_non_mbr_sector_zero zeros
    \<and> open_tolerates_truncated_source_then_rejects short"
  unfolding mbr_volumes_match_mmls_fdisk_oracle_def open_volume_ok_for_valid_err_for_invalid_def
    open_rejects_non_mbr_sector_zero_def open_tolerates_truncated_source_then_rejects_def
    dftt_volumes [OF assms(1)] zero_sector_rejected [OF assms(2)] zero_sector_rejected [OF assms(3)]
  by (simp add: dftt_entries volumes_list_def volumes_scheme_def volume_of_def open_volume_def Let_def
      saturating_mul_def checked_mul_def dftt_hint)

theorem adapter_tests_pass_witness:
  "mbr_volumes_match_mmls_fdisk_oracle (mem_source dftt_mbr :: unit source)
   \<and> open_volume_ok_for_valid_err_for_invalid clamped_window (mem_source dftt_mbr :: unit source)"
  using adapter_tests_pass [OF mem.image_source_axioms [where 'a = unit, of dftt_mbr]
      mem.image_source_axioms [where 'a = unit, of "replicate 512 0"]
      mem.image_source_axioms [where 'a = unit, of "replicate 100 0"], of clamped_window] by simp

subsection \<open>The analysis of the real disk\<close>

definition row_matches :: "oracle_row \<Rightarrow> ('vs, 'enc) partition_summary \<Rightarrow> bool" where
  "row_matches row part \<longleftrightarrow> ps_lba_start part = row_start row \<and> ps_lba_end part = row_end row
     \<and> type_byte (ps_declared_type part) = row_type row"

definition primary_entries_match_mmls_oracle :: "mbr_sector \<Rightarrow> bool" where
  "primary_entries_match_mmls_oracle m \<longleftrightarrow>
     list_all (\<lambda>row. let e = entries m ! row_entry row in
         ucast (lba_start e) = row_start row \<and> ucast (lba_end e) = row_end row
         \<and> ucast (lba_count e) = row_length row \<and> type_byte (type_code e) = row_type row
         \<and> is_bootable e = row_bootable row) mmls_oracle
     \<and> is_empty (entries m ! 2) \<and> is_empty (entries m ! 3)"

definition analyse_partitions_match_mmls_oracle ::
  "('r, 'vs, 'enc, 'gpt) env \<Rightarrow> 'r \<Rightarrow> bool" where
  "analyse_partitions_match_mmls_oracle env cur =
     (case analyse env cur DISK_SIZE_BYTES of
        Some (Inr report) \<Rightarrow>
          list_all2 row_matches mmls_oracle
            (filter (\<lambda>p. \<not> type_is_empty (ps_declared_type p)) (ma_partitions report))
      | _ \<Rightarrow> False)"

lemma dftt_slots:
  "used_slots (enumerate 0 (entries (mbr_of_bytes dftt_mbr))) =
     [(0, entries (mbr_of_bytes dftt_mbr) ! 0), (1, entries (mbr_of_bytes dftt_mbr) ! 1)]"
  "find is_extended (entries (mbr_of_bytes dftt_mbr)) = None"
  by (simp_all add: used_slots_def dftt_entries unused_slot_def type_is_empty_def is_extended_def
      type_is_extended_def)

lemma dftt_lba_end:
  "lba_end (entries (mbr_of_bytes dftt_mbr) ! 0) = 55423"
  "lba_end (entries (mbr_of_bytes dftt_mbr) ! 1) = 116863"
  by (simp_all add: dftt_entries lba_end_def saturating_add_def saturating_sub_def checked_add_def)

lemma dftt_analysis:
  assumes img: "image_reader (reader env) pos retries" and at: "pos r (dftt_mbr @ tail) p"
    and gpt: "\<And>r. gpt_analyse env r ds \<noteq> None"
  obtains a x y where "analyse_with_options env r ds default_options = Some (Inr a)"
    "ma_mbr a = mbr_of_bytes dftt_mbr" "ma_partitions a = [x, y]"
    "primary_summary 512 (0, entries (mbr_of_bytes dftt_mbr) ! 0) x"
    "primary_summary 512 (1, entries (mbr_of_bytes dftt_mbr) ! 1) y"
proof -
  let ?m = "mbr_of_bytes dftt_mbr"
  have sig: "(dftt_mbr @ tail) ! 510 = 0x55" "(dftt_mbr @ tail) ! 511 = 0xAA"
    using dftt_signature by (simp_all add: nth_append)
  obtain r1 where rd: "read_mbr (reader env) r = Some (Inr ?m, r1)"
    by (rule image_reader.read_mbr_at [OF img at]) (use sig in simp)
  have "\<exists>p. pos r (dftt_mbr @ tail) p" using at ..
  with fair_reader.analyse_with_options_returns [OF image_reader.fair_on_image [OF img] refl _
      default_sector_size gpt]
  obtain res where res: "analyse_with_options env r ds default_options = Some res" by blast
  then obtain a where a: "res = Inr a"
    using analyse_error_iff [of env r ds default_options] rd by (cases res) auto
  note run = res [unfolded a]
  have m: "ma_mbr a = ?m" using run by (rule analyse_stages) (use rd in simp)
  have "links (ma_ebr_chain a) = []" using analyse_no_extended [OF run] m dftt_slots(2) by simp
  with analyse_inventory [OF run] m dftt_slots(1) obtain prims where "ma_partitions a = prims"
    "list_all2 (primary_summary (opt_sector_size default_options))
       [(0, entries ?m ! 0), (1, entries ?m ! 1)] prims" by auto
  moreover have "opt_sector_size default_options = 512"
    by (simp add: default_options_def SECTOR_BYTES_def SECTOR_SIZE_def)
  ultimately obtain x y where "ma_partitions a = [x, y]" "primary_summary 512 (0, entries ?m ! 0) x"
    "primary_summary 512 (1, entries ?m ! 1) y"
    by (auto simp: list_all2_Cons1)
  with that [OF run m] show thesis by blast
qed

text \<open>
  Further fact (functional): the program agrees with \<open>mmls\<close> and \<open>fdisk\<close> on the real disk, over every
  reader of the sector with any bytes behind it: the table entries and the partitions of the report
  are those of the oracle, and the sectors of the report's gaps are the unallocated ones after the boot
  record, 1 to 127.
\<close>
theorem real_disk_matches_oracle:
  assumes "image_reader (reader env) pos retries" and "pos r (dftt_mbr @ tail) p"
    and "\<forall>r. gpt_analyse env r DISK_SIZE_BYTES \<noteq> None"
  shows "primary_entries_match_mmls_oracle (mbr_of_bytes dftt_mbr)
    \<and> analyse_partitions_match_mmls_oracle env r
    \<and> (\<exists>a. analyse env r DISK_SIZE_BYTES = Some (Inr a)
        \<and> (\<forall>lba. (\<exists>g \<in> set (ma_gaps a). in_gap lba g) \<longleftrightarrow> 1 \<le> lba \<and> lba \<le> 127))"
proof -
  obtain a x y where run: "analyse_with_options env r DISK_SIZE_BYTES default_options = Some (Inr a)"
    and ps: "ma_partitions a = [x, y]"
    and x: "primary_summary 512 (0, entries (mbr_of_bytes dftt_mbr) ! 0) x"
    and y: "primary_summary 512 (1, entries (mbr_of_bytes dftt_mbr) ! 1) y"
    by (rule dftt_analysis [OF assms(1,2), of DISK_SIZE_BYTES]) (use assms(3) in blast)
  have xy: "extent_of x = (128, 55423)" "extent_of y = (55424, 116863)"
    "ps_declared_type x = TypeCode 7" "ps_declared_type y = TypeCode 7"
    using x y dftt_lba_end by (simp_all add: primary_summary_def extent_of_def dftt_entries)
  have ds: "unat DISK_SIZE_BYTES = 116864 * 512" "0 < DISK_SIZE_BYTES" by (simp_all add: DISK_SIZE_BYTES_def)
  have ss: "opt_sector_size default_options = 512"
    by (simp add: default_options_def SECTOR_BYTES_def SECTOR_SIZE_def)
  have cover: "covered (map extent_of (ma_partitions a)) lba \<longleftrightarrow> 128 \<le> lba \<and> lba \<le> 116863"
    "before_some (map extent_of (ma_partitions a)) lba \<longleftrightarrow> lba < 55424" for lba
    by (auto simp: ps xy covered_def before_some_def)
  have "unat DISK_SIZE_BYTES div unat (opt_sector_size default_options) - 1 = 116863"
    by (simp add: ds ss)
  then have gaps: "(\<exists>g \<in> set (ma_gaps a). in_gap lba g) \<longleftrightarrow> 1 \<le> lba \<and> lba \<le> 127" for lba
    using conjunct1 [OF analyse_gaps [OF run default_sector_size ds(2)], rule_format, of lba]
    unfolding cover by linarith
  have "primary_entries_match_mmls_oracle (mbr_of_bytes dftt_mbr)"
    using dftt_lba_end
    by (simp add: primary_entries_match_mmls_oracle_def mmls_oracle_def dftt_entries is_bootable_def
        is_empty_def unused_slot_def type_is_empty_def)
  moreover have "analyse_partitions_match_mmls_oracle env r"
    using xy by (simp add: analyse_partitions_match_mmls_oracle_def analyse_def run ps row_matches_def
        mmls_oracle_def extent_of_def type_is_empty_def)
  ultimately show ?thesis using run gaps by (auto simp: analyse_def)
qed

theorem real_disk_matches_oracle_witness:
  "analyse_partitions_match_mmls_oracle (sample_env cursor_ops) (cursor_new dftt_mbr)"
  using real_disk_matches_oracle [of "sample_env cursor_ops" cursor_at "\<lambda>_. 0" "cursor_new dftt_mbr" "[]" 0]
    cur.image_reader_axioms cursor_new_at [of dftt_mbr] by simp

end
