(* ===== verification/DiskSignature.thy ===== *)
theory DiskSignature
  imports Prelude
begin

text \<open>
  Cross-disk signature collisions (\<open>core/src/disk_signature.rs\<close>).  The source groups the
  disk indices by signature in a hash map and keeps the order of first appearance in a vector.
\<close>

record signature_collision =
  shared_signature :: u32
  members :: "nat list"

fun group_signatures ::
  "nat \<Rightarrow> u32 list \<Rightarrow> u32 list \<Rightarrow> (u32 \<rightharpoonup> nat list) \<Rightarrow> u32 list \<times> (u32 \<rightharpoonup> nat list)" where
  "group_signatures i [] order groups = (order, groups)"
| "group_signatures i (sig # sigs) order groups =
     (if sig = 0 then group_signatures (Suc i) sigs order groups
      else let entry = (case groups sig of Some v \<Rightarrow> v | None \<Rightarrow> []);
               order' = (if entry = [] then order @ [sig] else order)
           in group_signatures (Suc i) sigs order' (groups(sig \<mapsto> entry @ [i])))"

fun collect_collisions :: "u32 list \<Rightarrow> (u32 \<rightharpoonup> nat list) \<Rightarrow> signature_collision list" where
  "collect_collisions [] groups = []"
| "collect_collisions (sig # order) groups =
     (let members = (case groups sig of Some v \<Rightarrow> v | None \<Rightarrow> []);
          rest = collect_collisions order (groups(sig := None))
      in if 2 \<le> length members then \<lparr>shared_signature = sig, members = members\<rparr> # rest else rest)"

definition find_signature_collisions :: "u32 list \<Rightarrow> signature_collision list" where
  "find_signature_collisions sigs =
     (case group_signatures 0 sigs [] Map.empty of (order, groups) \<Rightarrow> collect_collisions order groups)"

subsection \<open>Reference notions\<close>

definition disks_with :: "u32 list \<Rightarrow> u32 \<Rightarrow> nat list" where
  "disks_with sigs s = filter (\<lambda>i. sigs ! i = s) [0..<length sigs]"

text \<open>The distinct elements of a list in the order of their first appearance.\<close>

definition first_seen :: "'a list \<Rightarrow> 'a list" where
  "first_seen xs = rev (remdups (rev xs))"

lemma first_seen_snoc:
  "first_seen (xs @ [x]) = (if x \<in> set xs then first_seen xs else first_seen xs @ [x])"
  by (simp add: first_seen_def)

lemma first_seen_Nil [simp]: "first_seen [] = []"
  by (simp add: first_seen_def)

lemma set_first_seen [simp]: "set (first_seen xs) = set xs"
  by (simp add: first_seen_def)

lemma distinct_first_seen [simp]: "distinct (first_seen xs)"
  by (simp add: first_seen_def)

lemma disks_with_snoc:
  "disks_with (xs @ [x]) s = disks_with xs s @ (if x = s then [length xs] else [])"
proof -
  have "filter (\<lambda>i. (xs @ [x]) ! i = s) [0..<length xs] = filter (\<lambda>i. xs ! i = s) [0..<length xs]"
    by (intro filter_cong) (auto simp: nth_append)
  then show ?thesis by (simp add: disks_with_def)
qed

lemma disks_with_empty_iff: "disks_with xs s = [] \<longleftrightarrow> s \<notin> set xs"
  by (auto simp: disks_with_def filter_empty_conv in_set_conv_nth)

definition grouped :: "u32 list \<Rightarrow> u32 \<rightharpoonup> nat list" where
  "grouped xs s = (if s \<noteq> 0 \<and> s \<in> set xs then Some (disks_with xs s) else None)"

lemma group_signatures_snoc:
  "s \<noteq> 0 \<Longrightarrow> (grouped xs)(s \<mapsto> disks_with xs s @ [length xs]) = grouped (xs @ [s])"
  "grouped (xs @ [0]) = grouped xs"
  by (auto simp: grouped_def disks_with_snoc disks_with_empty_iff fun_eq_iff)

lemma group_signatures_eq:
  "group_signatures (length xs) ys (first_seen (filter (\<lambda>s. s \<noteq> 0) xs)) (grouped xs) =
     (first_seen (filter (\<lambda>s. s \<noteq> 0) (xs @ ys)), grouped (xs @ ys))"
proof (induction ys arbitrary: xs)
  case (Cons y ys)
  have entry: "(case grouped xs y of Some v \<Rightarrow> v | None \<Rightarrow> []) = disks_with xs y" if "y \<noteq> 0"
    using that disks_with_empty_iff [of xs y] by (auto simp: grouped_def)
  have IH: "group_signatures (Suc (length xs)) ys (first_seen (filter (\<lambda>s. s \<noteq> 0) (xs @ [y])))
      (grouped (xs @ [y])) = (first_seen (filter (\<lambda>s. s \<noteq> 0) (xs @ y # ys)), grouped (xs @ y # ys))"
    using Cons [of "xs @ [y]"] by simp
  show ?case
  proof (cases "y = 0")
    case True
    with IH show ?thesis by (simp add: group_signatures_snoc)
  next
    case False
    have "first_seen (filter (\<lambda>s. s \<noteq> 0) (xs @ [y])) =
        (if disks_with xs y = [] then first_seen (filter (\<lambda>s. s \<noteq> 0) xs) @ [y]
         else first_seen (filter (\<lambda>s. s \<noteq> 0) xs))"
      using False by (simp add: first_seen_snoc disks_with_empty_iff)
    with IH False entry show ?thesis
      by (simp add: group_signatures_snoc(1) [symmetric] Let_def)
  qed
qed simp

lemma collect_collisions_eq:
  "distinct order \<Longrightarrow> (\<And>s. s \<in> set order \<Longrightarrow> groups s = Some (f s)) \<Longrightarrow>
     collect_collisions order groups =
       map (\<lambda>s. \<lparr>shared_signature = s, members = f s\<rparr>) (filter (\<lambda>s. 2 \<le> length (f s)) order)"
proof (induction order arbitrary: groups)
  case (Cons s order)
  then have "collect_collisions order (groups(s := None)) =
      map (\<lambda>s. \<lparr>shared_signature = s, members = f s\<rparr>) (filter (\<lambda>s. 2 \<le> length (f s)) order)"
    by (intro Cons.IH) auto
  with Cons.prems(2) [of s] show ?case by (simp add: Let_def)
qed simp

subsection \<open>Properties\<close>

text \<open>
  C37 (equivalence): the hash-map grouping computes the declarative result: one collision per
  non-zero signature that at least two disks carry, in the order of first appearance, with the
  ascending indices of exactly the disks that carry it.
\<close>
theorem find_signature_collisions_spec:
  "find_signature_collisions sigs =
     map (\<lambda>s. \<lparr>shared_signature = s, members = filter (\<lambda>i. sigs ! i = s) [0..<length sigs]\<rparr>)
       (filter (\<lambda>s. 2 \<le> count_list sigs s) (first_seen (filter (\<lambda>s. s \<noteq> 0) sigs)))"
proof -
  let ?order = "first_seen (filter (\<lambda>s. s \<noteq> 0) sigs)"
  have grp: "group_signatures 0 sigs [] Map.empty = (?order, grouped sigs)"
  proof -
    have "grouped [] = Map.empty" by (auto simp: grouped_def)
    then show ?thesis using group_signatures_eq [of "[]" sigs] by simp
  qed
  have count: "length (disks_with sigs s) = count_list sigs s" for s
  proof (induction sigs rule: rev_induct)
    case (snoc x xs)
    then show ?case by (simp add: disks_with_snoc)
  qed (simp add: disks_with_def)
  have "collect_collisions ?order (grouped sigs) =
      map (\<lambda>s. \<lparr>shared_signature = s, members = disks_with sigs s\<rparr>)
        (filter (\<lambda>s. 2 \<le> length (disks_with sigs s)) ?order)"
    by (rule collect_collisions_eq) (auto simp: grouped_def)
  then show ?thesis
    by (simp add: find_signature_collisions_def grp count) (simp add: disks_with_def)
qed

end
