(* ===== verification/Spec2Isabelle.thy ===== *)
theory Spec2Isabelle
  imports Guarantees Content Trace Integrity RealDisk DiskSignature
begin

text \<open>
  \<^bold>\<open>The program.\<close>  \<open>mbr-partition-forensic\<close> reads the Master Boot Record of a disk image and reports
  what is wrong with it.  The crate \<open>core\<close> (\<open>mbr\<close>) decodes on-disk structures without judging them: the
  512-byte boot sector and its four entries (\<open>mbr.rs\<close>, \<open>partition.rs\<close>), the chain of extended boot
  records (\<open>ebr.rs\<close>), volume boot records (\<open>vbr.rs\<close>), GPT predicates (\<open>gpt.rs\<close>), boot-code and filesystem
  fingerprints (\<open>boot_code.rs\<close>, \<open>signature.rs\<close>), cross-disk signatures (\<open>disk_signature.rs\<close>), carving
  (\<open>carve.rs\<close>) and an adapter to a virtual filesystem (\<open>vfs.rs\<close>).  The crate \<open>forensic\<close> runs the
  analysis: \<open>analyse.rs\<close> is a pipeline over a seekable reader whose stages append anomalies
  (\<open>findings.rs\<close>) to one list, using \<open>gap.rs\<close>, \<open>wipe.rs\<close>, \<open>entropy.rs\<close> and \<open>provenance.rs\<close>.  Two
  fuzz targets state the intent that neither the parser nor the pipeline ever panics.

  \<^bold>\<open>Conventions.\<close>  A value of type \<open>'a option\<close> is a call that returns; \<^const>\<open>None\<close> is a panic or a loop
  that never ends, so every out-of-range index, checked overflow and division by zero of the source
  is a branch of the model.  \<open>Result\<close> is a sum with the error on the left.  \<open>u8\<close> to \<open>u64\<close> are words,
  \<open>usize\<close> (which only counts bytes and entries in memory) is \<open>nat\<close>, fixed arrays are lists, strings
  are lists of UTF-8 bytes.  The state of the reader and the list of anomalies are passed explicitly,
  in the order of the code.  \<open>f64\<close> is \<open>real\<close> with the rounding of every operation a parameter
  (\<open>f64_env\<close>); facts about values of the entropy assume errors of at most \<open>2 ^ -50\<close> per operation or exact
  arithmetic, all others hold for every rounding.  Other crates are parameters: the lookups of \<open>forensicnomicon\<close>, \<open>gpt_partition_forensic\<close>
  and the caller's reader are fields of the record \<open>env\<close>, the sources and windows of \<open>forensic-vfs\<close> are
  arguments.

  \<^bold>\<open>Theories.\<close>
  \<^item> \<open>Prelude\<close>, \<open>RustFmt\<close>, \<open>RustIO\<close>: Rust's integer, slice, formatting and I/O primitives.  \<open>RustIO\<close> has
    the two reader interfaces: \<open>fair_reader\<close> (a reader may fail in any way but interrupts only
    finitely often; interpreted by the fault-injecting disk of the tests) and \<open>image_reader\<close> (a reader
    of a fixed image that may return short reads and be interrupted finitely often in a row;
    interpreted by the in-memory cursor and by the fault-injecting disk without faults), with the
    second a sublocale of the first.
  \<^item> \<open>Partition\<close>, \<open>Mbr\<close>, \<open>Ebr\<close>, \<open>Vbr\<close>, \<open>Gpt\<close>, \<open>BootCode\<close>, \<open>FsSignature\<close>, \<open>DiskSignature\<close>, \<open>Carve\<close>, \<open>Vfs\<close>: one theory
    per file of \<open>core/src\<close>.  They show that decoding is total and lossless (both directions of the
    codecs), the CHS arithmetic in its 32 bits, that the EBR walk ends over every fair reader, keeps its
    invariant (at most 64 links at distinct sectors) and computes exactly the chain of the inductive
    description \<open>ebr_run\<close> over an image, that carving and string extraction are sound and complete and
    that the hash-map grouping equals its declarative reading.  \<open>Vfs\<close> has the interface
    \<open>image_source\<close>, interpreted by the in-memory source of the adapter's tests.
  \<^item> \<open>Entropy\<close>, \<open>Wipe\<close>, \<open>Gap\<close>, \<open>Provenance\<close>, \<open>Findings\<close>: the leaf modules of \<open>forensic/src\<close>.  The sweep of
    \<open>compute_gaps\<close> refines the complement of the extents, in maximal runs when no extent is empty; the classifier flags exactly the fills of
    period one and two.  \<open>Rounding\<close> bounds the error of the computed entropy by \<open>2 ^ -35\<close>.
  \<^item> \<open>Analyse\<close>: every function of \<open>analyse.rs\<close> and the pipeline fuzz target, definitions only.
  \<^item> \<open>Stages\<close>: what each stage may append (\<open>emits\<close>) and the inventory it builds.
  \<^item> \<open>Robust\<close>: the pipeline returns over every fair reader, for sector sizes from 1 to \<open>2 ^ 30\<close>.  The
    upper bound keeps the byte offset of a 32-bit LBA plus a chain's 32-bit offsets below \<open>2 ^ 64\<close>; at
    zero the code divides by zero.
  \<^item> \<open>Report\<close> and \<open>Guarantees\<close>: the pipeline taken apart, and the report over an arbitrary reader:
    inventory, overlaps, gaps, slots, duplicates, boot code, GPT reconciliation, EBR chain, table flags,
    provenance and the order of the anomalies are characterised exactly.
  \<^item> \<open>ImageRuns\<close>: the interface \<open>reader_pair\<close> of two readers of one image; every stage maps related
    readers to equal findings, so the report is a function of the image.
  \<^item> \<open>Content\<close>: over an image, the fingerprints of the partitions and the anomalies of boot sectors,
    filesystems and gap samples as functions of the bytes.
  \<^item> \<open>Integrity\<close>: the shape of a report (sizes, numbering), what the indices in its anomalies refer to
    (listed partitions, or slots of the primary table), and which overlaps stay unnamed because the code
    compares neighbours only.
  \<^item> \<open>Trace\<close>: the events of \<open>core/src/diag.rs\<close>.  The functions that emit them are repeated with a log and
    the feature \<open>trace\<close> as an argument; erasing the log gives back the functions of \<open>Ebr\<close> and \<open>Analyse\<close>.
    The interface \<open>io_events\<close> says which reads may fail and which events that may cause; it is
    interpreted by the readers of an image, for which the events are computed from the bytes.
  \<^item> \<open>RealDisk\<close>: the real boot sector of the test data, the unit tests of \<open>vfs.rs\<close> and the comparison with
    \<open>mmls\<close> and \<open>fdisk\<close>, for every reader of the sector.
  \<^item> This theory: the adapter's volumes agree with the partitions of the analysis.

  \<^bold>\<open>Bounds and fuel.\<close>  No definition uses fuel.  The EBR loop terminates by its own depth limit of 64; the
  retry loops of \<open>read_exact\<close> and \<open>read_fingerprint\<close> are partial functions whose return is proved from the
  fair-reader law.

  \<^bold>\<open>Not modelled.\<close>  The event \<open>anomaly_recorded\<close> (\<open>forensic/src/diag.rs\<close>), the spans of \<open>tracing::instrument\<close> and what a subscriber does with an event, \<open>serde\<close>
  attributes, the re-exports of \<open>lib.rs\<close> and \<open>bootkit.rs\<close>, the other test cases, and everything inside \<open>forensicnomicon\<close>,
  \<open>gpt_partition_forensic\<close> and \<open>forensic-vfs\<close>, whose sources are not part of the repository.  The features
  \<open>gpt\<close> and \<open>vfs\<close> are taken as enabled.  The sign of a zero entropy is not represented.
\<close>

subsection \<open>The adapter and the analysis\<close>

lemma padded_sector_whole: "512 \<le> length img \<Longrightarrow> padded_sector img = take 512 img"
  by (simp add: padded_sector_def)

lemma analysis_table_of_image:
  assumes "image_reader (reader env) pos retries" and "pos r img p"
    and "analyse_with_options env r ds opts = Some (Inr a)"
  shows "parse_mbr_sector (padded_sector img) = Some (Inr (ma_mbr a))"
proof -
  obtain r1 where rd: "read_mbr (reader env) r = Some (Inr (ma_mbr a), r1)"
    using analyse_boot_code [OF assms(3)] by blast
  obtain r2 q where "read_mbr (reader env) r =
      Some (if 512 \<le> length img
            then (if img ! 510 = 0x55 \<and> img ! 511 = 0xAA then Inr (mbr_of_bytes (take 512 img))
                  else Inl (BadSignature (from_be_bytes [img ! 510, img ! 511])))
            else Inl (Io UnexpectedEof), r2)" "pos r2 img q"
    by (rule image_reader.read_mbr_at [OF assms(1,2)])
  with rd have "512 \<le> length img" "img ! 510 = 0x55" "img ! 511 = 0xAA"
    "ma_mbr a = mbr_of_bytes (take 512 img)"
    by (auto split: if_splits)
  then show ?thesis by (simp add: padded_sector_whole parse_mbr_sector_eq)
qed

lemma enumerate_map_snd: "map (f \<circ> snd) (filter (\<lambda>(i, e). P e) (enumerate n xs)) = map f (filter P xs)"
  by (induction xs arbitrary: n) auto

lemma list_all2_preimage: "list_all2 P xs ys \<Longrightarrow> y \<in> set ys \<Longrightarrow> \<exists>x \<in> set xs. P x y"
  by (induction rule: list_all2_induct) auto

lemma primary_of_inventory:
  assumes "list_all2 (primary_summary ss) (used_slots (enumerate 0 es)) prims" and "length es = 4"
    and "list_all2 (logical_summary ss) (enumerate (4 + n) ls) logs"
  shows "filter (\<lambda>q. ps_index q < 4) (prims @ logs) = prims"
proof -
  have "ps_index q < 4" if "q \<in> set prims" for q
    using list_all2_preimage [OF assms(1) that] assms(2)
    by (auto simp: primary_summary_def used_slots_def in_set_enumerate_eq)
  moreover have "\<not> ps_index q < 4" if "q \<in> set logs" for q
    using list_all2_preimage [OF assms(3) that] by (auto simp: logical_summary_def in_set_enumerate_eq)
  ultimately show ?thesis by simp
qed

text \<open>
  C10 (equivalence): the two views of a disk agree.  Over the same image, analysed with a
  sector size of 512 bytes, and with no residual slot in its table, the volumes that the virtual-filesystem adapter exposes are the
  primary partitions of the analysis, in the same order, at the same byte offsets and of the same
  byte sizes.
\<close>
theorem volumes_agree_with_analysis:
  assumes "image_reader (reader env) pos retries" and "pos r img p"
    and "analyse_with_options env r disk_size_bytes opts = Some (Inr a)"
    and "opt_sector_size opts = 512" and "image_source src img"
    and "\<forall>e \<in> set (entries (ma_mbr a)). type_is_empty (type_code e) \<longrightarrow> is_empty e"
  shows "\<exists>mv. volumes_open src = Some (Inr mv)
    \<and> map (\<lambda>v. (vd_start v, vd_len v)) (volumes_list mv) =
        map (\<lambda>q. (ps_byte_offset q, ps_byte_size q))
          (filter (\<lambda>q. ps_index q < 4) (ma_partitions a))"
proof -
  let ?m = "ma_mbr a" and ?b = "\<lambda>e. (lba_to_byte (ucast (lba_start e)) 512, lba_to_byte (ucast (lba_count e)) 512)"
  have parse: "parse_mbr_sector (padded_sector img) = Some (Inr ?m)"
    using assms(1-3) by (rule analysis_table_of_image)
  obtain prims logs where parts: "ma_partitions a = prims @ logs"
    and prims: "list_all2 (primary_summary 512) (used_slots (enumerate 0 (entries ?m))) prims"
    and logs: "list_all2 (logical_summary 512) (enumerate (4 + length prims) (links (ma_ebr_chain a))) logs"
    using analyse_inventory [OF assms(3)] unfolding assms(4) by blast
  have "length (entries ?m) = 4"
    using assms(3) by (rule analyse_stages) (simp add: mbr_wf_def)
  with prims logs have only: "filter (\<lambda>q. ps_index q < 4) (ma_partitions a) = prims"
    unfolding parts by (intro primary_of_inventory)
  have "map (?b \<circ> snd) (used_slots (enumerate 0 (entries ?m))) = map (\<lambda>q. (ps_byte_offset q, ps_byte_size q)) prims"
    using prims by (induction rule: list_all2_induct) (auto simp: primary_summary_def)
  then have "map (\<lambda>q. (ps_byte_offset q, ps_byte_size q)) prims =
      map ?b (filter (\<lambda>e. \<not> type_is_empty (type_code e)) (entries ?m))"
    unfolding used_slots_def enumerate_map_snd by simp
  also have "filter (\<lambda>e. \<not> type_is_empty (type_code e)) (entries ?m) = used_entries ?m"
    unfolding used_entries_def by (rule filter_cong) (use assms(6) in \<open>auto simp: is_empty_def\<close>)
  finally have "map (\<lambda>q. (ps_byte_offset q, ps_byte_size q)) prims = map ?b (used_entries ?m)" .
  moreover have "map (\<lambda>v. (vd_start v, vd_len v)) (map (volume_of 512) (enumerate 0 es)) = map ?b es" for es
    by (rule nth_equalityI) (simp_all add: volume_of_def nth_enumerate_eq lba_to_byte_def)
  ultimately show ?thesis
    unfolding volumes_open_image [OF assms(5)] only by (simp add: parse volumes_list_def)
qed

theorem volumes_agree_with_analysis_witness:
  "\<exists>a mv. analyse_with_options (sample_env cursor_ops) (cursor_new (mbr_to_bytes sample_disk)) 16384
      default_options = Some (Inr a)
    \<and> volumes_open (mem_source (mbr_to_bytes sample_disk) :: unit source) = Some (Inr mv)
    \<and> map (\<lambda>v. (vd_start v, vd_len v)) (volumes_list mv) =
        map (\<lambda>q. (ps_byte_offset q, ps_byte_size q))
          (filter (\<lambda>q. ps_index q < 4) (ma_partitions a))"
proof -
  obtain a where a: "analyse_with_options (sample_env cursor_ops)
      (cursor_new (mbr_to_bytes sample_disk)) 16384 default_options = Some (Inr a)" "ma_mbr a = sample_disk"
    by (rule sample_analysis)
  have "opt_sector_size default_options = 512"
    by (simp add: default_options_def SECTOR_BYTES_def SECTOR_SIZE_def)
  moreover have "\<forall>e \<in> set (entries (ma_mbr a)). type_is_empty (type_code e) \<longrightarrow> is_empty e"
    unfolding a(2)
    by (simp add: sample_disk_def sample_slot_def unused_slot_def is_empty_def type_is_empty_def)
  ultimately show ?thesis
    using volumes_agree_with_analysis [OF sample_disk_reader(1,2) a(1) _ mem.image_source_axioms [where 'a = unit]]
      a(1) by blast
qed

end
